(* ===== verification/Prelude.thy ===== *)
theory Prelude
  imports Main "HOL-Library.Word"
begin

text \<open>
  Shared vocabulary of the development: the machine sizes of the C code (\<open>size_t\<close> on a
  64-bit target), the memory functions of the C library the
  code calls, the for-loop-with-early-return combinator, and the generic list lemmas the
  component theories use.

  Sizes are natural numbers below \<open>2 ^ 64\<close>. Where the code guards an operation against
  overflow, or an index is bounded by a length, the plain operation of \<open>nat\<close> is used; where it
  does not, the wrap-around is written out with \<open>sz_add\<close>, \<open>sz_sub\<close> and \<open>sz_mul\<close>.
\<close>

named_theorems view_simps "unfoldings of the StringView operations on non-null views"
named_theorems loop_simps "characterisations of the loop combinators"

section \<open>Sizes\<close>

type_synonym size_t = nat

definition SIZE_MAX :: size_t where
  "SIZE_MAX = 18446744073709551615"

definition INT_MAX :: nat where
  "INT_MAX = 2147483647"

definition sz_add :: "size_t \<Rightarrow> size_t \<Rightarrow> size_t" where
  "sz_add a b = (a + b) mod (SIZE_MAX + 1)"

definition sz_sub :: "size_t \<Rightarrow> size_t \<Rightarrow> size_t" where
  "sz_sub a b = (a + (SIZE_MAX + 1) - b) mod (SIZE_MAX + 1)"

definition sz_mul :: "size_t \<Rightarrow> size_t \<Rightarrow> size_t" where
  "sz_mul a b = (a * b) mod (SIZE_MAX + 1)"

lemma SIZE_MAX_pow: "SIZE_MAX + 1 = 2 ^ 64"
  by (simp add: SIZE_MAX_def)

lemma sz_add_exact: "a + b \<le> SIZE_MAX \<Longrightarrow> sz_add a b = a + b"
  by (simp add: sz_add_def)

lemma sz_sub_exact: "b \<le> a \<Longrightarrow> a \<le> SIZE_MAX \<Longrightarrow> sz_sub a b = a - b"
proof -
  assume b: "b \<le> a" and a: "a \<le> SIZE_MAX"
  have "a + (SIZE_MAX + 1) - b = (a - b) + (SIZE_MAX + 1)" using b by simp
  moreover have "a - b < SIZE_MAX + 1" using a by simp
  ultimately show ?thesis unfolding sz_sub_def by (metis mod_add_self2 mod_less)
qed

lemma sz_mul_exact: "a * b \<le> SIZE_MAX \<Longrightarrow> sz_mul a b = a * b"
  by (simp add: sz_mul_def)

lemma sz_add_bound: "sz_add a b \<le> SIZE_MAX"
  by (simp add: sz_add_def SIZE_MAX_def)

lemma div_guard_mult: "0 < n \<Longrightarrow> c \<le> m div n \<Longrightarrow> n * c \<le> (m::nat)"
  by (metis less_eq_div_iff_mult_less_eq mult.commute)

section \<open>Loops with an early return\<close>

text \<open>
  \<open>first_index P n\<close> is the loop \<open>for (i = 0; i < n; i++) if (P i) return i;\<close>, and
  \<open>last_index P n\<close> the loop \<open>for (i = n; i > 0; i--) if (P (i - 1)) return i - 1;\<close>.
\<close>

definition first_index :: "(nat \<Rightarrow> bool) \<Rightarrow> nat \<Rightarrow> nat option" where
  "first_index P n = List.find P [0..<n]"

definition last_index :: "(nat \<Rightarrow> bool) \<Rightarrow> nat \<Rightarrow> nat option" where
  "last_index P n = List.find P (rev [0..<n])"

lemma first_index_Some [loop_simps]:
  "first_index P n = Some i \<longleftrightarrow> i < n \<and> P i \<and> (\<forall>j<i. \<not> P j)"
proof
  assume "first_index P n = Some i"
  then obtain k where "k < n" "P ([0..<n] ! k)" "i = [0..<n] ! k" "\<forall>j<k. \<not> P ([0..<n] ! j)"
    unfolding first_index_def find_Some_iff by auto
  then show "i < n \<and> P i \<and> (\<forall>j<i. \<not> P j)" by auto
next
  assume *: "i < n \<and> P i \<and> (\<forall>j<i. \<not> P j)"
  then show "first_index P n = Some i"
    unfolding first_index_def find_Some_iff by (intro exI [of _ i]) auto
qed

lemma first_index_None [loop_simps]: "first_index P n = None \<longleftrightarrow> (\<forall>i<n. \<not> P i)"
  by (auto simp: first_index_def find_None_iff)

lemma last_index_None [loop_simps]: "last_index P n = None \<longleftrightarrow> (\<forall>i<n. \<not> P i)"
  by (auto simp: last_index_def find_None_iff)

lemma last_index_Suc: "last_index P (Suc n) = (if P n then Some n else last_index P n)"
  by (simp add: last_index_def)

lemma last_index_0 [simp]: "last_index P 0 = None"
  by (simp add: last_index_def)

lemma last_index_Some [loop_simps]:
  "last_index P n = Some i \<longleftrightarrow> i < n \<and> P i \<and> (\<forall>j. i < j \<and> j < n \<longrightarrow> \<not> P j)"
  by (induction n) (auto simp: last_index_Suc less_Suc_eq)

lemma first_index_cong:
  "n = m \<Longrightarrow> (\<And>i. i < m \<Longrightarrow> P i = Q i) \<Longrightarrow> first_index P n = first_index Q m"
  unfolding first_index_def by (auto intro!: find_cong)

section \<open>Memory functions\<close>

text \<open>The bytes of memory are the characters of Isabelle; the code compares them unsigned.\<close>

definition byte :: "char \<Rightarrow> nat" where
  "byte c = of_char c"

text \<open>\<open>memcmp (a, b, n)\<close>, with the difference of the first bytes that differ as its result.\<close>

fun memcmp :: "char list \<Rightarrow> char list \<Rightarrow> nat \<Rightarrow> int" where
  "memcmp (x # xs) (y # ys) (Suc n) =
     (if x = y then memcmp xs ys n else int (byte x) - int (byte y))"
| "memcmp _ _ _ = 0"

lemma byte_inject [simp]: "byte x = byte y \<longleftrightarrow> x = y"
  unfolding byte_def by (metis char_of_char)

lemma byte_less: "byte c < 256"
  using nat_of_char_less_256 [of c] by (simp add: byte_def)

lemma memcmp_eq_0:
  "n \<le> length a \<Longrightarrow> n \<le> length b \<Longrightarrow> memcmp a b n = 0 \<longleftrightarrow> take n a = take n b"
  by (induction a b n rule: memcmp.induct) (auto simp: take_Cons')

lemma memcmp_antisym: "memcmp a b n = - memcmp b a n"
  by (induction a b n rule: memcmp.induct) auto

section \<open>Lists\<close>

lemma take_drop_split: "i + n \<le> length xs \<Longrightarrow> take n (drop i xs) = map (\<lambda>k. xs ! (i + k)) [0..<n]"
  by (rule nth_equalityI) auto

lemma sum_list_elem_le: "x \<in> set xs \<Longrightarrow> f x \<le> (sum_list (map f xs) :: nat)"
  by (induction xs) auto

lemma find_map_same:
  "(\<And>x. P (f x) = P x) \<Longrightarrow> List.find P (map f xs) = map_option f (List.find P xs)"
  by (induction xs) auto

lemma takeWhile_first [simp]: "c \<notin> set l \<Longrightarrow> takeWhile (\<lambda>x. x \<noteq> c) (l @ c # r) = l"
  by (induction l) auto

lemma dropWhile_first [simp]: "c \<notin> set l \<Longrightarrow> dropWhile (\<lambda>x. x \<noteq> c) (l @ c # r) = c # r"
  by (induction l) auto

lemma length_takeWhile_eq:
  "i < length v \<Longrightarrow> \<not> P (v ! i) \<Longrightarrow> \<forall>j<i. P (v ! j) \<Longrightarrow> length (takeWhile P v) = i"
proof (induction v arbitrary: i)
  case (Cons a v)
  show ?case
  proof (cases i)
    case (Suc k)
    then have "P a" "\<forall>j<k. P (v ! j)" using Cons.prems(3) by (metis nth_Cons_0 zero_less_Suc) (use Cons.prems(3) Suc in auto)
    then show ?thesis using Cons Suc by simp
  qed (use Cons.prems in simp)
qed simp

text \<open>Two splittings of one list, the first at an element the second has not passed yet.\<close>

lemma split_align:
  "pre @ b # post = p @ x # q \<Longrightarrow> b \<notin> set p \<Longrightarrow>
   (p = pre \<and> x = b \<and> q = post) \<or> (\<exists>r. pre = p @ x # r \<and> q = r @ b # post)"
proof (induction pre arbitrary: p)
  case Nil
  then show ?case by (cases p) auto
next
  case (Cons a pre)
  then show ?case by (cases p) auto
qed

end
