(* ===== verification/Arena.thy ===== *)
theory Arena
  imports Prelude
begin

text \<open>
  The arena allocator of \<open>src/src/memory/arena.c\<close>: a chain of blocks obtained from \<open>malloc\<close>,
  a current block that is filled from left to right, marks that record a position, and the
  operations that release memory in bulk.

  A block is identified by its address, a pointer into a block is the pair of the block's address
  and an offset into its data, and the chain \<open>first, first->next, ...\<close> is a list. The C library's
  \<open>malloc\<close> is a parameter: given the addresses the arena already holds and a size it returns
  the address and the (arbitrary) contents of fresh memory, or \<open>NULL\<close>. \<open>malloc_spec\<close> states what
  the standard promises of it. Every object argument (\<open>Arena *\<close>) is the object itself, so the
  tests of it against \<open>NULL\<close> have no counterpart.
\<close>

section \<open>State\<close>

record ArenaBlock =
  block_addr :: nat
  block_capacity :: size_t
  block_used :: size_t
  block_allocation_count :: size_t
  block_oversized :: bool
  block_data :: "char list"

record Arena =
  arena_blocks :: "ArenaBlock list"
  arena_current :: "nat option"
  arena_default_block_size :: size_t
  arena_block_count :: size_t
  arena_capacity :: size_t
  arena_used :: size_t
  arena_allocation_count :: size_t
  arena_generation :: "64 word"

record ArenaMark =
  mark_arena :: "nat option"
  mark_block :: "nat option"
  mark_used :: size_t
  mark_allocation_count :: size_t
  mark_total_used :: size_t
  mark_total_allocations :: size_t
  mark_generation :: "64 word"

record ArenaStats =
  stats_block_count :: size_t
  stats_capacity :: size_t
  stats_used :: size_t
  stats_allocation_count :: size_t

type_synonym arena_ptr = "nat \<times> size_t"

type_synonym malloc_fn = "nat list \<Rightarrow> size_t \<Rightarrow> (nat \<times> char list) option"

definition malloc_spec :: "malloc_fn \<Rightarrow> bool" where
  "malloc_spec m \<longleftrightarrow>
     (\<forall>live n a d. m live n = Some (a, d) \<longrightarrow> a \<notin> set live \<and> length d = n)"

section \<open>The chain of blocks\<close>

definition chain_at :: "nat \<Rightarrow> ArenaBlock list \<Rightarrow> ArenaBlock option" where
  "chain_at a bs = List.find (\<lambda>b. block_addr b = a) bs"

fun chain_next :: "nat \<Rightarrow> ArenaBlock list \<Rightarrow> ArenaBlock option" where
  "chain_next a [] = None"
| "chain_next a (b # bs) =
     (if block_addr b = a then (case bs of [] \<Rightarrow> None | n # _ \<Rightarrow> Some n) else chain_next a bs)"

fun chain_insert_after :: "nat \<Rightarrow> ArenaBlock \<Rightarrow> ArenaBlock list \<Rightarrow> ArenaBlock list" where
  "chain_insert_after a new [] = []"
| "chain_insert_after a new (b # bs) =
     (if block_addr b = a then b # new # bs else b # chain_insert_after a new bs)"

fun chain_cut_after :: "nat \<Rightarrow> ArenaBlock list \<Rightarrow> ArenaBlock list" where
  "chain_cut_after a [] = []"
| "chain_cut_after a (b # bs) = (if block_addr b = a then [b] else b # chain_cut_after a bs)"

definition chain_update :: "nat \<Rightarrow> (ArenaBlock \<Rightarrow> ArenaBlock) \<Rightarrow> ArenaBlock list \<Rightarrow> ArenaBlock list" where
  "chain_update a f bs = map (\<lambda>b. if block_addr b = a then f b else b) bs"

section \<open>Operations\<close>

definition arena_alignment :: size_t where
  "arena_alignment = 16"

definition sizeof_ArenaBlock :: size_t where
  "sizeof_ArenaBlock = 80"

definition arena_align_up :: "size_t \<Rightarrow> size_t option" where
  "arena_align_up v =
     (let alignment = arena_alignment; remainder = v mod alignment
      in if remainder = 0 then Some v
         else let padding = alignment - remainder
              in if v > SIZE_MAX - padding then None else Some (v + padding))"

definition arena_required_capacity :: "size_t \<Rightarrow> size_t option" where
  "arena_required_capacity sz =
     (let alignment_padding = arena_alignment - 1
      in if sz > SIZE_MAX - alignment_padding then None else Some (sz + alignment_padding))"

definition arena_capacity_is_oversized :: "Arena \<Rightarrow> size_t \<Rightarrow> bool" where
  "arena_capacity_is_oversized A capacity =
     (if arena_default_block_size A > SIZE_MAX div 4 then False
      else let threshold = arena_default_block_size A * 4 in capacity > threshold)"

definition arena_block_create :: "malloc_fn \<Rightarrow> Arena \<Rightarrow> size_t \<Rightarrow> ArenaBlock option" where
  "arena_block_create m A capacity =
     (if capacity > SIZE_MAX - sizeof_ArenaBlock then None
      else case m (map block_addr (arena_blocks A)) (sizeof_ArenaBlock + capacity) of
        None \<Rightarrow> None
      | Some (a, d) \<Rightarrow>
          Some \<lparr>block_addr = a, block_capacity = capacity, block_used = 0,
                block_allocation_count = 0,
                block_oversized = arena_capacity_is_oversized A capacity,
                block_data = drop sizeof_ArenaBlock d\<rparr>)"

definition arena_block_can_allocate :: "ArenaBlock \<Rightarrow> size_t \<Rightarrow> bool" where
  "arena_block_can_allocate b sz =
     (case arena_align_up (block_used b) of
        None \<Rightarrow> False
      | Some aligned_used \<Rightarrow>
          \<not> (aligned_used > block_capacity b \<or> sz > block_capacity b - aligned_used))"

definition arena_add_block :: "malloc_fn \<Rightarrow> Arena \<Rightarrow> size_t \<Rightarrow> Arena option" where
  "arena_add_block m A sz =
     (case arena_required_capacity sz of
        None \<Rightarrow> None
      | Some required_capacity \<Rightarrow>
          (let capacity = (if arena_default_block_size A < required_capacity
                           then required_capacity else arena_default_block_size A)
           in if arena_block_count A = SIZE_MAX \<or> arena_capacity A > SIZE_MAX - capacity then None
              else case arena_block_create m A capacity of
                None \<Rightarrow> None
              | Some block \<Rightarrow>
                  Some (A\<lparr>arena_blocks :=
                            (case arena_current A of
                               None \<Rightarrow> [block]
                             | Some c \<Rightarrow> chain_insert_after c block (arena_blocks A)),
                          arena_current := Some (block_addr block),
                          arena_block_count := arena_block_count A + 1,
                          arena_capacity := arena_capacity A + capacity\<rparr>)))"

definition arena_zero :: Arena where
  "arena_zero = \<lparr>arena_blocks = [], arena_current = None, arena_default_block_size = 0,
     arena_block_count = 0, arena_capacity = 0, arena_used = 0, arena_allocation_count = 0,
     arena_generation = 0\<rparr>"

definition arena_init :: "Arena \<Rightarrow> size_t \<Rightarrow> bool \<times> Arena" where
  "arena_init A block_size =
     (if block_size = 0 then (False, A)
      else (True, arena_zero\<lparr>arena_default_block_size := block_size, arena_generation := 1\<rparr>))"

definition arena_current_block :: "Arena \<Rightarrow> ArenaBlock option" where
  "arena_current_block A =
     (case arena_current A of None \<Rightarrow> None | Some c \<Rightarrow> chain_at c (arena_blocks A))"

definition arena_block_for :: "malloc_fn \<Rightarrow> Arena \<Rightarrow> size_t \<Rightarrow> Arena option" where
  "arena_block_for m A sz =
     (case arena_current_block A of
        None \<Rightarrow> arena_add_block m A sz
      | Some block \<Rightarrow>
          if arena_block_can_allocate block sz then Some A
          else (case chain_next (block_addr block) (arena_blocks A) of
                  None \<Rightarrow> arena_add_block m A sz
                | Some nxt \<Rightarrow>
                    if arena_block_can_allocate nxt sz
                    then Some (A\<lparr>arena_current := Some (block_addr nxt)\<rparr>)
                    else arena_add_block m A sz))"

definition arena_alloc :: "malloc_fn \<Rightarrow> Arena \<Rightarrow> size_t \<Rightarrow> arena_ptr option \<times> Arena" where
  "arena_alloc m A sz =
     (if arena_default_block_size A = 0 \<or> sz = 0 then (None, A)
      else case arena_block_for m A sz of
        None \<Rightarrow> (None, A)
      | Some A' \<Rightarrow>
          (case arena_current_block A' of
             None \<Rightarrow> (None, A')
           | Some block \<Rightarrow>
               (let previous_used = block_used block
                in case arena_align_up previous_used of
                     None \<Rightarrow> (None, A')
                   | Some aligned_used \<Rightarrow>
                       if sz > sz_sub (block_capacity block) aligned_used then (None, A')
                       else (Some (block_addr block, aligned_used),
                             A'\<lparr>arena_blocks := chain_update (block_addr block)
                                  (\<lambda>b. b\<lparr>block_used := aligned_used + sz,
                                          block_allocation_count :=
                                            sz_add (block_allocation_count b) 1\<rparr>)
                                  (arena_blocks A'),
                                arena_used := sz_add (arena_used A')
                                                (sz_sub (aligned_used + sz) previous_used),
                                arena_allocation_count :=
                                  sz_add (arena_allocation_count A') 1\<rparr>))))"

text \<open>Reading and writing the memory behind a pointer into the arena.\<close>

definition arena_load :: "Arena \<Rightarrow> arena_ptr \<Rightarrow> size_t \<Rightarrow> char list" where
  "arena_load A p n =
     (case chain_at (fst p) (arena_blocks A) of
        None \<Rightarrow> [] | Some b \<Rightarrow> take n (drop (snd p) (block_data b)))"

definition arena_store :: "Arena \<Rightarrow> arena_ptr \<Rightarrow> char list \<Rightarrow> Arena" where
  "arena_store A p bytes =
     A\<lparr>arena_blocks := chain_update (fst p)
         (\<lambda>b. b\<lparr>block_data := take (snd p) (block_data b) @ bytes
                              @ drop (snd p + length bytes) (block_data b)\<rparr>)
         (arena_blocks A)\<rparr>"

definition arena_alloc_zero :: "malloc_fn \<Rightarrow> Arena \<Rightarrow> size_t \<Rightarrow> arena_ptr option \<times> Arena" where
  "arena_alloc_zero m A sz =
     (case arena_alloc m A sz of
        (None, A') \<Rightarrow> (None, A')
      | (Some p, A') \<Rightarrow> (Some p, arena_store A' p (replicate sz (CHR 0x00))))"

definition arena_alloc_array ::
    "malloc_fn \<Rightarrow> Arena \<Rightarrow> size_t \<Rightarrow> size_t \<Rightarrow> arena_ptr option \<times> Arena" where
  "arena_alloc_array m A count element_size =
     (if count \<noteq> 0 \<and> element_size > SIZE_MAX div count then (None, A)
      else arena_alloc m A (count * element_size))"

definition mark_zero :: ArenaMark where
  "mark_zero = \<lparr>mark_arena = None, mark_block = None, mark_used = 0,
     mark_allocation_count = 0, mark_total_used = 0, mark_total_allocations = 0,
     mark_generation = 0\<rparr>"

text \<open>\<open>self\<close> is the address of the arena object, which a mark remembers.\<close>

definition arena_mark :: "nat \<Rightarrow> Arena \<Rightarrow> ArenaMark" where
  "arena_mark self A =
     (if arena_default_block_size A = 0 then mark_zero
      else \<lparr>mark_arena = Some self, mark_block = arena_current A,
             mark_used = (case arena_current_block A of None \<Rightarrow> 0 | Some b \<Rightarrow> block_used b),
             mark_allocation_count =
               (case arena_current_block A of None \<Rightarrow> 0 | Some b \<Rightarrow> block_allocation_count b),
             mark_total_used = arena_used A,
             mark_total_allocations = arena_allocation_count A,
             mark_generation = arena_generation A\<rparr>)"

definition arena_reset_to_empty :: "Arena \<Rightarrow> Arena" where
  "arena_reset_to_empty A =
     A\<lparr>arena_blocks := [], arena_current := None, arena_block_count := 0,
        arena_capacity := 0, arena_used := 0, arena_allocation_count := 0\<rparr>"

fun arena_recount :: "ArenaBlock list \<Rightarrow> size_t \<Rightarrow> size_t \<Rightarrow> size_t \<times> size_t" where
  "arena_recount [] count capacity = (count, capacity)"
| "arena_recount (b # bs) count capacity =
     arena_recount bs (sz_add count 1) (sz_add capacity (block_capacity b))"

definition arena_restore :: "nat \<Rightarrow> Arena \<Rightarrow> ArenaMark \<Rightarrow> bool \<times> Arena" where
  "arena_restore self A mark =
     (if mark_arena mark \<noteq> Some self \<or> mark_generation mark \<noteq> arena_generation A then (False, A)
      else case mark_block mark of
        None \<Rightarrow>
          if mark_total_used mark \<noteq> 0 \<or> mark_total_allocations mark \<noteq> 0 then (False, A)
          else (True, arena_reset_to_empty A)
      | Some a \<Rightarrow>
          (case chain_at a (arena_blocks A) of
             None \<Rightarrow> (False, A)
           | Some block \<Rightarrow>
               if mark_used mark > block_used block
                  \<or> mark_allocation_count mark > block_allocation_count block
               then (False, A)
               else (let blocks = chain_update a
                           (\<lambda>b. b\<lparr>block_used := mark_used mark,
                                   block_allocation_count := mark_allocation_count mark\<rparr>)
                           (chain_cut_after a (arena_blocks A));
                         (count, capacity) = arena_recount blocks 0 0
                     in (True, A\<lparr>arena_blocks := blocks, arena_current := Some a,
                                  arena_used := mark_total_used mark,
                                  arena_allocation_count := mark_total_allocations mark,
                                  arena_block_count := count,
                                  arena_capacity := capacity\<rparr>))))"

fun arena_reset_walk ::
    "ArenaBlock list \<Rightarrow> size_t \<Rightarrow> size_t \<Rightarrow> ArenaBlock list \<times> size_t \<times> size_t" where
  "arena_reset_walk [] count capacity = ([], count, capacity)"
| "arena_reset_walk (b # bs) count capacity =
     (if block_oversized b
      then arena_reset_walk bs (sz_sub count 1) (sz_sub capacity (block_capacity b))
      else (let (retained, count', capacity') = arena_reset_walk bs count capacity
            in (b\<lparr>block_used := 0, block_allocation_count := 0\<rparr> # retained, count', capacity')))"

definition arena_reset :: "Arena \<Rightarrow> Arena" where
  "arena_reset A =
     (if arena_default_block_size A = 0 then A
      else (let (retained, count, capacity) =
                  arena_reset_walk (arena_blocks A) (arena_block_count A) (arena_capacity A);
                generation = arena_generation A + 1
            in A\<lparr>arena_blocks := retained,
                  arena_current := (case retained of [] \<Rightarrow> None | b # _ \<Rightarrow> Some (block_addr b)),
                  arena_block_count := count, arena_capacity := capacity,
                  arena_used := 0, arena_allocation_count := 0,
                  arena_generation := (if generation = 0 then 1 else generation)\<rparr>))"

definition arena_destroy :: "Arena \<Rightarrow> Arena" where
  "arena_destroy A = arena_zero"

definition arena_stats :: "Arena \<Rightarrow> ArenaStats" where
  "arena_stats A = \<lparr>stats_block_count = arena_block_count A, stats_capacity = arena_capacity A,
     stats_used = arena_used A, stats_allocation_count = arena_allocation_count A\<rparr>"


section \<open>Lemmas on the chain\<close>

abbreviation addrs :: "ArenaBlock list \<Rightarrow> nat set" where
  "addrs bs \<equiv> block_addr ` set bs"

lemma chain_at_split [simp]:
  "block_addr b \<notin> addrs pre \<Longrightarrow> chain_at (block_addr b) (pre @ b # post) = Some b"
  unfolding chain_at_def by (induction pre) auto

lemma chain_at_SomeD:
  "chain_at a bs = Some b \<Longrightarrow> \<exists>pre post. bs = pre @ b # post \<and> block_addr b = a \<and> a \<notin> addrs pre"
  unfolding chain_at_def
proof (induction bs)
  case (Cons x bs)
  show ?case
  proof (cases "block_addr x = a")
    case True
    with Cons.prems show ?thesis by (intro exI [of _ "[]"] exI [of _ bs]) auto
  next
    case False
    with Cons obtain pre post where "bs = pre @ b # post" "block_addr b = a" "a \<notin> addrs pre" by auto
    with False show ?thesis by (intro exI [of _ "x # pre"] exI [of _ post]) auto
  qed
qed simp

lemma chain_at_in_set: "chain_at a bs = Some b \<Longrightarrow> b \<in> set bs \<and> block_addr b = a"
  by (auto dest: chain_at_SomeD)

lemma chain_at_distinct:
  "distinct (map block_addr bs) \<Longrightarrow> b \<in> set bs \<Longrightarrow> chain_at (block_addr b) bs = Some b"
  unfolding chain_at_def by (induction bs) (auto simp: rev_image_eqI)

lemma same_addr_same_block:
  "distinct (map block_addr bs) \<Longrightarrow> x \<in> set bs \<Longrightarrow> y \<in> set bs \<Longrightarrow> block_addr x = block_addr y \<Longrightarrow> x = y"
  by (auto simp: distinct_map inj_on_def)

lemma chain_split_unique:
  assumes "distinct (map block_addr bs)" and "bs = pre @ b # post" and "bs = pre' @ b' # post'"
    and "block_addr b = block_addr b'"
  shows "pre' = pre \<and> b' = b \<and> post' = post"
proof -
  have "b = b'" using same_addr_same_block [OF assms(1), of b b'] assms(2-4) by (metis in_set_conv_decomp)
  moreover have "b \<notin> set pre" "b \<notin> set post" using assms(1,2) by auto
  ultimately show ?thesis using assms(2,3) append_Cons_eq_iff [of b pre post pre' post'] by auto
qed

lemma chain_next_split [simp]:
  "block_addr b \<notin> addrs pre \<Longrightarrow>
   chain_next (block_addr b) (pre @ b # post) = (case post of [] \<Rightarrow> None | n # _ \<Rightarrow> Some n)"
  by (induction pre) auto

lemma chain_insert_after_split [simp]:
  "block_addr b \<notin> addrs pre \<Longrightarrow>
   chain_insert_after (block_addr b) new (pre @ b # post) = pre @ b # new # post"
  by (induction pre) auto

lemma chain_cut_after_split [simp]:
  "block_addr b \<notin> addrs pre \<Longrightarrow> chain_cut_after (block_addr b) (pre @ b # post) = pre @ [b]"
  by (induction pre) auto

lemma chain_update_other [simp]: "a \<notin> addrs bs \<Longrightarrow> chain_update a f bs = bs"
  unfolding chain_update_def by (induction bs) auto

lemma chain_update_split [simp]:
  "block_addr b \<notin> addrs pre \<Longrightarrow> block_addr b \<notin> addrs post \<Longrightarrow>
   chain_update (block_addr b) f (pre @ b # post) = pre @ f b # post"
  using chain_update_other [of "block_addr b" pre f] chain_update_other [of "block_addr b" post f]
  by (simp add: chain_update_def)

lemma chain_at_update:
  assumes "\<And>b. block_addr (f b) = block_addr b"
  shows "chain_at c (chain_update a f bs) =
    (if c = a then map_option f (chain_at c bs) else chain_at c bs)"
  unfolding chain_at_def chain_update_def by (induction bs) (use assms in auto)

lemma addrs_update:
  assumes "\<And>b. block_addr (f b) = block_addr b"
  shows "map block_addr (chain_update a f bs) = map block_addr bs"
  unfolding chain_update_def using assms by (induction bs) auto

section \<open>The invariant\<close>

definition block_ok :: "Arena \<Rightarrow> ArenaBlock \<Rightarrow> bool" where
  "block_ok A b \<longleftrightarrow>
     block_used b \<le> block_capacity b \<and> block_allocation_count b \<le> block_used b \<and>
     length (block_data b) = block_capacity b \<and>
     arena_default_block_size A \<le> block_capacity b \<and>
     block_oversized b = arena_capacity_is_oversized A (block_capacity b)"

definition chain_totals :: "Arena \<Rightarrow> bool" where
  "chain_totals A \<longleftrightarrow>
     arena_block_count A = length (arena_blocks A) \<and>
     arena_capacity A = sum_list (map block_capacity (arena_blocks A)) \<and>
     arena_used A = sum_list (map block_used (arena_blocks A)) \<and>
     arena_allocation_count A = sum_list (map block_allocation_count (arena_blocks A))"

definition block_unused :: "ArenaBlock \<Rightarrow> bool" where
  "block_unused b \<longleftrightarrow> block_used b = 0 \<and> block_allocation_count b = 0"

definition current_ok :: "nat option \<Rightarrow> ArenaBlock list \<Rightarrow> bool" where
  "current_ok cur bs \<longleftrightarrow>
     (case cur of
        None \<Rightarrow> bs = []
      | Some c \<Rightarrow> \<exists>pre b post. bs = pre @ b # post \<and> block_addr b = c \<and>
                    (\<forall>x \<in> set post. block_unused x))"

definition arena_inv :: "Arena \<Rightarrow> bool" where
  "arena_inv A \<longleftrightarrow>
     0 < arena_default_block_size A \<and> distinct (map block_addr (arena_blocks A)) \<and>
     (\<forall>b \<in> set (arena_blocks A). block_ok A b) \<and> chain_totals A \<and>
     arena_capacity A \<le> SIZE_MAX \<and> current_ok (arena_current A) (arena_blocks A)"

lemma arena_invD:
  assumes "arena_inv A"
  shows "0 < arena_default_block_size A" "distinct (map block_addr (arena_blocks A))"
    "\<And>b. b \<in> set (arena_blocks A) \<Longrightarrow> block_ok A b" "chain_totals A" "arena_capacity A \<le> SIZE_MAX"
    "current_ok (arena_current A) (arena_blocks A)"
  using assms by (auto simp: arena_inv_def)

lemma arena_used_le_capacity: "arena_inv A \<Longrightarrow> arena_used A \<le> arena_capacity A"
  unfolding arena_inv_def chain_totals_def block_ok_def by (auto intro!: sum_list_mono)

lemma arena_allocations_le_used: "arena_inv A \<Longrightarrow> arena_allocation_count A \<le> arena_used A"
  unfolding arena_inv_def chain_totals_def block_ok_def by (auto intro!: sum_list_mono)

lemma block_capacity_le:
  assumes "arena_inv A" and "b \<in> set (arena_blocks A)"
  shows "block_capacity b \<le> SIZE_MAX"
proof -
  have "block_capacity b \<le> arena_capacity A"
    using assms sum_list_elem_le [of b "arena_blocks A" block_capacity]
    by (simp add: arena_inv_def chain_totals_def)
  with arena_invD(5) [OF assms(1)] show ?thesis by simp
qed

section \<open>Arithmetic of alignment\<close>

lemma arena_align_up_spec:
  "arena_align_up v = Some w \<Longrightarrow> w mod 16 = 0 \<and> v \<le> w \<and> w < v + 16"
proof -
  assume *: "arena_align_up v = Some w"
  show ?thesis
  proof (cases "v mod 16 = 0")
    case True
    with * show ?thesis by (simp add: arena_align_up_def arena_alignment_def Let_def)
  next
    case False
    with * have w: "w = v + (16 - v mod 16)"
      by (simp add: arena_align_up_def arena_alignment_def Let_def split: if_splits)
    have "v mod 16 < 16" by simp
    with w False show ?thesis by presburger
  qed
qed

lemma arena_align_up_0 [simp]: "arena_align_up 0 = Some 0"
  by (simp add: arena_align_up_def arena_alignment_def)

lemma arena_can_allocate_spec:
  "arena_block_can_allocate b sz \<Longrightarrow>
   \<exists>off. arena_align_up (block_used b) = Some off \<and> off + sz \<le> block_capacity b"
  by (auto simp: arena_block_can_allocate_def split: option.splits)

lemma arena_can_allocate_unused:
  "block_unused b \<Longrightarrow> sz \<le> block_capacity b \<Longrightarrow> arena_block_can_allocate b sz"
  by (simp add: arena_block_can_allocate_def block_unused_def)


section \<open>Growth: what allocation does to the blocks that exist\<close>

text \<open>
  \<open>block_later b b'\<close>: the same block, filled further. \<open>arena_grows A A'\<close>: every block is still
  there, filled further at most, and the blocks before the current one are not touched at all.
\<close>

definition block_later :: "ArenaBlock \<Rightarrow> ArenaBlock \<Rightarrow> bool" where
  "block_later b b' \<longleftrightarrow>
     block_addr b' = block_addr b \<and> block_capacity b' = block_capacity b \<and>
     block_oversized b' = block_oversized b \<and> block_data b' = block_data b \<and>
     block_used b \<le> block_used b' \<and> block_allocation_count b \<le> block_allocation_count b'"

definition not_passed :: "nat option \<Rightarrow> ArenaBlock list \<Rightarrow> bool" where
  "not_passed cur p \<longleftrightarrow> cur \<notin> Some ` addrs p"

definition arena_grows :: "Arena \<Rightarrow> Arena \<Rightarrow> bool" where
  "arena_grows A A' \<longleftrightarrow>
     arena_default_block_size A' = arena_default_block_size A \<and>
     arena_generation A' = arena_generation A \<and>
     (\<forall>b \<in> set (arena_blocks A). \<exists>b' \<in> set (arena_blocks A'). block_later b b') \<and>
     (\<forall>p x q. arena_blocks A = p @ x # q \<and> not_passed (arena_current A) p \<longrightarrow>
        (\<exists>x' q'. arena_blocks A' = p @ x' # q' \<and> block_later x x' \<and> not_passed (arena_current A') p))"

lemma block_later_refl [simp]: "block_later b b"
  by (simp add: block_later_def)

lemma block_later_refl_ball: "set post \<subseteq> B \<Longrightarrow> \<forall>x \<in> set post. \<exists>x' \<in> B. block_later x x'"
  using block_later_refl by blast

lemma block_later_trans: "block_later a b \<Longrightarrow> block_later b c \<Longrightarrow> block_later a c"
  unfolding block_later_def by auto

lemma arena_grows_refl [simp]: "arena_grows A A"
  unfolding arena_grows_def using block_later_refl by blast

lemma arena_grows_trans:
  assumes "arena_grows A B" and "arena_grows B C"
  shows "arena_grows A C"
  using assms unfolding arena_grows_def
  by (metis (no_types, lifting) block_later_trans)

text \<open>The chain around the current block, and the four ways a block is found for an allocation.\<close>

lemma current_okE:
  assumes "arena_inv A" and "arena_current A = Some c"
  obtains pre b post where "arena_blocks A = pre @ b # post" "block_addr b = c"
    "\<forall>x \<in> set post. block_unused x" "c \<notin> addrs pre" "c \<notin> addrs post"
    "arena_current_block A = Some b"
proof -
  from arena_invD(6) [OF assms(1)] assms(2) obtain pre b post
    where s: "arena_blocks A = pre @ b # post" "block_addr b = c" "\<forall>x \<in> set post. block_unused x"
    by (auto simp: current_ok_def)
  moreover from arena_invD(2) [OF assms(1)] s have n: "c \<notin> addrs pre" "c \<notin> addrs post" by auto
  moreover have "arena_current_block A = Some b"
    using s n assms(2) chain_at_split [of b pre post] by (simp add: arena_current_block_def)
  ultimately show ?thesis using that by blast
qed

lemma arena_current_None: "arena_inv A \<Longrightarrow> arena_current A = None \<Longrightarrow> arena_blocks A = []"
  by (auto dest!: arena_invD(6) simp: current_ok_def)

lemma arena_block_create_spec:
  assumes "malloc_spec m" and "0 < arena_default_block_size A"
    and "arena_block_create m A cap = Some b" and "arena_default_block_size A \<le> cap"
  shows "block_addr b \<notin> addrs (arena_blocks A)" "block_ok A b" "block_unused b" "block_capacity b = cap"
proof -
  from assms(3) obtain d where d: "m (map block_addr (arena_blocks A)) (sizeof_ArenaBlock + cap) = Some (block_addr b, d)"
    and b: "b = \<lparr>block_addr = block_addr b, block_capacity = cap, block_used = 0,
      block_allocation_count = 0, block_oversized = arena_capacity_is_oversized A cap,
      block_data = drop sizeof_ArenaBlock d\<rparr>"
    by (auto simp: arena_block_create_def split: if_splits option.splits)
  from assms(1) d have m: "block_addr b \<notin> set (map block_addr (arena_blocks A))"
    "length d = sizeof_ArenaBlock + cap"
    unfolding malloc_spec_def by blast+
  show "block_addr b \<notin> addrs (arena_blocks A)" using m(1) by simp
  show "block_ok A b" "block_unused b" "block_capacity b = cap"
    by (subst b, use m(2) assms(4) in \<open>simp add: block_ok_def block_unused_def\<close>)+
qed

lemma arena_add_block_spec:
  assumes inv: "arena_inv A" and m: "malloc_spec m" and add: "arena_add_block m A sz = Some A'"
  obtains b cap where "block_addr b \<notin> addrs (arena_blocks A)" "block_ok A b" "block_unused b"
    "block_capacity b = cap" "sz \<le> cap" "arena_capacity A + cap \<le> SIZE_MAX"
    "A' = A\<lparr>arena_blocks := (case arena_current A of None \<Rightarrow> [b]
               | Some c \<Rightarrow> chain_insert_after c b (arena_blocks A)),
             arena_current := Some (block_addr b),
             arena_block_count := arena_block_count A + 1,
             arena_capacity := arena_capacity A + cap\<rparr>"
proof -
  from add obtain req where req: "arena_required_capacity sz = Some req"
    by (auto simp: arena_add_block_def split: option.splits)
  define cap where "cap = (if arena_default_block_size A < req then req else arena_default_block_size A)"
  from add req obtain b where b: "arena_block_create m A cap = Some b"
    and le: "arena_capacity A \<le> SIZE_MAX - cap" and A': "A' = A\<lparr>arena_blocks := (case arena_current A of None \<Rightarrow> [b]
               | Some c \<Rightarrow> chain_insert_after c b (arena_blocks A)),
             arena_current := Some (block_addr b),
             arena_block_count := arena_block_count A + 1,
             arena_capacity := arena_capacity A + cap\<rparr>"
    by (auto simp: arena_add_block_def Let_def cap_def split: option.splits if_splits)
  have "sz \<le> req"
    using req by (auto simp: arena_required_capacity_def arena_alignment_def Let_def split: if_splits)
  then have szc: "sz \<le> cap" by (auto simp: cap_def)
  have capm: "cap \<le> SIZE_MAX"
    using b by (auto simp: arena_block_create_def split: if_splits)
  have "arena_default_block_size A \<le> cap" by (auto simp: cap_def)
  note spec = arena_block_create_spec [OF m arena_invD(1) [OF inv] b this]
  from le capm have "arena_capacity A + cap \<le> SIZE_MAX" by simp
  with spec szc A' that show ?thesis by blast
qed


lemma block_ok_cong:
  "arena_default_block_size A' = arena_default_block_size A \<Longrightarrow> block_ok A' b = block_ok A b"
  by (simp add: block_ok_def arena_capacity_is_oversized_def)

lemma current_ok_split:
  "\<forall>x \<in> set post. block_unused x \<Longrightarrow> current_ok (Some (block_addr b)) (pre @ b # post)"
  unfolding current_ok_def by (simp, intro exI conjI, rule refl, rule refl, assumption)

lemma arena_grows_at_current:
  assumes "arena_blocks A = pre @ b # post" and "arena_current A = Some (block_addr b)"
    and "arena_blocks A' = pre @ b' # post'" and "block_later b b'"
    and "\<forall>x \<in> set post. \<exists>x' \<in> set post'. block_later x x'"
    and "not_passed (arena_current A') pre"
    and "arena_default_block_size A' = arena_default_block_size A"
    and "arena_generation A' = arena_generation A"
  shows "arena_grows A A'"
  unfolding arena_grows_def
proof (intro conjI allI impI)
  show "\<forall>x \<in> set (arena_blocks A). \<exists>x' \<in> set (arena_blocks A'). block_later x x'"
  proof
    fix x
    assume "x \<in> set (arena_blocks A)"
    then consider "x \<in> set pre" | "x = b" | "x \<in> set post" using assms(1) by auto
    then show "\<exists>x' \<in> set (arena_blocks A'). block_later x x'"
    proof cases
      case 1
      then have "x \<in> set (arena_blocks A')" using assms(3) by simp
      then show ?thesis using block_later_refl by blast
    next
      case 2
      with assms(3,4) show ?thesis by auto
    next
      case 3
      with assms(5) obtain x' where "x' \<in> set post'" "block_later x x'" by blast
      with assms(3) show ?thesis by auto
    qed
  qed
  fix p x q
  assume *: "arena_blocks A = p @ x # q \<and> not_passed (arena_current A) p"
  then have "b \<notin> set p" using assms(2) by (auto simp: not_passed_def)
  with * assms(1) split_align [of pre b post p x q]
  consider "p = pre" "x = b" | r where "pre = p @ x # r" by auto
  then show "\<exists>x' q'. arena_blocks A' = p @ x' # q' \<and> block_later x x' \<and> not_passed (arena_current A') p"
  proof cases
    case 1
    with assms show ?thesis by auto
  next
    case 2
    with assms(3,6) show ?thesis
      by (intro exI [of _ x] exI [of _ "r @ b' # post'"]) (auto simp: not_passed_def)
  qed
qed (use assms in auto)

text \<open>A new block is linked in after the current one and becomes the current one.\<close>

lemma arena_add_block_inv:
  assumes inv: "arena_inv A" and m: "malloc_spec m" and add: "arena_add_block m A sz = Some A'"
  obtains pre b post where "arena_blocks A' = pre @ b # post" "arena_current A' = Some (block_addr b)"
    "arena_block_can_allocate b sz" "arena_inv A'" "arena_grows A A'"
    "arena_used A' = arena_used A" "arena_allocation_count A' = arena_allocation_count A"
proof -
  obtain b cap where fresh: "block_addr b \<notin> addrs (arena_blocks A)" and b: "block_ok A b" "block_unused b"
    "block_capacity b = cap" "sz \<le> cap" "arena_capacity A + cap \<le> SIZE_MAX" and
    A': "A' = A\<lparr>arena_blocks := (case arena_current A of None \<Rightarrow> [b]
               | Some c \<Rightarrow> chain_insert_after c b (arena_blocks A)),
             arena_current := Some (block_addr b),
             arena_block_count := arena_block_count A + 1,
             arena_capacity := arena_capacity A + cap\<rparr>"
    using arena_add_block_spec [OF assms] by metis
  note can = arena_can_allocate_unused [OF b(2), of sz, unfolded b(3), OF b(4)]
  have ok: "block_ok A' x = block_ok A x" for x by (rule block_ok_cong) (simp add: A')
  note invD = arena_invD [OF inv]
  show ?thesis
  proof (cases "arena_current A")
    case None
    with arena_current_None [OF inv] have e: "arena_blocks A = []" by simp
    have bl: "arena_blocks A' = [] @ b # []" using None by (simp add: A')
    have "arena_inv A'"
      using invD(1,4) b e None ok [of b] current_ok_split [of "[]" b "[]"] unfolding arena_inv_def
      by (auto simp: A' chain_totals_def block_unused_def)
    moreover have "arena_grows A A'" using e by (simp add: arena_grows_def A')
    ultimately show ?thesis using that [OF bl] can by (simp add: A')
  next
    case (Some c)
    obtain pre x post where s: "arena_blocks A = pre @ x # post" "block_addr x = c"
      "\<forall>y \<in> set post. block_unused y" "c \<notin> addrs pre" "c \<notin> addrs post"
      by (rule current_okE [OF inv Some])
    have bl: "arena_blocks A' = pre @ x # b # post"
      using Some s chain_insert_after_split [of x pre b post] by (simp add: A')
    have "arena_inv A'"
      using invD(1-5) b(1-3,5) fresh s(1,3) ok current_ok_split [of post b "pre @ [x]"] unfolding arena_inv_def
      by (auto simp: bl chain_totals_def block_unused_def) (auto simp: A')
    moreover have "arena_grows A A'"
      by (rule arena_grows_at_current [of A pre x post A' x "b # post", OF _ _ _ _ block_later_refl_ball])
        (use s Some bl fresh in \<open>auto simp: A' not_passed_def\<close>)
    ultimately show ?thesis using that [of "pre @ [x]" b post] bl can by (simp add: A')
  qed
qed

lemma arena_block_for_inv:
  assumes inv: "arena_inv A" and m: "malloc_spec m" and bf: "arena_block_for m A sz = Some A'"
  obtains b where "arena_current_block A' = Some b" "arena_current A' = Some (block_addr b)"
    "arena_block_can_allocate b sz" "arena_inv A'" "arena_grows A A'"
    "arena_used A' = arena_used A" "arena_allocation_count A' = arena_allocation_count A"
proof -
  note result = that
  have added: thesis if add: "arena_add_block m A sz = Some A'"
  proof -
    obtain pre b post where h: "arena_blocks A' = pre @ b # post" "arena_current A' = Some (block_addr b)"
      "arena_block_can_allocate b sz" "arena_inv A'" "arena_grows A A'"
      "arena_used A' = arena_used A" "arena_allocation_count A' = arena_allocation_count A"
      by (rule arena_add_block_inv [OF inv m add])
    have "block_addr b \<notin> addrs pre" using arena_invD(2) [OF h(4)] h(1) by auto
    then have "arena_current_block A' = Some b" using h(1,2) by (simp add: arena_current_block_def)
    with h result show thesis by blast
  qed
  show thesis
  proof (cases "arena_current A")
    case None
    with bf have "arena_add_block m A sz = Some A'"
      by (simp add: arena_block_for_def arena_current_block_def)
    then show thesis by (rule added)
  next
    case (Some c)
    obtain pre b post where s: "arena_blocks A = pre @ b # post" "block_addr b = c"
      "\<forall>x \<in> set post. block_unused x" "c \<notin> addrs pre" "c \<notin> addrs post" "arena_current_block A = Some b"
      by (rule current_okE [OF inv Some])
    consider (here) "arena_block_can_allocate b sz" "A' = A" | (add) "arena_add_block m A sz = Some A'"
      | (nxt) n rest where "post = n # rest" "arena_block_can_allocate n sz"
          "A' = A\<lparr>arena_current := Some (block_addr n)\<rparr>"
    proof -
      have nx: "chain_next (block_addr b) (arena_blocks A) = (case post of [] \<Rightarrow> None | n # _ \<Rightarrow> Some n)"
        using chain_next_split [of b pre post] s(1,2,4) by simp
      show ?thesis
      proof (cases post)
        case Nil
        with nx bf have "arena_block_can_allocate b sz \<and> A' = A \<or> arena_add_block m A sz = Some A'"
          by (simp add: arena_block_for_def s(6) split: if_splits)
        with that(1,2) show ?thesis by blast
      next
        case (Cons n rest)
        with nx bf have "arena_block_can_allocate b sz \<and> A' = A \<or> arena_add_block m A sz = Some A'
            \<or> arena_block_can_allocate n sz \<and> A' = A\<lparr>arena_current := Some (block_addr n)\<rparr>"
          by (simp add: arena_block_for_def s(6) split: if_splits)
        with that(1,2) that(3) [OF Cons] show ?thesis by blast
      qed
    qed
    then show thesis
    proof cases
      case here
      show thesis by (rule result [of b]) (use s(2,6) Some inv here in simp_all)
    next
      case add
      then show thesis by (rule added)
    next
      case nxt
      have d: "block_addr n \<notin> addrs (pre @ [b])" using arena_invD(2) [OF inv] s(1) nxt(1) by auto
      have bl: "arena_blocks A' = (pre @ [b]) @ n # rest" using nxt s by simp
      have "arena_inv A'"
        using inv s(3) nxt(1) current_ok_split [of rest n "pre @ [b]"] block_ok_cong [of A' A]
        unfolding arena_inv_def chain_totals_def by (simp add: nxt(3) s(1))
      moreover have "arena_grows A A'"
        by (rule arena_grows_at_current [of A pre b post A' b post, OF _ _ _ _ block_later_refl_ball])
          (use s Some d nxt in \<open>auto simp: not_passed_def\<close>)
      moreover have "arena_current_block A' = Some n"
        using bl d chain_at_split [of n "pre @ [b]" rest] by (simp add: arena_current_block_def nxt(3) s(1))
      ultimately show thesis using result [of n] nxt(2,3) by simp
    qed
  qed
qed


section \<open>Allocation\<close>

text \<open>
  Once a block is found the allocation succeeds: its block is filled up to the end of the new
  region and nothing else changes.
\<close>

lemma arena_alloc_cases:
  assumes inv: "arena_inv A" and m: "malloc_spec m" and al: "arena_alloc m A sz = (r, A')"
  obtains (null) "r = None" "A' = A" "sz = 0 \<or> arena_block_for m A sz = None"
  | (alloc) A1 pre b post off b' where
      "arena_block_for m A sz = Some A1" "arena_grows A A1" "arena_inv A1"
      "arena_blocks A1 = pre @ b # post" "\<forall>x \<in> set post. block_unused x"
      "arena_align_up (block_used b) = Some off" "off + sz \<le> block_capacity b" "0 < sz"
      "arena_used A1 = arena_used A" "arena_allocation_count A1 = arena_allocation_count A"
      "arena_current A1 = Some (block_addr b)"
      "r = Some (block_addr b, off)"
      "b' = b\<lparr>block_used := off + sz, block_allocation_count := block_allocation_count b + 1\<rparr>"
      "A' = A1\<lparr>arena_blocks := pre @ b' # post,
               arena_used := arena_used A + (off + sz - block_used b),
               arena_allocation_count := arena_allocation_count A + 1\<rparr>"
proof (cases "sz = 0 \<or> arena_block_for m A sz = None")
  case True
  with al have "r = None \<and> A' = A" by (auto simp: arena_alloc_def split: if_splits)
  with True null show thesis by blast
next
  case False
  then obtain A1 where bf: "arena_block_for m A sz = Some A1" and sz: "0 < sz" by auto
  obtain b where b: "arena_current_block A1 = Some b" "arena_current A1 = Some (block_addr b)"
      "arena_block_can_allocate b sz" "arena_inv A1" "arena_grows A A1"
      "arena_used A1 = arena_used A" "arena_allocation_count A1 = arena_allocation_count A"
    by (rule arena_block_for_inv [OF inv m bf])
  obtain pre x post where s: "arena_blocks A1 = pre @ x # post" "block_addr x = block_addr b"
      "\<forall>y \<in> set post. block_unused y" "block_addr b \<notin> addrs pre" "block_addr b \<notin> addrs post"
      "arena_current_block A1 = Some x"
    by (rule current_okE [OF b(4,2)])
  have x: "x = b" using s(6) b(1) by simp
  have bin: "b \<in> set (arena_blocks A1)" using s(1) x by simp
  note ok = arena_invD(3) [OF b(4) bin, unfolded block_ok_def]
  obtain off where off: "arena_align_up (block_used b) = Some off" "off + sz \<le> block_capacity b"
    using arena_can_allocate_spec [OF b(3)] by auto
  note al_off = arena_align_up_spec [OF off(1)]
  have cap: "block_capacity b \<le> SIZE_MAX" by (rule block_capacity_le [OF b(4) bin])
  have used: "arena_used A + (off + sz - block_used b) \<le> arena_capacity A1"
  proof -
    have "sum_list (map block_used pre) \<le> sum_list (map block_capacity pre)"
      "sum_list (map block_used post) \<le> sum_list (map block_capacity post)"
      using arena_invD(3) [OF b(4)] s(1) by (auto intro!: sum_list_mono simp: block_ok_def)
    then show ?thesis
      using arena_invD(4) [OF b(4)] b(6) s(1) x off(2) ok al_off by (simp add: chain_totals_def)
  qed
  define b' where "b' = b\<lparr>block_used := off + sz, block_allocation_count := block_allocation_count b + 1\<rparr>"
  have count: "block_allocation_count b + 1 \<le> SIZE_MAX"
    "arena_allocation_count A + 1 \<le> SIZE_MAX"
    using ok off(2) sz cap al_off used arena_invD(5) [OF b(4)] arena_allocations_le_used [OF inv]
    by auto
  have upd: "chain_update (block_addr b)
       (\<lambda>b. b\<lparr>block_used := off + sz, block_allocation_count := sz_add (block_allocation_count b) 1\<rparr>)
       (arena_blocks A1) = pre @ b' # post"
    using s x chain_update_split [of b pre post] sz_add_exact [OF count(1)] by (simp add: b'_def)
  have subs: "sz_sub (block_capacity b) off = block_capacity b - off"
    "sz_sub (off + sz) (block_used b) = off + sz - block_used b"
    by (rule sz_sub_exact; use off(2) cap al_off in simp)+
  have A': "r = Some (block_addr b, off)" "A' = A1\<lparr>arena_blocks := pre @ b' # post,
               arena_used := arena_used A + (off + sz - block_used b),
               arena_allocation_count := arena_allocation_count A + 1\<rparr>"
  proof -
    have "sz_add (arena_used A1) (sz_sub (off + sz) (block_used b)) = arena_used A + (off + sz - block_used b)"
      "sz_add (arena_allocation_count A1) 1 = arena_allocation_count A + 1"
      using used arena_invD(5) [OF b(4)] count(2) subs(2) by (simp_all add: b(6,7) sz_add_exact)
    moreover have "\<not> block_capacity b - off < sz" using off(2) by simp
    moreover have "arena_default_block_size A \<noteq> 0" "sz \<noteq> 0" using arena_invD(1) [OF inv] sz by auto
    ultimately have "(r, A') = (Some (block_addr b, off), A1\<lparr>arena_blocks := pre @ b' # post,
               arena_used := arena_used A + (off + sz - block_used b),
               arena_allocation_count := arena_allocation_count A + 1\<rparr>)"
      using al bf b(1) off(1) upd subs(1) by (simp add: arena_alloc_def Let_def del: One_nat_def)
    then show "r = Some (block_addr b, off)" "A' = A1\<lparr>arena_blocks := pre @ b' # post,
               arena_used := arena_used A + (off + sz - block_used b),
               arena_allocation_count := arena_allocation_count A + 1\<rparr>" by auto
  qed
  show thesis
    by (rule alloc [OF bf b(5) b(4) _ s(3) off sz b(6,7) b(2) A'(1) b'_def A'(2)]) (use s(1) x in simp)
qed

lemma arena_alloc_inv:
  assumes inv: "arena_inv A" and m: "malloc_spec m" and al: "arena_alloc m A sz = (r, A')"
  shows "arena_inv A'" and "arena_grows A A'"
proof -
  have "arena_inv A' \<and> arena_grows A A'"
    using inv m al
  proof (cases rule: arena_alloc_cases)
    case null
    with inv show ?thesis by simp
  next
    case (alloc A1 pre b post off b')
    have al_off: "off mod 16 = 0 \<and> block_used b \<le> off" using arena_align_up_spec [OF alloc(6)] by simp
    have later: "block_later b b'" using al_off alloc(7,13) by (auto simp: block_later_def)
    have "arena_grows A1 A'"
      by (rule arena_grows_at_current [OF alloc(4,11) _ later block_later_refl_ball])
        (use alloc(4,11,14) arena_invD(2) [OF alloc(3)] in \<open>auto simp: not_passed_def\<close>)
    with alloc(2) have g: "arena_grows A A'" by (rule arena_grows_trans)
    have ok: "block_ok A' x = block_ok A1 x" for x by (rule block_ok_cong) (simp add: alloc(14))
    have tot: "chain_totals A'"
      using arena_invD(4) [OF alloc(3)] alloc(4,9,10) al_off alloc(8) unfolding chain_totals_def
      by (simp add: alloc(13,14))
    have "block_ok A1 b" using arena_invD(3) [OF alloc(3)] alloc(4) by simp
    then have "block_ok A1 b'" using al_off alloc(7,8) by (auto simp: alloc(13) block_ok_def)
    then have "arena_inv A'"
      using arena_invD [OF alloc(3)] alloc(4,5,11) tot ok current_ok_split [OF alloc(5), of b' pre]
      unfolding arena_inv_def by (simp add: alloc(13,14))
    with g show ?thesis by simp
  qed
  then show "arena_inv A'" "arena_grows A A'" by auto
qed


section \<open>Regions\<close>

type_synonym region = "arena_ptr \<times> size_t"

definition region_in :: "Arena \<Rightarrow> region \<Rightarrow> bool" where
  "region_in A r \<longleftrightarrow> 0 < snd r \<and> snd (fst r) mod arena_alignment = 0 \<and>
     (\<exists>b \<in> set (arena_blocks A). block_addr b = fst (fst r) \<and> snd (fst r) + snd r \<le> block_used b)"

definition regions_disjoint :: "region \<Rightarrow> region \<Rightarrow> bool" where
  "regions_disjoint r q \<longleftrightarrow> fst (fst r) \<noteq> fst (fst q) \<or>
     snd (fst r) + snd r \<le> snd (fst q) \<or> snd (fst q) + snd q \<le> snd (fst r)"

definition live_ok :: "Arena \<Rightarrow> region list \<Rightarrow> bool" where
  "live_ok A L \<longleftrightarrow> (\<forall>r \<in> set L. region_in A r) \<and> sorted_wrt regions_disjoint L"

lemma region_in_grows: "arena_grows A A' \<Longrightarrow> region_in A r \<Longrightarrow> region_in A' r"
  unfolding arena_grows_def region_in_def block_later_def by (metis order_trans)

lemma live_ok_grows: "arena_grows A A' \<Longrightarrow> live_ok A L \<Longrightarrow> live_ok A' L"
  unfolding live_ok_def using region_in_grows by blast

lemma arena_alloc_region:
  assumes inv: "arena_inv A" and m: "malloc_spec m" and al: "arena_alloc m A sz = (Some (a, off), A')"
  shows "region_in A' ((a, off), sz)"
    and "\<And>b. b \<in> set (arena_blocks A) \<Longrightarrow> block_addr b = a \<Longrightarrow> block_used b \<le> off"
    and "arena_used A \<le> arena_used A'" and "arena_allocation_count A' = arena_allocation_count A + 1"
proof -
  have "region_in A' ((a, off), sz) \<and> (\<forall>b \<in> set (arena_blocks A). block_addr b = a \<longrightarrow> block_used b \<le> off)
     \<and> arena_used A \<le> arena_used A' \<and> arena_allocation_count A' = arena_allocation_count A + 1"
    using inv m al
  proof (cases rule: arena_alloc_cases)
    case null
    then show ?thesis by simp
  next
    case (alloc A1 pre b post off' b')
    have eq: "a = block_addr b" "off' = off" using alloc(12) by auto
    have al_off: "off mod 16 = 0 \<and> block_used b \<le> off" using arena_align_up_spec [OF alloc(6)] eq by simp
    have "region_in A' ((a, off), sz)"
      using al_off alloc(8) eq by (simp add: region_in_def alloc(13,14) arena_alignment_def)
    moreover have "block_used x \<le> off" if x: "x \<in> set (arena_blocks A)" "block_addr x = a" for x
    proof -
      from alloc(2) x(1) obtain y where y: "y \<in> set (arena_blocks A1)" "block_later x y"
        unfolding arena_grows_def by blast
      then have "y = b"
        by (intro same_addr_same_block [OF arena_invD(2) [OF alloc(3)]])
          (use alloc(4) x(2) eq in \<open>auto simp: block_later_def\<close>)
      with y(2) al_off show ?thesis by (simp add: block_later_def)
    qed
    ultimately show ?thesis by (simp add: alloc(14))
  qed
  then show "region_in A' ((a, off), sz)"
    "\<And>b. b \<in> set (arena_blocks A) \<Longrightarrow> block_addr b = a \<Longrightarrow> block_used b \<le> off"
    "arena_used A \<le> arena_used A'" "arena_allocation_count A' = arena_allocation_count A + 1" by auto
qed

lemma arena_alloc_live:
  assumes inv: "arena_inv A" and m: "malloc_spec m" and al: "arena_alloc m A sz = (Some p, A')"
    and live: "live_ok A L"
  shows "live_ok A' ((p, sz) # L)"
proof -
  obtain a off where p: "p = (a, off)" by (cases p)
  note reg = arena_alloc_region [OF inv m al [unfolded p]]
  have "regions_disjoint (p, sz) r" if r: "r \<in> set L" for r
  proof -
    from live r obtain b where b: "b \<in> set (arena_blocks A)" "block_addr b = fst (fst r)"
      "snd (fst r) + snd r \<le> block_used b" by (auto simp: live_ok_def region_in_def)
    show ?thesis using b(3) reg(2) [OF b(1)] b(2) p by (auto simp: regions_disjoint_def)
  qed
  with reg(1) live_ok_grows [OF arena_alloc_inv(2) [OF inv m al] live] p show ?thesis
    by (simp add: live_ok_def)
qed

section \<open>Marks\<close>

definition mark_ok :: "nat \<Rightarrow> Arena \<Rightarrow> ArenaMark \<Rightarrow> bool" where
  "mark_ok self A mk \<longleftrightarrow>
     mark_arena mk = Some self \<and> mark_generation mk = arena_generation A \<and>
     (case mark_block mk of
        None \<Rightarrow> mark_total_used mk = 0 \<and> mark_total_allocations mk = 0
      | Some a \<Rightarrow> \<exists>pre b post. arena_blocks A = pre @ b # post \<and> block_addr b = a \<and>
          not_passed (arena_current A) pre \<and>
          mark_used mk \<le> block_used b \<and> mark_allocation_count mk \<le> block_allocation_count b \<and>
          mark_allocation_count mk \<le> mark_used mk \<and>
          mark_total_used mk = sum_list (map block_used pre) + mark_used mk \<and>
          mark_total_allocations mk =
            sum_list (map block_allocation_count pre) + mark_allocation_count mk)"

lemma arena_recount_exact:
  "n + length bs \<le> SIZE_MAX \<Longrightarrow> c + sum_list (map block_capacity bs) \<le> SIZE_MAX \<Longrightarrow>
   arena_recount bs n c = (n + length bs, c + sum_list (map block_capacity bs))"
  by (induction bs arbitrary: n c) (auto simp: sz_add_exact)

lemma block_count_le:
  assumes "arena_inv A"
  shows "length (arena_blocks A) \<le> sum_list (map block_capacity (arena_blocks A))"
proof -
  have "sum_list (map (\<lambda>_. 1) (arena_blocks A)) \<le> sum_list (map block_capacity (arena_blocks A))"
    using arena_invD(1,3) [OF assms] by (intro sum_list_mono) (force simp: block_ok_def)
  then show ?thesis by (simp add: sum_list_triv)
qed

lemma mark_ok_grows:
  assumes "mark_ok self A mk" and "arena_grows A A'"
  shows "mark_ok self A' mk"
proof (cases "mark_block mk")
  case None
  with assms show ?thesis by (simp add: mark_ok_def arena_grows_def)
next
  case (Some a)
  with assms(1) obtain pre b post where s: "arena_blocks A = pre @ b # post" "block_addr b = a"
    "not_passed (arena_current A) pre" "mark_used mk \<le> block_used b"
    "mark_allocation_count mk \<le> block_allocation_count b"
    "mark_allocation_count mk \<le> mark_used mk"
    "mark_total_used mk = sum_list (map block_used pre) + mark_used mk"
    "mark_total_allocations mk = sum_list (map block_allocation_count pre) + mark_allocation_count mk"
    by (auto simp: mark_ok_def)
  with assms(2) obtain b' post' where s': "arena_blocks A' = pre @ b' # post'" "block_later b b'"
    "not_passed (arena_current A') pre" unfolding arena_grows_def by blast
  have "mark_arena mk = Some self" "mark_generation mk = arena_generation A'"
    using assms by (simp_all add: mark_ok_def arena_grows_def)
  moreover have "block_addr b' = a" "mark_used mk \<le> block_used b'"
    "mark_allocation_count mk \<le> block_allocation_count b'"
    using s s'(2) by (auto simp: block_later_def)
  ultimately show ?thesis unfolding mark_ok_def using Some s(6-8) s'(1,3) by auto
qed

text \<open>The state that a valid mark restores.\<close>

lemma arena_restore_None:
  "mark_ok self A mk \<Longrightarrow> mark_block mk = None \<Longrightarrow>
   arena_restore self A mk = (True, arena_reset_to_empty A)"
  by (simp add: mark_ok_def arena_restore_def)

lemma arena_restore_Some:
  assumes inv: "arena_inv A" and ok: "mark_ok self A mk" and a: "mark_block mk = Some a"
  obtains pre b post b' where "arena_blocks A = pre @ b # post" "block_addr b = a"
    "not_passed (arena_current A) pre"
    "b' = b\<lparr>block_used := mark_used mk, block_allocation_count := mark_allocation_count mk\<rparr>"
    "arena_restore self A mk = (True, A\<lparr>arena_blocks := pre @ [b'], arena_current := Some a,
       arena_used := mark_total_used mk, arena_allocation_count := mark_total_allocations mk,
       arena_block_count := length (pre @ [b']),
       arena_capacity := sum_list (map block_capacity (pre @ [b']))\<rparr>)"
    "arena_inv (snd (arena_restore self A mk))"
proof -
  from ok a obtain pre b post where s: "arena_blocks A = pre @ b # post" "block_addr b = a"
    "not_passed (arena_current A) pre" "mark_used mk \<le> block_used b"
    "mark_allocation_count mk \<le> block_allocation_count b"
    "mark_allocation_count mk \<le> mark_used mk"
    "mark_total_used mk = sum_list (map block_used pre) + mark_used mk"
    "mark_total_allocations mk = sum_list (map block_allocation_count pre) + mark_allocation_count mk"
    by (auto simp: mark_ok_def)
  define b' where "b' = b\<lparr>block_used := mark_used mk, block_allocation_count := mark_allocation_count mk\<rparr>"
  note invD = arena_invD [OF inv]
  have na: "block_addr b \<notin> addrs pre" using invD(2) s(1) by auto
  have len: "length (pre @ [b']) \<le> SIZE_MAX"
    and cap: "sum_list (map block_capacity (pre @ [b'])) \<le> SIZE_MAX"
    using block_count_le [OF inv] invD(4,5) s(1) by (auto simp: chain_totals_def b'_def)
  have rec: "arena_recount (pre @ [b']) 0 0 =
      (length (pre @ [b']), sum_list (map block_capacity (pre @ [b'])))"
    using arena_recount_exact [of 0 "pre @ [b']" 0] len cap by simp
  have upd: "chain_update a (\<lambda>b. b\<lparr>block_used := mark_used mk,
        block_allocation_count := mark_allocation_count mk\<rparr>) (chain_cut_after a (arena_blocks A)) = pre @ [b']"
    using na s(1,2) chain_update_split [of b pre "[]"] by (auto simp: b'_def)
  have at: "chain_at a (arena_blocks A) = Some b" using na s(1,2) by auto
  have res: "arena_restore self A mk = (True, A\<lparr>arena_blocks := pre @ [b'], arena_current := Some a,
       arena_used := mark_total_used mk, arena_allocation_count := mark_total_allocations mk,
       arena_block_count := length (pre @ [b']),
       arena_capacity := sum_list (map block_capacity (pre @ [b']))\<rparr>)"
    using ok a at s(4,5) by (simp add: arena_restore_def mark_ok_def upd rec del: arena_recount.simps)
  have "block_ok A b" using invD(3) s(1) by simp
  then have okb: "block_ok A b'" using s(4,6) by (auto simp: b'_def block_ok_def)
  have okc: "block_ok (snd (arena_restore self A mk)) x = block_ok A x" for x
    by (rule block_ok_cong) (simp add: res)
  have fields: "arena_blocks (snd (arena_restore self A mk)) = pre @ [b']"
    "arena_current (snd (arena_restore self A mk)) = Some (block_addr b')"
    "arena_default_block_size (snd (arena_restore self A mk)) = arena_default_block_size A"
    using s(2) by (simp_all add: res b'_def)
  have tot: "chain_totals (snd (arena_restore self A mk))"
    using s(7,8) by (simp add: res chain_totals_def b'_def)
  have dist: "distinct (map block_addr (pre @ [b']))" using invD(2) s(1) by (simp add: b'_def)
  have "arena_inv (snd (arena_restore self A mk))"
    unfolding arena_inv_def fields okc
    using invD(1) dist invD(3) okb tot cap current_ok_split [of "[]" b' pre] s(1)
    by (simp add: res)
  with that [OF s(1,2,3) b'_def res] show thesis .
qed

end
