(* ===== verification/ArenaRuns.thy ===== *)
theory ArenaRuns
  imports Arena
begin

text \<open>
  Sequences of arena operations: the step relation of an arena together with the regions its
  client still holds and the marks it has taken, and the invariant that every reachable state
  keeps. Marks are used as a stack: a restore drops the marks taken after the restored one.
\<close>

section \<open>Restoring a mark across growth\<close>

lemma arena_restore_grows:
  assumes "arena_inv A" "arena_inv A'" and ok: "mark_ok self A mk" and g: "arena_grows A A'"
  shows "arena_restore self A' mk = arena_restore self A mk"
proof (cases "mark_block mk")
  case None
  note mark_ok_grows [OF ok g]
  with ok None g show ?thesis
    by (simp add: arena_restore_None arena_reset_to_empty_def arena_grows_def)
next
  case (Some a)
  obtain pre b post b0 where s: "arena_blocks A = pre @ b # post" "block_addr b = a"
    "not_passed (arena_current A) pre"
    "b0 = b\<lparr>block_used := mark_used mk, block_allocation_count := mark_allocation_count mk\<rparr>"
    "arena_restore self A mk = (True, A\<lparr>arena_blocks := pre @ [b0], arena_current := Some a,
       arena_used := mark_total_used mk, arena_allocation_count := mark_total_allocations mk,
       arena_block_count := length (pre @ [b0]),
       arena_capacity := sum_list (map block_capacity (pre @ [b0]))\<rparr>)"
    by (rule arena_restore_Some [OF assms(1) ok Some]) blast
  obtain pre' c post' c0 where t: "arena_blocks A' = pre' @ c # post'" "block_addr c = a"
    "not_passed (arena_current A') pre'"
    "c0 = c\<lparr>block_used := mark_used mk, block_allocation_count := mark_allocation_count mk\<rparr>"
    "arena_restore self A' mk = (True, A'\<lparr>arena_blocks := pre' @ [c0], arena_current := Some a,
       arena_used := mark_total_used mk, arena_allocation_count := mark_total_allocations mk,
       arena_block_count := length (pre' @ [c0]),
       arena_capacity := sum_list (map block_capacity (pre' @ [c0]))\<rparr>)"
    by (rule arena_restore_Some [OF assms(2) mark_ok_grows [OF ok g] Some]) blast
  from g s(1,3) obtain b' q where b': "arena_blocks A' = pre @ b' # q" "block_later b b'"
    and fields: "arena_default_block_size A' = arena_default_block_size A"
      "arena_generation A' = arena_generation A"
    unfolding arena_grows_def by blast
  have "block_addr b' = a" using b'(2) s(2) by (simp add: block_later_def)
  then have "pre' = pre \<and> c = b'"
    using chain_split_unique [OF arena_invD(2) [OF assms(2)] b'(1) t(1)] t(2) by simp
  moreover have "c0 = b0"
    using calculation b'(2) by (cases b, cases b') (simp add: s(4) t(4) block_later_def)
  ultimately show ?thesis
    unfolding s(5) t(5) using fields by (cases A, cases A') simp
qed

lemma arena_restore_below:
  assumes inv: "arena_inv A" and ok: "mark_ok self A mk"
  shows "fst (arena_restore self A mk)" "arena_inv (snd (arena_restore self A mk))"
    "arena_grows (snd (arena_restore self A mk)) A" "mark_ok self (snd (arena_restore self A mk)) mk"
    "arena_used (snd (arena_restore self A mk)) = mark_total_used mk"
    "arena_allocation_count (snd (arena_restore self A mk)) = mark_total_allocations mk"
proof -
  let ?R = "snd (arena_restore self A mk)"
  have "fst (arena_restore self A mk) \<and> arena_inv ?R \<and> arena_grows ?R A \<and> mark_ok self ?R mk \<and>
      arena_used ?R = mark_total_used mk \<and> arena_allocation_count ?R = mark_total_allocations mk"
  proof (cases "mark_block mk")
    case None
    with inv ok show ?thesis
      by (simp add: arena_restore_None arena_reset_to_empty_def arena_inv_def chain_totals_def
          current_ok_def arena_grows_def mark_ok_def)
  next
    case (Some a)
    obtain pre b post b0 where s: "arena_blocks A = pre @ b # post" "block_addr b = a"
      "not_passed (arena_current A) pre"
      "b0 = b\<lparr>block_used := mark_used mk, block_allocation_count := mark_allocation_count mk\<rparr>"
      "arena_restore self A mk = (True, A\<lparr>arena_blocks := pre @ [b0], arena_current := Some a,
         arena_used := mark_total_used mk, arena_allocation_count := mark_total_allocations mk,
         arena_block_count := length (pre @ [b0]),
         arena_capacity := sum_list (map block_capacity (pre @ [b0]))\<rparr>)" "arena_inv ?R"
      by (rule arena_restore_Some [OF inv ok Some])
    have na: "not_passed (Some a) pre"
      using arena_invD(2) [OF inv] s(1,2) by (auto simp: not_passed_def)
    from ok Some s(1,2) have m: "mark_used mk \<le> block_used b"
      "mark_allocation_count mk \<le> block_allocation_count b"
    proof -
      from ok Some obtain pre' b' post' where "arena_blocks A = pre' @ b' # post'" "block_addr b' = a"
        "mark_used mk \<le> block_used b'" "mark_allocation_count mk \<le> block_allocation_count b'"
        by (auto simp: mark_ok_def)
      moreover from this s(1,2) have "b' = b"
        using chain_split_unique [OF arena_invD(2) [OF inv] s(1)] by metis
      ultimately show "mark_used mk \<le> block_used b"
        "mark_allocation_count mk \<le> block_allocation_count b" by auto
    qed
    have later: "block_later b0 b" using m by (simp add: s(4) block_later_def)
    have grows: "arena_grows ?R A"
      by (rule arena_grows_at_current [of ?R pre b0 "[]" A b post])
        (use s later in \<open>auto simp: s(5)\<close>)
    have "mark_ok self ?R mk"
    proof -
      from ok Some obtain pre' b' post' where p': "arena_blocks A = pre' @ b' # post'" "block_addr b' = a"
        "mark_allocation_count mk \<le> mark_used mk"
        "mark_total_used mk = sum_list (map block_used pre') + mark_used mk"
        "mark_total_allocations mk =
           sum_list (map block_allocation_count pre') + mark_allocation_count mk"
        by (auto simp: mark_ok_def)
      have "pre' = pre"
        using chain_split_unique [OF arena_invD(2) [OF inv] s(1) p'(1)] p'(2) s(2) by simp
      with p'(3-5) have "\<exists>p x q. arena_blocks ?R = p @ x # q \<and> block_addr x = a \<and>
          not_passed (arena_current ?R) p \<and>
          mark_used mk \<le> block_used x \<and> mark_allocation_count mk \<le> block_allocation_count x \<and>
          mark_allocation_count mk \<le> mark_used mk \<and>
          mark_total_used mk = sum_list (map block_used p) + mark_used mk \<and>
          mark_total_allocations mk = sum_list (map block_allocation_count p) + mark_allocation_count mk"
        using na s(2) by (intro exI [of _ pre] exI [of _ b0] exI [of _ "[]"]) (simp add: s(4,5))
      moreover have "mark_arena mk = Some self" "mark_generation mk = arena_generation ?R"
        using ok by (simp_all add: mark_ok_def s(5))
      ultimately show ?thesis unfolding mark_ok_def using Some by simp
    qed
    with grows s(6) show ?thesis by (simp add: s(5))
  qed
  then show "fst (arena_restore self A mk)" "arena_inv ?R" "arena_grows ?R A" "mark_ok self ?R mk"
    "arena_used ?R = mark_total_used mk" "arena_allocation_count ?R = mark_total_allocations mk" by auto
qed

lemma mark_ok_fresh:
  assumes inv: "arena_inv A"
  shows "mark_ok self A (arena_mark self A)"
proof (cases "arena_current A")
  case None
  with arena_current_None [OF inv None] inv show ?thesis
    by (simp add: mark_ok_def arena_mark_def arena_inv_def chain_totals_def)
next
  case (Some c)
  obtain pre b post where s: "arena_blocks A = pre @ b # post" "block_addr b = c"
    "\<forall>x \<in> set post. block_unused x" "c \<notin> addrs pre" "c \<notin> addrs post" "arena_current_block A = Some b"
    by (rule current_okE [OF inv Some])
  have "sum_list (map block_used post) = 0" "sum_list (map block_allocation_count post) = 0"
    using s(3) by (simp_all add: block_unused_def sum_list_eq_0_iff)
  then have tot: "arena_used A = sum_list (map block_used pre) + block_used b"
    "arena_allocation_count A = sum_list (map block_allocation_count pre) + block_allocation_count b"
    using arena_invD(4) [OF inv] s(1) by (simp_all add: chain_totals_def)
  have "block_allocation_count b \<le> block_used b"
    using arena_invD(3) [OF inv, of b] s(1) by (simp add: block_ok_def)
  with Some s tot arena_invD(1) [OF inv] show ?thesis
    by (auto simp: mark_ok_def arena_mark_def not_passed_def)
qed

text \<open>Restoring a fresh mark cuts the unused blocks behind the current one and nothing else.\<close>

lemma arena_restore_fresh_live:
  assumes inv: "arena_inv A" and live: "live_ok A L"
  shows "live_ok (snd (arena_restore self A (arena_mark self A))) L"
proof -
  let ?mk = "arena_mark self A"
  have d: "arena_default_block_size A \<noteq> 0" using arena_invD(1) [OF inv] by simp
  have "region_in (snd (arena_restore self A ?mk)) r" if r: "region_in A r" for r
  proof (cases "arena_current A")
    case None
    with arena_current_None [OF inv None] r show ?thesis by (simp add: region_in_def)
  next
    case (Some c)
    obtain pre b post where s: "arena_blocks A = pre @ b # post" "block_addr b = c"
      "\<forall>x \<in> set post. block_unused x" "c \<notin> addrs pre" "c \<notin> addrs post" "arena_current_block A = Some b"
      by (rule current_okE [OF inv Some])
    have mb: "mark_block ?mk = Some c" "mark_used ?mk = block_used b"
      using Some s(6) d by (simp_all add: arena_mark_def)
    obtain pre' b' post' b0 where t: "arena_blocks A = pre' @ b' # post'" "block_addr b' = c"
      "b0 = b'\<lparr>block_used := mark_used ?mk, block_allocation_count := mark_allocation_count ?mk\<rparr>"
      "arena_blocks (snd (arena_restore self A ?mk)) = pre' @ [b0]"
      by (rule arena_restore_Some [OF inv mark_ok_fresh [OF inv] mb(1)]) simp
    have "pre' = pre \<and> b' = b"
      using chain_split_unique [OF arena_invD(2) [OF inv] s(1) t(1)] t(2) s(2) by simp
    with r t s(1,3) mb(2) show ?thesis by (auto simp: region_in_def block_unused_def)
  qed
  with live show ?thesis by (simp add: live_ok_def)
qed


section \<open>Reset\<close>

definition block_cleared :: "ArenaBlock \<Rightarrow> ArenaBlock" where
  "block_cleared b = b\<lparr>block_used := 0, block_allocation_count := 0\<rparr>"

lemma arena_reset_walk_exact:
  "n \<le> SIZE_MAX \<Longrightarrow> c \<le> SIZE_MAX \<Longrightarrow> length bs \<le> n \<Longrightarrow> sum_list (map block_capacity bs) \<le> c \<Longrightarrow>
   arena_reset_walk bs n c =
     (map block_cleared (filter (\<lambda>b. \<not> block_oversized b) bs),
      n - length (filter block_oversized bs),
      c - sum_list (map block_capacity (filter block_oversized bs)))"
proof (induction bs arbitrary: n c)
  case (Cons b bs)
  then show ?case
    by (cases "block_oversized b") (auto simp: sz_sub_exact block_cleared_def)
qed simp

lemma filter_split_sum:
  "sum_list (map f (filter P xs)) + sum_list (map f (filter (\<lambda>x. \<not> P x) xs)) = (sum_list (map f xs) :: nat)"
  by (induction xs) auto

lemma arena_reset_spec:
  assumes inv: "arena_inv A"
  shows "arena_inv (arena_reset A)"
    and "arena_blocks (arena_reset A) =
         map block_cleared (filter (\<lambda>b. \<not> block_oversized b) (arena_blocks A))"
    and "arena_generation (arena_reset A) \<noteq> arena_generation A"
proof -
  note invD = arena_invD [OF inv]
  let ?keep = "filter (\<lambda>b. \<not> block_oversized b) (arena_blocks A)"
  let ?drop = "filter block_oversized (arena_blocks A)"
  have tot: "arena_block_count A = length (arena_blocks A)"
    "arena_capacity A = sum_list (map block_capacity (arena_blocks A))"
    using invD(4) by (simp_all add: chain_totals_def)
  have "arena_block_count A \<le> SIZE_MAX" using block_count_le [OF inv] tot invD(5) by simp
  from arena_reset_walk_exact [OF this invD(5), of "arena_blocks A"] tot
  have walk: "arena_reset_walk (arena_blocks A) (arena_block_count A) (arena_capacity A) =
     (map block_cleared ?keep, arena_block_count A - length ?drop,
      arena_capacity A - sum_list (map block_capacity ?drop))" by simp
  have cnt: "arena_block_count A - length ?drop = length ?keep"
    using sum_length_filter_compl [of block_oversized "arena_blocks A"] tot(1) by simp
  have cap: "arena_capacity A - sum_list (map block_capacity ?drop) = sum_list (map block_capacity ?keep)"
    using filter_split_sum [of block_capacity block_oversized "arena_blocks A"] tot(2) by simp
  note reset = arena_reset_def [of A, unfolded Let_def walk prod.case cnt cap]
  have d: "arena_default_block_size A \<noteq> 0" using invD(1) by simp
  show bl: "arena_blocks (arena_reset A) = map block_cleared ?keep" using d by (simp add: reset)
  have dflt: "arena_default_block_size (arena_reset A) = arena_default_block_size A"
    by (simp add: reset)
  have z: "map block_capacity (map block_cleared xs) = map block_capacity xs"
    "map block_addr (map block_cleared xs) = map block_addr xs"
    "sum_list (map block_used (map block_cleared xs)) = 0"
    "sum_list (map block_allocation_count (map block_cleared xs)) = 0" for xs
    by (auto simp: block_cleared_def intro: sum_list_0)
  have le: "sum_list (map block_capacity ?keep) \<le> SIZE_MAX" using cap invD(5) by simp
  have cur: "current_ok (arena_current (arena_reset A)) (arena_blocks (arena_reset A))"
  proof (cases ?keep)
    case Nil
    then show ?thesis using d by (simp add: reset current_ok_def)
  next
    case (Cons x xs)
    then show ?thesis
      using d current_ok_split [of "map block_cleared xs" "block_cleared x" "[]"]
      by (simp add: reset block_unused_def block_cleared_def)
  qed
  have ok: "block_ok (arena_reset A) b" if "b \<in> set (map block_cleared ?keep)" for b
    using that invD(3) block_ok_cong [OF dflt, of b] by (auto simp: block_ok_def block_cleared_def)
  have "distinct (map block_addr ?keep)" using invD(2) by (simp add: distinct_map_filter)
  then show "arena_inv (arena_reset A)"
    unfolding arena_inv_def chain_totals_def dflt bl z(1,2,3,4)
    using cur ok invD(1) d le bl by (simp add: reset)
  show "arena_generation (arena_reset A) \<noteq> arena_generation A"
  proof (cases "arena_generation A + 1 = 0")
    case True
    then have "arena_generation A = - 1" by (simp add: eq_neg_iff_add_eq_0)
    with True d show ?thesis by (simp add: reset)
  next
    case False
    with d show ?thesis by (simp add: reset)
  qed
qed

section \<open>Runs\<close>

text \<open>
  \<open>arena_run self A L M\<close>: the arena at address \<open>self\<close> can reach the state \<open>A\<close> while its client holds
  the regions \<open>L\<close> and the marks \<open>M\<close>, each mark paired with the regions held when it was taken.
\<close>

inductive arena_run ::
    "nat \<Rightarrow> Arena \<Rightarrow> region list \<Rightarrow> (ArenaMark \<times> region list) list \<Rightarrow> bool" for self where
  run_init: "arena_init A0 n = (True, A) \<Longrightarrow> arena_run self A [] []"
| run_alloc: "arena_run self A L M \<Longrightarrow> malloc_spec m \<Longrightarrow> arena_alloc m A sz = (Some p, A') \<Longrightarrow>
     arena_run self A' ((p, sz) # L) M"
| run_null: "arena_run self A L M \<Longrightarrow> malloc_spec m \<Longrightarrow> arena_alloc m A sz = (None, A') \<Longrightarrow>
     arena_run self A' L M"
| run_mark: "arena_run self A L M \<Longrightarrow> arena_run self A L ((arena_mark self A, L) # M)"
| run_restore: "arena_run self A L (M1 @ (mk, L0) # M2) \<Longrightarrow> arena_restore self A mk = (True, A') \<Longrightarrow>
     arena_run self A' L0 ((mk, L0) # M2)"
| run_reset: "arena_run self A L M \<Longrightarrow> arena_run self (arena_reset A) [] []"

fun marks_ok :: "nat \<Rightarrow> Arena \<Rightarrow> (ArenaMark \<times> region list) list \<Rightarrow> bool" where
  "marks_ok self A [] = True"
| "marks_ok self A ((mk, L) # M) =
     (mark_ok self A mk \<and> live_ok (snd (arena_restore self A mk)) L \<and>
      marks_ok self (snd (arena_restore self A mk)) M)"

lemma marks_ok_grows:
  assumes "marks_ok self A M" and inv: "arena_inv A" "arena_inv A'" and g: "arena_grows A A'"
  shows "marks_ok self A' M"
proof (cases M)
  case (Cons x M')
  obtain mk L where x: "x = (mk, L)" by (cases x)
  with assms(1) Cons have ok: "mark_ok self A mk" by simp
  from arena_restore_grows [OF inv ok g] mark_ok_grows [OF ok g] assms(1) Cons x
  show ?thesis by simp
qed simp

lemma marks_ok_suffix:
  "marks_ok self A (M1 @ M2) \<Longrightarrow> arena_inv A \<Longrightarrow> marks_ok self A M2"
proof (induction M1 arbitrary: A)
  case (Cons x M1)
  obtain mk L where x: "x = (mk, L)" by (cases x)
  let ?R = "snd (arena_restore self A mk)"
  from Cons.prems x have ok: "mark_ok self A mk" "marks_ok self ?R (M1 @ M2)" by auto
  note below = arena_restore_below [OF Cons.prems(2) ok(1)]
  have "marks_ok self ?R M2" by (rule Cons.IH [OF ok(2) below(2)])
  then show ?case by (rule marks_ok_grows [OF _ below(2) Cons.prems(2) below(3)])
qed simp

lemma marks_ok_restored:
  assumes "marks_ok self A ((mk, L) # M)" and inv: "arena_inv A"
  shows "marks_ok self (snd (arena_restore self A mk)) ((mk, L) # M)"
proof -
  let ?R = "snd (arena_restore self A mk)"
  from assms have ok: "mark_ok self A mk" "live_ok ?R L" "marks_ok self ?R M" by auto
  note below = arena_restore_below [OF inv ok(1)]
  have "arena_restore self A mk = arena_restore self ?R mk"
    by (rule arena_restore_grows [OF below(2) inv below(4) below(3)])
  with below(4) ok(2,3) show ?thesis by simp
qed

text \<open>
  Taking a mark: the blocks behind the current one are unused, so the older marks are still valid
  in the state the new mark restores.
\<close>

lemma mark_ok_fresh_restored:
  assumes inv: "arena_inv A" and ok: "mark_ok self A mk"
  shows "mark_ok self (snd (arena_restore self A (arena_mark self A))) mk"
proof (cases "mark_block mk")
  case None
  note g = arena_restore_below(3) [OF inv mark_ok_fresh [OF inv]]
  from ok None show ?thesis using g by (simp add: mark_ok_def arena_grows_def)
next
  case (Some a)
  let ?mk = "arena_mark self A" and ?R = "snd (arena_restore self A (arena_mark self A))"
  note g = arena_restore_below(3) [OF inv mark_ok_fresh [OF inv]]
  from ok Some obtain p x q where x: "arena_blocks A = p @ x # q" "block_addr x = a"
    "not_passed (arena_current A) p" "mark_used mk \<le> block_used x"
    "mark_allocation_count mk \<le> block_allocation_count x" "mark_allocation_count mk \<le> mark_used mk"
    "mark_total_used mk = sum_list (map block_used p) + mark_used mk"
    "mark_total_allocations mk = sum_list (map block_allocation_count p) + mark_allocation_count mk"
    by (auto simp: mark_ok_def)
  have "arena_current A \<noteq> None" using arena_current_None [OF inv] x(1) by auto
  then obtain c where c: "arena_current A = Some c" by auto
  obtain pre b post where s: "arena_blocks A = pre @ b # post" "block_addr b = c"
    "\<forall>y \<in> set post. block_unused y" "c \<notin> addrs pre" "c \<notin> addrs post" "arena_current_block A = Some b"
    by (rule current_okE [OF inv c])
  have d: "arena_default_block_size A \<noteq> 0" using arena_invD(1) [OF inv] by simp
  have mb: "mark_block ?mk = Some c" "mark_used ?mk = block_used b"
    "mark_allocation_count ?mk = block_allocation_count b"
    using c s(6) d by (simp_all add: arena_mark_def)
  obtain pre' b' post' b0 where t: "arena_blocks A = pre' @ b' # post'" "block_addr b' = c"
    "b0 = b'\<lparr>block_used := mark_used ?mk, block_allocation_count := mark_allocation_count ?mk\<rparr>"
    "arena_blocks ?R = pre' @ [b0]" "arena_current ?R = Some c"
    by (rule arena_restore_Some [OF inv mark_ok_fresh [OF inv] mb(1)]) simp
  have eq: "pre' = pre \<and> b' = b"
    using chain_split_unique [OF arena_invD(2) [OF inv] s(1) t(1)] t(2) s(2) by simp
  then have "b0 = b" using t(3) mb(2,3) by simp
  with t(4) eq have R: "arena_blocks ?R = pre @ [b]" by simp
  have "b \<notin> set p" using x(3) c s(2) by (auto simp: not_passed_def)
  then have "\<exists>q'. arena_blocks ?R = p @ x # q'"
    using split_align [of pre b post p x q] s(1) x(1) R by auto
  moreover have "not_passed (arena_current ?R) p" using x(3) c t(5) by simp
  moreover have "mark_arena mk = Some self" "mark_generation mk = arena_generation ?R"
    using ok g by (simp_all add: mark_ok_def arena_grows_def)
  ultimately show ?thesis unfolding mark_ok_def using Some x(2,4-8) by auto
qed

theorem arena_run_invariant:
  "arena_run self A L M \<Longrightarrow> arena_inv A \<and> live_ok A L \<and> marks_ok self A M"
proof (induction rule: arena_run.induct)
  case (run_init A0 n A)
  then have "A = arena_zero\<lparr>arena_default_block_size := n, arena_generation := 1\<rparr>" "0 < n"
    by (auto simp: arena_init_def split: if_splits)
  then show ?case
    by (simp add: arena_inv_def arena_zero_def chain_totals_def current_ok_def live_ok_def)
next
  case (run_alloc A L M m sz p A')
  then show ?case
    using arena_alloc_inv [of A m sz "Some p" A'] arena_alloc_live marks_ok_grows by blast
next
  case (run_null A L M m sz A')
  then show ?case
    using arena_alloc_inv [of A m sz None A'] live_ok_grows marks_ok_grows by blast
next
  case (run_mark A L M)
  then have inv: "arena_inv A" and M: "marks_ok self A M" by auto
  let ?R = "snd (arena_restore self A (arena_mark self A))"
  note below = arena_restore_below [OF inv mark_ok_fresh [OF inv]]
  have "marks_ok self ?R M"
  proof (cases M)
    case (Cons x M')
    obtain mk L' where x: "x = (mk, L')" by (cases x)
    with M Cons have ok: "mark_ok self A mk" by simp
    from arena_restore_grows [OF below(2) inv mark_ok_fresh_restored [OF inv ok] below(3)]
    show ?thesis using M Cons x mark_ok_fresh_restored [OF inv ok] by simp
  qed simp
  with run_mark arena_restore_fresh_live [OF inv] mark_ok_fresh [OF inv] show ?case by simp
next
  case (run_restore A L M1 mk L0 M2 A')
  then have inv: "arena_inv A" and M: "marks_ok self A ((mk, L0) # M2)"
    using marks_ok_suffix [of self A M1 "(mk, L0) # M2"] by auto
  from M have ok: "mark_ok self A mk" "live_ok (snd (arena_restore self A mk)) L0" by auto
  from marks_ok_restored [OF M inv] arena_restore_below(2) [OF inv ok(1)] ok(2) run_restore(2)
  show ?case by simp
next
  case (run_reset A L M)
  then show ?case using arena_reset_spec(1) by (simp add: live_ok_def)
qed


section \<open>A heap for the witnesses\<close>

text \<open>A \<open>malloc\<close> that never fails: the next address after all live ones, and zeroed memory.\<close>

definition demo_malloc :: malloc_fn where
  "demo_malloc live n = Some (Suc (foldr max live 0), replicate n (CHR 0x00))"

definition demo_arena :: Arena where
  "demo_arena = snd (arena_init arena_zero 64)"

lemma foldr_max_ge: "(x::nat) \<in> set xs \<Longrightarrow> x \<le> foldr max xs 0"
  by (induction xs) auto

lemma demo_malloc_spec: "malloc_spec demo_malloc"
  unfolding malloc_spec_def demo_malloc_def using foldr_max_ge by fastforce

lemma demo_arena_inv: "arena_inv demo_arena"
  by (simp add: demo_arena_def arena_init_def arena_inv_def arena_zero_def chain_totals_def current_ok_def)

lemmas arena_eval = arena_alloc_def arena_block_for_def arena_current_block_def arena_add_block_def
  arena_required_capacity_def arena_alignment_def arena_block_create_def arena_capacity_is_oversized_def
  sizeof_ArenaBlock_def SIZE_MAX_def chain_at_def chain_update_def arena_align_up_def Let_def sz_add_def
  sz_sub_def arena_block_can_allocate_def

definition demo_block :: "size_t \<Rightarrow> size_t \<Rightarrow> ArenaBlock" where
  "demo_block used count = \<lparr>block_addr = 1, block_capacity = 64, block_used = used,
     block_allocation_count = count, block_oversized = False, block_data = replicate 64 (CHR 0x00)\<rparr>"

definition demo_arena_at :: "size_t \<Rightarrow> size_t \<Rightarrow> Arena" where
  "demo_arena_at used count = demo_arena\<lparr>arena_blocks := [demo_block used count],
     arena_current := Some 1, arena_block_count := 1, arena_capacity := 64, arena_used := used,
     arena_allocation_count := count\<rparr>"

lemma demo_alloc1: "arena_alloc demo_malloc demo_arena 24 = (Some (1, 0), demo_arena_at 24 1)"
  by (simp add: arena_eval demo_arena_at_def demo_arena_def demo_block_def arena_init_def arena_zero_def
      demo_malloc_def)

lemma demo_alloc2:
  "arena_alloc demo_malloc (demo_arena_at 24 1) 8 = (Some (1, 32), demo_arena_at 40 2)"
  by (simp add: arena_eval demo_arena_at_def demo_arena_def demo_block_def arena_init_def arena_zero_def)

lemma demo_run1: "arena_run 7 (demo_arena_at 24 1) [((1, 0), 24)] []"
  by (rule run_alloc [OF run_init demo_malloc_spec demo_alloc1, of arena_zero 64])
    (simp add: demo_arena_def arena_init_def)

lemma demo_run2:
  "arena_run 7 (demo_arena_at 40 2) [((1, 32), 8), ((1, 0), 24)]
     [(arena_mark 7 (demo_arena_at 24 1), [((1, 0), 24)])]"
  by (rule run_alloc [OF run_mark [OF demo_run1] demo_malloc_spec demo_alloc2])

section \<open>Properties\<close>

text \<open>
  C1: In every state an arena can reach by initialising, allocating, taking and restoring marks and
  resetting, the regions the client holds lie inside the used part of a block of the arena, start
  at a multiple of the alignment, and no two of them overlap.
\<close>

theorem arena_regions_disjoint:
  assumes "arena_run self A L M" and "i < j" and "j < length L"
  shows "regions_disjoint (L ! i) (L ! j) \<and> region_in A (L ! i) \<and> region_in A (L ! j)"
proof -
  from arena_run_invariant [OF assms(1)] have "live_ok A L" by simp
  with assms(2,3) show ?thesis unfolding live_ok_def by (auto simp: sorted_wrt_iff_nth_less)
qed

theorem arena_regions_disjoint_witness:
  "regions_disjoint ((1, 32), 8) ((1, 0), 24) \<and> region_in (demo_arena_at 40 2) ((1, 0), 24)"
  using arena_regions_disjoint [OF demo_run2, of 0 1] by simp

text \<open>
  C2: A successful allocation returns an aligned offset behind everything allocated in its block
  before, the region fits the block, the invariant of the arena is kept, and every block that
  existed is still there with its capacity and its data: growth never moves old data.
\<close>

theorem arena_alloc_correct:
  assumes "arena_inv A" and "malloc_spec m" and "arena_alloc m A sz = (Some (a, off), A')"
  shows "arena_inv A' \<and> off mod 16 = 0 \<and>
    (\<exists>b'. chain_at a (arena_blocks A') = Some b' \<and> off + sz \<le> block_used b' \<and>
          block_used b' \<le> block_capacity b') \<and>
    (\<forall>b. chain_at a (arena_blocks A) = Some b \<longrightarrow> block_used b \<le> off) \<and>
    (\<forall>c b. chain_at c (arena_blocks A) = Some b \<longrightarrow>
       (\<exists>b'. chain_at c (arena_blocks A') = Some b' \<and> block_capacity b' = block_capacity b \<and>
             block_data b' = block_data b \<and> block_used b \<le> block_used b'))"
proof (intro conjI allI impI)
  note inv' = arena_alloc_inv [OF assms]
  note reg = arena_alloc_region [OF assms]
  show "arena_inv A'" by (rule inv'(1))
  show "off mod 16 = 0" using reg(1) by (simp add: region_in_def arena_alignment_def)
  from reg(1) obtain b' where "b' \<in> set (arena_blocks A')" "block_addr b' = a" "off + sz \<le> block_used b'"
    by (auto simp: region_in_def)
  then show "\<exists>b'. chain_at a (arena_blocks A') = Some b' \<and> off + sz \<le> block_used b' \<and>
      block_used b' \<le> block_capacity b'"
    using chain_at_distinct [OF arena_invD(2) [OF inv'(1)]] arena_invD(3) [OF inv'(1)]
    by (auto simp: block_ok_def)
  show "block_used b \<le> off" if "chain_at a (arena_blocks A) = Some b" for b
    using reg(2) chain_at_in_set [OF that] by blast
  show "\<exists>b'. chain_at c (arena_blocks A') = Some b' \<and> block_capacity b' = block_capacity b \<and>
      block_data b' = block_data b \<and> block_used b \<le> block_used b'"
    if "chain_at c (arena_blocks A) = Some b" for c b
  proof -
    from chain_at_in_set [OF that] inv'(2) obtain b' where
      "b' \<in> set (arena_blocks A')" "block_later b b'" "block_addr b = c" unfolding arena_grows_def by blast
    then show ?thesis
      using chain_at_distinct [OF arena_invD(2) [OF inv'(1)], of b']
      by (intro exI [of _ b']) (simp add: block_later_def)
  qed
qed

theorem arena_alloc_correct_witness:
  "arena_inv (demo_arena_at 40 2) \<and> (32::nat) mod 16 = 0"
proof -
  have "arena_inv (demo_arena_at 24 1)" using arena_run_invariant [OF demo_run1] by simp
  from arena_alloc_correct [OF this demo_malloc_spec demo_alloc2] show ?thesis by simp
qed

text \<open>
  C3: Marks are safe to restore in last-in-first-out order: whatever was allocated in between, the
  restore succeeds, brings back the byte and allocation counts of the moment the mark was taken,
  and leaves every region held at that moment intact and the arena well formed.
\<close>

theorem arena_mark_restore:
  assumes "arena_run self A L M" and "(mk, L0) \<in> set M"
  shows "\<exists>A'. arena_restore self A mk = (True, A') \<and> arena_inv A' \<and> live_ok A' L0 \<and>
    stats_used (arena_stats A') = mark_total_used mk \<and>
    stats_allocation_count (arena_stats A') = mark_total_allocations mk"
proof -
  from arena_run_invariant [OF assms(1)] have inv: "arena_inv A" and M: "marks_ok self A M" by auto
  from assms(2) obtain M1 M2 where "M = M1 @ (mk, L0) # M2" by (auto simp: in_set_conv_decomp)
  with marks_ok_suffix [of self A M1 "(mk, L0) # M2"] M inv
  have ok: "mark_ok self A mk" "live_ok (snd (arena_restore self A mk)) L0" by auto
  from arena_restore_below [OF inv ok(1)] ok(2) show ?thesis
    by (intro exI [of _ "snd (arena_restore self A mk)"]) (auto simp: arena_stats_def prod_eq_iff)
qed

theorem arena_mark_restore_witness:
  "\<exists>A'. arena_restore 7 (demo_arena_at 40 2) (arena_mark 7 (demo_arena_at 24 1)) = (True, A') \<and>
     live_ok A' [((1, 0), 24)] \<and> stats_used (arena_stats A') = 24"
  using arena_mark_restore [OF demo_run2, of "arena_mark 7 (demo_arena_at 24 1)" "[((1, 0), 24)]"]
  by (auto simp: arena_mark_def demo_arena_at_def demo_arena_def arena_init_def)

text \<open>
  C4: A reset leaves a well-formed arena that holds exactly the blocks that are not oversized, in
  their order and emptied, and it invalidates every mark taken before it: restoring one fails and
  changes nothing.
\<close>

theorem arena_reset_correct:
  assumes "arena_run self A L M" and "(mk, L0) \<in> set M"
  shows "arena_inv (arena_reset A) \<and> stats_used (arena_stats (arena_reset A)) = 0 \<and>
    map block_addr (arena_blocks (arena_reset A)) =
      map block_addr (filter (\<lambda>b. \<not> arena_capacity_is_oversized A (block_capacity b)) (arena_blocks A)) \<and>
    arena_restore self (arena_reset A) mk = (False, arena_reset A)"
proof -
  from arena_run_invariant [OF assms(1)] have inv: "arena_inv A" and M: "marks_ok self A M" by auto
  from assms(2) obtain M1 M2 where "M = M1 @ (mk, L0) # M2" by (auto simp: in_set_conv_decomp)
  with marks_ok_suffix [of self A M1 "(mk, L0) # M2"] M inv have ok: "mark_ok self A mk" by auto
  note spec = arena_reset_spec [OF inv]
  have "arena_restore self (arena_reset A) mk = (False, arena_reset A)"
    using ok spec(3) by (simp add: arena_restore_def mark_ok_def)
  moreover have "filter (\<lambda>b. \<not> block_oversized b) (arena_blocks A) =
      filter (\<lambda>b. \<not> arena_capacity_is_oversized A (block_capacity b)) (arena_blocks A)"
    by (rule filter_cong) (use arena_invD(3) [OF inv] in \<open>auto simp: block_ok_def\<close>)
  moreover have "arena_used (arena_reset A) = 0"
    using arena_invD(1) [OF inv] by (simp add: arena_reset_def Let_def split: prod.split)
  ultimately show ?thesis using spec(1,2) by (simp add: arena_stats_def block_cleared_def comp_def)
qed

theorem arena_reset_correct_witness:
  "arena_restore 7 (arena_reset (demo_arena_at 40 2)) (arena_mark 7 (demo_arena_at 24 1)) =
     (False, arena_reset (demo_arena_at 40 2))"
  using arena_reset_correct [OF demo_run2, of "arena_mark 7 (demo_arena_at 24 1)" "[((1, 0), 24)]"] by simp

text \<open>
  C5: An allocation fails only for a size of zero, when the size or the totals of the arena would
  overflow \<open>size_t\<close>, or when \<open>malloc\<close> gives no memory; a failed allocation leaves the arena as it was.
\<close>

theorem arena_alloc_null:
  assumes "arena_inv A" and "malloc_spec m" and "arena_alloc m A sz = (None, A')"
  shows "A' = A \<and>
    (sz = 0 \<or> sz > SIZE_MAX - 15 \<or>
     (let capacity = max (arena_default_block_size A) (sz + 15)
      in arena_block_count A = SIZE_MAX \<or> arena_capacity A > SIZE_MAX - capacity \<or>
         capacity > SIZE_MAX - sizeof_ArenaBlock \<or>
         m (map block_addr (arena_blocks A)) (sizeof_ArenaBlock + capacity) = None))"
  using assms
proof (cases rule: arena_alloc_cases)
  case null
  from null(3) have "sz = 0 \<or> arena_add_block m A sz = None"
    by (auto simp: arena_block_for_def split: option.splits if_splits)
  with null(2) show ?thesis
    by (auto simp: arena_add_block_def arena_required_capacity_def arena_alignment_def Let_def
        arena_block_create_def max_def split: option.splits if_splits)
qed simp

theorem arena_alloc_null_witness:
  "snd (arena_alloc (\<lambda>_ _. None) demo_arena 24) = demo_arena"
proof -
  have m: "malloc_spec (\<lambda>_ _. None)" by (simp add: malloc_spec_def)
  have "arena_alloc (\<lambda>_ _. None) demo_arena 24 = (None, demo_arena)"
    by (simp add: arena_eval demo_arena_def arena_init_def arena_zero_def)
  from arena_alloc_null [OF demo_arena_inv m this] this show ?thesis by simp
qed

end
