(* ===== verification/StringView.thy ===== *)
theory StringView
  imports Prelude "HOL-Library.Sublist"
begin

unbundle bit_operations_syntax

text \<open>
  The non-owning byte slices of \<open>src/src/string/string.c\<close> (lines 8 to 357). A \<open>StringView\<close> is a data
  pointer and a length; its pointer is either \<open>NULL\<close>, with an arbitrary length, or points to that many
  readable bytes, which the model carries. \<open>data + n\<close> is therefore \<open>drop n\<close> of the bytes.

  Operations that report through an output parameter return an option (\<open>None\<close> where the code returns
  \<open>false\<close>); the output pointers themselves are never \<open>NULL\<close> in the model.
\<close>

section \<open>Views\<close>

datatype StringView = NullView size_t | View "char list"

primrec sv_length :: "StringView \<Rightarrow> size_t" where
  "sv_length (NullView n) = n"
| "sv_length (View bs) = length bs"

primrec sv_bytes :: "StringView \<Rightarrow> char list" where
  "sv_bytes (NullView n) = []"
| "sv_bytes (View bs) = bs"

primrec sv_has_data :: "StringView \<Rightarrow> bool" where
  "sv_has_data (NullView n) = False"
| "sv_has_data (View bs) = True"

definition sv_zero :: StringView where
  "sv_zero = NullView 0"

definition sv :: "string \<Rightarrow> StringView" where
  "sv literal = View literal"

definition stringv_valid :: "StringView \<Rightarrow> bool" where
  "stringv_valid v \<longleftrightarrow> sv_length v = 0 \<or> sv_has_data v"

definition stringv_ascii_space :: "char \<Rightarrow> bool" where
  "stringv_ascii_space c \<longleftrightarrow> c = CHR '' '' \<or> c = CHR 0x09 \<or> c = CHR 0x0D \<or> c = CHR 0x0A \<or>
     c = CHR 0x0C \<or> c = CHR 0x0B"

definition stringv_ascii_lower :: "char \<Rightarrow> char" where
  "stringv_ascii_lower c =
     (if byte c \<ge> byte (CHR ''A'') \<and> byte c \<le> byte (CHR ''Z'')
      then char_of (byte c + (byte (CHR ''a'') - byte (CHR ''A''))) else c)"

text \<open>A C string is the bytes behind its pointer; \<open>strlen\<close> stops at the first NUL.\<close>

definition strlen :: "char list \<Rightarrow> nat" where
  "strlen s = length (takeWhile (\<lambda>c. c \<noteq> CHR 0x00) s)"

definition stringv_from_cstr :: "char list option \<Rightarrow> StringView" where
  "stringv_from_cstr p = (case p of None \<Rightarrow> sv_zero | Some s \<Rightarrow> View (take (strlen s) s))"

definition stringv_empty :: "StringView \<Rightarrow> bool" where
  "stringv_empty v \<longleftrightarrow> sv_length v = 0"

section \<open>Comparison\<close>

definition stringv_equal :: "StringView \<Rightarrow> StringView \<Rightarrow> bool" where
  "stringv_equal a b =
     (if \<not> stringv_valid a \<or> \<not> stringv_valid b \<or> sv_length a \<noteq> sv_length b then False
      else sv_length a = 0 \<or> memcmp (sv_bytes a) (sv_bytes b) (sv_length a) = 0)"

definition stringv_equal_ignore_case :: "StringView \<Rightarrow> StringView \<Rightarrow> bool" where
  "stringv_equal_ignore_case a b =
     (if \<not> stringv_valid a \<or> \<not> stringv_valid b \<or> sv_length a \<noteq> sv_length b then False
      else first_index (\<lambda>i. stringv_ascii_lower (sv_bytes a ! i) \<noteq>
                            stringv_ascii_lower (sv_bytes b ! i)) (sv_length a) = None)"

definition stringv_compare :: "StringView \<Rightarrow> StringView \<Rightarrow> int" where
  "stringv_compare a b =
     (if \<not> stringv_valid a \<or> \<not> stringv_valid b
      then of_bool (\<not> stringv_valid a) - of_bool (\<not> stringv_valid b)
      else let common_length = (if sv_length a < sv_length b then sv_length a else sv_length b);
               result = (if common_length = 0 then 0
                         else memcmp (sv_bytes a) (sv_bytes b) common_length)
           in if result \<noteq> 0 then (if result < 0 then -1 else 1)
              else if sv_length a = sv_length b then 0
              else if sv_length a < sv_length b then -1 else 1)"

definition stringv_starts_with :: "StringView \<Rightarrow> StringView \<Rightarrow> bool" where
  "stringv_starts_with v pre =
     (if \<not> stringv_valid v \<or> \<not> stringv_valid pre \<or> sv_length pre > sv_length v then False
      else sv_length pre = 0 \<or> memcmp (sv_bytes v) (sv_bytes pre) (sv_length pre) = 0)"

definition stringv_ends_with :: "StringView \<Rightarrow> StringView \<Rightarrow> bool" where
  "stringv_ends_with v suf =
     (if \<not> stringv_valid v \<or> \<not> stringv_valid suf \<or> sv_length suf > sv_length v then False
      else sv_length suf = 0 \<or>
           memcmp (drop (sv_length v - sv_length suf) (sv_bytes v)) (sv_bytes suf)
             (sv_length suf) = 0)"

section \<open>Searching and slicing\<close>

definition stringv_find :: "StringView \<Rightarrow> StringView \<Rightarrow> size_t option" where
  "stringv_find v search =
     (if \<not> stringv_valid v \<or> \<not> stringv_valid search \<or> sv_length search > sv_length v then None
      else if sv_length search = 0 then Some 0
      else first_index
             (\<lambda>position. memcmp (drop position (sv_bytes v)) (sv_bytes search) (sv_length search) = 0)
             (sv_length v - sv_length search + 1))"

definition stringv_contains :: "StringView \<Rightarrow> StringView \<Rightarrow> bool" where
  "stringv_contains v search \<longleftrightarrow> stringv_find v search \<noteq> None"

definition stringv_find_char :: "StringView \<Rightarrow> char \<Rightarrow> size_t option" where
  "stringv_find_char v search =
     (if \<not> stringv_valid v then None
      else first_index (\<lambda>position. sv_bytes v ! position = search) (sv_length v))"

definition stringv_rfind_char :: "StringView \<Rightarrow> char \<Rightarrow> size_t option" where
  "stringv_rfind_char v search =
     (if \<not> stringv_valid v then None
      else last_index (\<lambda>position. sv_bytes v ! position = search) (sv_length v))"

definition stringv_slice :: "StringView \<Rightarrow> size_t \<Rightarrow> size_t \<Rightarrow> StringView" where
  "stringv_slice v start len =
     (if \<not> stringv_valid v \<or> start > sv_length v then sv_zero
      else let len' = (if len > sv_length v - start then sv_length v - start else len)
           in case v of NullView _ \<Rightarrow> NullView len' | View bs \<Rightarrow> View (take len' (drop start bs)))"

definition stringv_from :: "StringView \<Rightarrow> size_t \<Rightarrow> StringView" where
  "stringv_from v start =
     (if start > sv_length v then sv_zero else stringv_slice v start (sv_length v - start))"

definition stringv_trim_left :: "StringView \<Rightarrow> StringView" where
  "stringv_trim_left v =
     (if \<not> stringv_valid v then sv_zero
      else let start = (case first_index (\<lambda>i. \<not> stringv_ascii_space (sv_bytes v ! i)) (sv_length v) of
                          None \<Rightarrow> sv_length v | Some i \<Rightarrow> i)
           in stringv_from v start)"

definition stringv_trim_right :: "StringView \<Rightarrow> StringView" where
  "stringv_trim_right v =
     (if \<not> stringv_valid v then sv_zero
      else let len = (case last_index (\<lambda>i. \<not> stringv_ascii_space (sv_bytes v ! i)) (sv_length v) of
                        None \<Rightarrow> 0 | Some i \<Rightarrow> i + 1)
           in stringv_slice v 0 len)"

definition stringv_trim :: "StringView \<Rightarrow> StringView" where
  "stringv_trim v = stringv_trim_right (stringv_trim_left v)"

definition stringv_split_once :: "StringView \<Rightarrow> StringView \<Rightarrow> (StringView \<times> StringView) option" where
  "stringv_split_once v separator =
     (if sv_length separator = 0 then None
      else case stringv_find v separator of
        None \<Rightarrow> None
      | Some index \<Rightarrow>
          Some (stringv_slice v 0 index, stringv_from v (index + sv_length separator)))"

definition stringv_split_once_char :: "StringView \<Rightarrow> char \<Rightarrow> (StringView \<times> StringView) option" where
  "stringv_split_once_char v separator =
     (case stringv_find_char v separator of
        None \<Rightarrow> None
      | Some index \<Rightarrow> Some (stringv_slice v 0 index, stringv_from v (index + 1)))"

definition stringv_remove_prefix :: "StringView \<Rightarrow> StringView \<Rightarrow> StringView" where
  "stringv_remove_prefix v pre =
     (if stringv_starts_with v pre then stringv_from v (sv_length pre) else v)"

definition stringv_remove_suffix :: "StringView \<Rightarrow> StringView \<Rightarrow> StringView" where
  "stringv_remove_suffix v suf =
     (if stringv_ends_with v suf then stringv_slice v 0 (sv_length v - sv_length suf) else v)"

section \<open>Parsing\<close>

definition INT64_MAX :: nat where
  "INT64_MAX = 9223372036854775807"

fun stringv_parse_digits :: "nat \<Rightarrow> char list \<Rightarrow> nat \<Rightarrow> nat option" where
  "stringv_parse_digits limit [] parsed = Some parsed"
| "stringv_parse_digits limit (c # cs) parsed =
     (if byte c < byte (CHR ''0'') \<or> byte c > byte (CHR ''9'') then None
      else let digit = byte c - byte (CHR ''0'')
           in if parsed > sz_sub limit digit div 10 then None
              else stringv_parse_digits limit cs (sz_add (sz_mul parsed 10) digit))"

definition stringv_parse_unsigned :: "StringView \<Rightarrow> nat \<Rightarrow> bool \<Rightarrow> (bool \<times> nat) option" where
  "stringv_parse_unsigned v limit allow_sign =
     (if \<not> stringv_valid v \<or> sv_length v = 0 then None
      else let sign = allow_sign \<and> (sv_bytes v ! 0 = CHR ''-'' \<or> sv_bytes v ! 0 = CHR ''+'');
               is_negative = (sign \<and> sv_bytes v ! 0 = CHR ''-'');
               index = (if sign then 1 else 0)
           in if index = sv_length v \<or> (is_negative \<and> \<not> allow_sign) then None
              else map_option (\<lambda>parsed. (is_negative, parsed))
                     (stringv_parse_digits limit (drop index (sv_bytes v)) 0))"

definition stringv_parse_int64 :: "StringView \<Rightarrow> int option" where
  "stringv_parse_int64 v =
     (if \<not> stringv_valid v \<or> sv_length v = 0 then None
      else let limit = (if sv_bytes v ! 0 = CHR ''-'' then INT64_MAX + 1 else INT64_MAX)
           in case stringv_parse_unsigned v limit True of
                None \<Rightarrow> None
              | Some (negative, parsed) \<Rightarrow>
                  Some (if negative
                        then (if parsed = INT64_MAX + 1 then - int INT64_MAX - 1 else - int parsed)
                        else int parsed))"

definition stringv_parse_int :: "StringView \<Rightarrow> int option" where
  "stringv_parse_int v =
     (case stringv_parse_int64 v of
        None \<Rightarrow> None
      | Some parsed \<Rightarrow> if parsed < - int INT_MAX - 1 \<or> parsed > int INT_MAX then None else Some parsed)"

definition stringv_parse_size :: "StringView \<Rightarrow> size_t option" where
  "stringv_parse_size v = map_option snd (stringv_parse_unsigned v SIZE_MAX False)"

definition stringv_parse_bool :: "StringView \<Rightarrow> bool option" where
  "stringv_parse_bool v =
     (if stringv_equal v (sv ''true'') \<or> stringv_equal v (sv ''1'') then Some True
      else if stringv_equal v (sv ''false'') \<or> stringv_equal v (sv ''0'') then Some False
      else None)"

section \<open>Hashing\<close>

fun stringv_hash_bytes :: "64 word \<Rightarrow> char list \<Rightarrow> 64 word" where
  "stringv_hash_bytes hash [] = hash"
| "stringv_hash_bytes hash (c # cs) =
     stringv_hash_bytes ((hash XOR of_nat (byte c)) * 1099511628211) cs"

definition stringv_hash :: "StringView \<Rightarrow> 64 word" where
  "stringv_hash v =
     (if \<not> stringv_valid v then 0 else stringv_hash_bytes 14695981039346656037 (sv_bytes v))"

section \<open>The operations on readable views\<close>

text \<open>
  Each operation on a view with data is a function of its bytes. The collection \<open>view_simps\<close> holds
  these readings, so that the components that parse with views compute on lists.
\<close>

lemma view_basic [view_simps]:
  "stringv_valid (View a)" "stringv_valid (NullView n) \<longleftrightarrow> n = 0" "stringv_valid sv_zero"
  "sv s = View s" "stringv_empty (View a) \<longleftrightarrow> a = []" "stringv_empty sv_zero"
  "sv_length sv_zero = 0" "sv_bytes sv_zero = []"
  by (simp_all add: stringv_valid_def sv_zero_def sv_def stringv_empty_def)

lemma view_equal [view_simps]: "stringv_equal (View a) (View b) \<longleftrightarrow> a = b"
  using memcmp_eq_0 [of "length a" a b] by (auto simp: stringv_equal_def view_simps)

lemma view_equal_null [view_simps]:
  "stringv_equal (NullView n) (View b) \<longleftrightarrow> n = 0 \<and> b = []"
  "stringv_equal (View b) (NullView n) \<longleftrightarrow> n = 0 \<and> b = []"
  "stringv_equal (NullView n) (NullView m) \<longleftrightarrow> n = 0 \<and> m = 0"
  by (auto simp: stringv_equal_def view_simps)

lemma view_equal_ignore_case [view_simps]:
  "stringv_equal_ignore_case (View a) (View b) \<longleftrightarrow> map stringv_ascii_lower a = map stringv_ascii_lower b"
  by (auto simp: stringv_equal_ignore_case_def view_simps loop_simps list_eq_iff_nth_eq)

lemma view_starts_with [view_simps]: "stringv_starts_with (View a) (View p) \<longleftrightarrow> prefix p a"
proof (cases "length p \<le> length a")
  case True
  then have "memcmp a p (length p) = 0 \<longleftrightarrow> take (length p) a = p"
    using memcmp_eq_0 [of "length p" a p] by simp
  with True show ?thesis
    by (auto simp: stringv_starts_with_def view_simps prefix_def) (metis append_take_drop_id)
next
  case False
  then show ?thesis by (auto simp: stringv_starts_with_def view_simps dest: prefix_length_le)
qed

lemma view_ends_with [view_simps]: "stringv_ends_with (View a) (View p) \<longleftrightarrow> suffix p a"
proof (cases "length p \<le> length a")
  case True
  then have "memcmp (drop (length a - length p) a) p (length p) = 0 \<longleftrightarrow> drop (length a - length p) a = p"
    using memcmp_eq_0 [of "length p" "drop (length a - length p) a" p] by simp
  with True show ?thesis
    by (auto simp: stringv_ends_with_def view_simps suffix_def) (metis append_take_drop_id)
next
  case False
  then show ?thesis by (auto simp: stringv_ends_with_def view_simps dest: suffix_length_le)
qed

lemma view_slice [view_simps]:
  "stringv_slice (View a) start len = (if start \<le> length a then View (take len (drop start a)) else sv_zero)"
  by (auto simp: stringv_slice_def view_simps Let_def)

lemma view_from [view_simps]:
  "stringv_from (View a) start = (if start \<le> length a then View (drop start a) else sv_zero)"
  by (auto simp: stringv_from_def view_simps)

text \<open>\<open>search\<close> occurs in \<open>v\<close> at a position.\<close>

definition occurs_at :: "char list \<Rightarrow> char list \<Rightarrow> nat \<Rightarrow> bool" where
  "occurs_at search v i \<longleftrightarrow> i \<le> length v \<and> prefix search (drop i v)"

lemma occurs_at_bound: "occurs_at s v i \<Longrightarrow> i + length s \<le> length v"
  by (auto simp: occurs_at_def dest!: prefix_length_le)

lemma occurs_at_iff: "occurs_at s v i \<longleftrightarrow> (\<exists>l r. v = l @ s @ r \<and> length l = i)"
proof
  assume o: "occurs_at s v i"
  then obtain r where "drop i v = s @ r" by (auto simp: occurs_at_def prefix_def)
  then have "v = take i v @ s @ r" by (metis append_take_drop_id)
  moreover have "length (take i v) = i" using o by (simp add: occurs_at_def)
  ultimately show "\<exists>l r. v = l @ s @ r \<and> length l = i" by blast
qed (auto simp: occurs_at_def)

lemma occurs_at_memcmp:
  assumes "i + length s \<le> length v"
  shows "memcmp (drop i v) s (length s) = 0 \<longleftrightarrow> occurs_at s v i"
proof -
  have "memcmp (drop i v) s (length s) = 0 \<longleftrightarrow> take (length s) (drop i v) = s"
    using memcmp_eq_0 [of "length s" "drop i v" s] assms by simp
  also have "\<dots> \<longleftrightarrow> prefix s (drop i v)"
    by (metis append_take_drop_id append_eq_conv_conj prefix_def)
  finally show ?thesis using assms by (simp add: occurs_at_def)
qed

lemma view_find_Some:
  "stringv_find (View v) (View s) = Some i \<longleftrightarrow> occurs_at s v i \<and> (\<forall>j<i. \<not> occurs_at s v j)"
proof (cases "s = []")
  case True
  then show ?thesis by (auto simp: stringv_find_def view_simps occurs_at_def)
next
  case False
  show ?thesis
  proof (cases "length s \<le> length v")
    case True
    have bound: "i < length v - length s + 1 \<longleftrightarrow> i + length s \<le> length v" for i using True by linarith
    have "stringv_find (View v) (View s) =
          first_index (\<lambda>i. memcmp (drop i v) s (length s) = 0) (length v - length s + 1)"
      using True False by (simp add: stringv_find_def view_simps)
    also have "\<dots> = first_index (occurs_at s v) (length v - length s + 1)"
      by (rule first_index_cong) (auto simp only: bound occurs_at_memcmp)
    finally show ?thesis
      by (auto simp only: loop_simps bound dest: occurs_at_bound)
  next
    case False
    then show ?thesis by (auto simp: stringv_find_def view_simps dest: occurs_at_bound)
  qed
qed

lemma view_find_None: "stringv_find (View v) (View s) = None \<longleftrightarrow> (\<forall>i. \<not> occurs_at s v i)"
proof
  assume n: "stringv_find (View v) (View s) = None"
  show "\<forall>i. \<not> occurs_at s v i"
  proof (rule ccontr)
    assume "\<not> (\<forall>i. \<not> occurs_at s v i)"
    then obtain i where "occurs_at s v i" "\<forall>j<i. \<not> occurs_at s v j"
      using exists_least_iff [of "occurs_at s v"] by blast
    then show False using n view_find_Some [of v s i] by simp
  qed
next
  assume "\<forall>i. \<not> occurs_at s v i"
  then show "stringv_find (View v) (View s) = None"
    using view_find_Some [of v s] by (cases "stringv_find (View v) (View s)") auto
qed

lemma view_contains [view_simps]:
  "stringv_contains (View v) (View s) \<longleftrightarrow> (\<exists>l r. v = l @ s @ r)"
  unfolding stringv_contains_def view_find_None occurs_at_iff by auto

lemma view_find_char_Some:
  "stringv_find_char (View v) c = Some i \<longleftrightarrow> (\<exists>l r. v = l @ c # r \<and> c \<notin> set l \<and> length l = i)"
proof
  assume "stringv_find_char (View v) c = Some i"
  then have i: "i < length v" "v ! i = c" "\<forall>j<i. v ! j \<noteq> c"
    by (auto simp: stringv_find_char_def view_simps loop_simps)
  then have "v = take i v @ c # drop (Suc i) v" by (metis id_take_nth_drop)
  moreover have "c \<notin> set (take i v)" using i by (auto simp: in_set_conv_nth)
  ultimately show "\<exists>l r. v = l @ c # r \<and> c \<notin> set l \<and> length l = i"
    using i by (intro exI [of _ "take i v"] exI [of _ "drop (Suc i) v"]) auto
qed (auto simp: stringv_find_char_def view_simps loop_simps nth_append)

lemma view_find_char_None [view_simps]: "stringv_find_char (View v) c = None \<longleftrightarrow> c \<notin> set v"
  by (auto simp: stringv_find_char_def view_simps loop_simps in_set_conv_nth)

lemma view_split_once_char [view_simps]:
  "stringv_split_once_char (View v) c =
     (if c \<in> set v then Some (View (takeWhile (\<lambda>x. x \<noteq> c) v), View (tl (dropWhile (\<lambda>x. x \<noteq> c) v)))
      else None)"
proof (cases "c \<in> set v")
  case True
  then obtain l r where v: "v = l @ c # r" "c \<notin> set l" by (meson split_list_first)
  then have "stringv_find_char (View v) c = Some (length l)" by (auto simp: view_find_char_Some)
  moreover have "takeWhile (\<lambda>x. x \<noteq> c) v = l" "dropWhile (\<lambda>x. x \<noteq> c) v = c # r"
    using v by simp_all
  ultimately show ?thesis using v by (simp add: stringv_split_once_char_def view_simps)
next
  case False
  then have "stringv_find_char (View v) c = None" by (simp add: view_find_char_None)
  then show ?thesis using False by (simp add: stringv_split_once_char_def)
qed

lemma view_rfind_char [view_simps]: "stringv_rfind_char (View v) c = None \<longleftrightarrow> c \<notin> set v"
  by (auto simp: stringv_rfind_char_def view_simps loop_simps in_set_conv_nth)

lemma view_rfind_char_Some:
  "stringv_rfind_char (View v) c = Some i \<longleftrightarrow> (\<exists>l r. v = l @ c # r \<and> c \<notin> set r \<and> length l = i)"
proof
  assume "stringv_rfind_char (View v) c = Some i"
  then have i: "i < length v" "v ! i = c" "\<forall>j. i < j \<and> j < length v \<longrightarrow> v ! j \<noteq> c"
    by (auto simp: stringv_rfind_char_def view_simps loop_simps)
  then have "v = take i v @ c # drop (Suc i) v" by (metis id_take_nth_drop)
  moreover have "c \<notin> set (drop (Suc i) v)" using i by (auto simp: in_set_conv_nth)
  ultimately show "\<exists>l r. v = l @ c # r \<and> c \<notin> set r \<and> length l = i"
    using i by (intro exI [of _ "take i v"] exI [of _ "drop (Suc i) v"]) auto
qed (auto simp: stringv_rfind_char_def view_simps loop_simps nth_append nth_Cons'
        intro: nth_mem)

lemma view_trim_left [view_simps]:
  "stringv_trim_left (View v) = View (dropWhile stringv_ascii_space v)"
proof -
  define n where "n = length (takeWhile stringv_ascii_space v)"
  have "(case first_index (\<lambda>i. \<not> stringv_ascii_space (v ! i)) (length v) of
          None \<Rightarrow> length v | Some i \<Rightarrow> i) = n"
  proof (cases "first_index (\<lambda>i. \<not> stringv_ascii_space (v ! i)) (length v)")
    case None
    then have "\<forall>x\<in>set v. stringv_ascii_space x" by (auto simp: loop_simps in_set_conv_nth)
    then show ?thesis using None by (simp add: n_def takeWhile_eq_all_conv [THEN iffD2])
  next
    case (Some i)
    then have "i < length v" "\<not> stringv_ascii_space (v ! i)" "\<forall>j<i. stringv_ascii_space (v ! j)"
      by (auto simp: loop_simps)
    then have "n = i" unfolding n_def by (rule length_takeWhile_eq)
    then show ?thesis using Some by simp
  qed
  then have "stringv_trim_left (View v) = View (drop n v)"
    unfolding stringv_trim_left_def sv_length.simps sv_bytes.simps
    by (simp add: view_from n_def length_takeWhile_le view_basic(1))
  then show ?thesis by (simp add: n_def dropWhile_eq_drop)
qed

lemma last_index_length:
  "(case last_index (\<lambda>i. \<not> P (v ! i)) (length v) of None \<Rightarrow> 0 | Some i \<Rightarrow> i + 1) =
     length v - length (takeWhile P (rev v))"
proof (induction v rule: rev_induct)
  case (snoc x xs)
  have "last_index (\<lambda>i. \<not> P ((xs @ [x]) ! i)) (length xs) = last_index (\<lambda>i. \<not> P (xs ! i)) (length xs)"
    unfolding last_index_def by (rule find_cong) (auto simp: nth_append)
  with snoc show ?case by (auto simp: last_index_Suc split: option.splits)
qed simp

lemma view_trim_right [view_simps]:
  "stringv_trim_right (View v) = View (rev (dropWhile stringv_ascii_space (rev v)))"
proof -
  have "take (length v - length (takeWhile stringv_ascii_space (rev v))) v =
        rev (dropWhile stringv_ascii_space (rev v))"
    by (simp add: dropWhile_eq_drop rev_drop)
  then show ?thesis
    by (simp add: stringv_trim_right_def view_simps last_index_length)
qed

end
