(* ===== verification/Decimal.thy ===== *)
theory Decimal
  imports Prelude
begin

text \<open>
  Decimal numerals: the value of a string of digits, and the conversions \<open>%zu\<close>, \<open>%d\<close>, \<open>%lld\<close> of
  the C library's \<open>printf\<close>, which the code uses to write numbers into headers, pages and cookies.
\<close>

definition digit_char :: "nat \<Rightarrow> char" where
  "digit_char d = char_of (48 + d)"

definition is_digit :: "char \<Rightarrow> bool" where
  "is_digit c \<longleftrightarrow> 48 \<le> byte c \<and> byte c \<le> 57"

definition digit_value :: "char \<Rightarrow> nat" where
  "digit_value c = byte c - 48"

definition dec_from :: "nat \<Rightarrow> char list \<Rightarrow> nat" where
  "dec_from p ds = foldl (\<lambda>a c. a * 10 + digit_value c) p ds"

abbreviation dec :: "char list \<Rightarrow> nat" where
  "dec ds \<equiv> dec_from 0 ds"

fun show_nat :: "nat \<Rightarrow> string" where
  "show_nat n = (if n < 10 then [digit_char n] else show_nat (n div 10) @ [digit_char (n mod 10)])"

declare show_nat.simps [simp del]

definition show_int :: "int \<Rightarrow> string" where
  "show_int n = (if n < 0 then CHR ''-'' # show_nat (nat (- n)) else show_nat (nat n))"

lemma dec_from_simps [simp]:
  "dec_from p [] = p" "dec_from p (c # cs) = dec_from (p * 10 + digit_value c) cs"
  "dec_from p (xs @ ys) = dec_from (dec_from p xs) ys"
  by (simp_all add: dec_from_def)

lemma dec_from_ge: "p \<le> dec_from p ds"
proof (induction ds arbitrary: p)
  case (Cons c ds)
  have "p \<le> p * 10 + digit_value c" by simp
  also have "\<dots> \<le> dec_from (p * 10 + digit_value c) ds" by (rule Cons.IH)
  finally show ?case by simp
qed simp

lemma byte_digit_char: "d < 10 \<Longrightarrow> byte (digit_char d) = 48 + d"
  by (simp add: byte_def digit_char_def)

lemma is_digit_char [simp]: "d < 10 \<Longrightarrow> is_digit (digit_char d)"
  by (simp add: is_digit_def byte_digit_char)

lemma digit_value_char [simp]: "d < 10 \<Longrightarrow> digit_value (digit_char d) = d"
  by (simp add: digit_value_def byte_digit_char)

lemma show_nat_digits: "\<forall>c\<in>set (show_nat n). is_digit c"
  by (induction n rule: show_nat.induct) (subst show_nat.simps, auto)

lemma show_nat_not_Nil [simp]: "show_nat n \<noteq> []"
  by (subst show_nat.simps) simp

lemma dec_show_nat [simp]: "dec (show_nat n) = n"
proof (induction n rule: show_nat.induct)
  case (1 n)
  show ?case
  proof (cases "n < 10")
    case True
    then show ?thesis by (subst show_nat.simps) simp
  next
    case False
    then show ?thesis using 1 by (subst show_nat.simps) simp
  qed
qed

lemma is_digit_not_sign: "is_digit c \<Longrightarrow> c \<noteq> CHR ''-'' \<and> c \<noteq> CHR ''+''"
  by (auto simp: is_digit_def byte_def)

lemma show_nat_hd: "is_digit (hd (show_nat n))"
  using show_nat_digits [of n] by (simp add: hd_in_set)

end
