(* ===== verification/StringParse.thy ===== *)
theory StringParse
  imports StringView Decimal
begin

text \<open>
  What the searching, trimming, comparing and parsing operations of \<open>StringView\<close> promise: order of
  \<open>stringv_compare\<close>, splitting at the first separator, trimming, and the numerals accepted by the
  integer parsers, with the round trips from printed numbers.
\<close>

section \<open>Comparison is the lexicographic order of the bytes\<close>

definition byte_lex :: "char list \<Rightarrow> char list \<Rightarrow> bool" where
  "byte_lex a b \<longleftrightarrow> (map byte a, map byte b) \<in> lexord {(x, y). x < y}"

lemma byte_lex_simps [simp]:
  "\<not> byte_lex xs []" "byte_lex [] (b # bs)"
  "byte_lex (a # u) (b # bs) \<longleftrightarrow> byte a < byte b \<or> a = b \<and> byte_lex u bs"
  by (auto simp: byte_lex_def)

lemma compare_lists:
  "stringv_compare (View a) (View b) = (if a = b then 0 else if byte_lex a b then -1 else 1)"
proof (induction a arbitrary: b)
  case Nil
  then show ?case by (cases b) (auto simp: stringv_compare_def view_simps)
next
  case (Cons x a)
  show ?case
  proof (cases b)
    case Nil
    then show ?thesis by (simp add: stringv_compare_def view_simps)
  next
    case (Cons y b')
    show ?thesis
    proof (cases "x = y")
      case True
      have "stringv_compare (View (x # a)) (View (x # b')) = stringv_compare (View a) (View b')"
        by (simp add: stringv_compare_def view_simps Let_def)
      then show ?thesis using Cons.IH [of b'] True Cons by simp
    next
      case False
      then have "byte x \<noteq> byte y" by simp
      then show ?thesis using False Cons
        by (simp add: stringv_compare_def view_simps Let_def)
    qed
  qed
qed

section \<open>Digits\<close>

lemma parse_digits_spec:
  assumes "9 \<le> limit" "limit \<le> SIZE_MAX" "parsed \<le> limit"
  shows "stringv_parse_digits limit cs parsed =
    (if (\<forall>c\<in>set cs. is_digit c) \<and> dec_from parsed cs \<le> limit then Some (dec_from parsed cs) else None)"
  using assms(3)
proof (induction cs arbitrary: parsed)
  case (Cons c cs)
  show ?case
  proof (cases "is_digit c")
    case True
    define d where "d = digit_value c"
    have d: "byte c - byte (CHR ''0'') = d" "d \<le> 9" using True
      by (auto simp: d_def digit_value_def is_digit_def byte_def)
    have range: "\<not> (byte c < byte (CHR ''0'') \<or> byte c > byte (CHR ''9''))" using True
      by (auto simp: is_digit_def byte_def)
    have sub: "sz_sub limit d = limit - d" using d assms by (simp add: sz_sub_exact)
    have fits: "parsed > (limit - d) div 10 \<longleftrightarrow> parsed * 10 + d > limit" using d assms by linarith
    show ?thesis
    proof (cases "parsed * 10 + d > limit")
      case True
      then have "dec_from (parsed * 10 + d) cs > limit"
        using dec_from_ge [of "parsed * 10 + d" cs] by linarith
      then show ?thesis using True range d sub fits by (simp add: d_def)
    next
      case False
      then have "sz_mul parsed 10 = parsed * 10" "sz_add (parsed * 10) d = parsed * 10 + d"
        using assms by (simp_all add: sz_mul_exact sz_add_exact)
      then show ?thesis using False range d sub fits Cons.IH [of "parsed * 10 + d"] \<open>is_digit c\<close>
        by (simp add: d_def)
    qed
  next
    case False
    then show ?thesis by (auto simp: is_digit_def byte_def)
  qed
qed simp

declare stringv_parse_digits.simps(2) [simp del]

lemma limits: "9 \<le> INT64_MAX" "INT64_MAX \<le> SIZE_MAX" "INT64_MAX + 1 \<le> SIZE_MAX" "9 \<le> SIZE_MAX"
  by (simp_all add: INT64_MAX_def SIZE_MAX_def)

definition numeral_of :: "char list \<Rightarrow> nat \<Rightarrow> bool" where
  "numeral_of ds n \<longleftrightarrow> ds \<noteq> [] \<and> (\<forall>c\<in>set ds. is_digit c) \<and> dec ds = n"

lemma parse_unsigned_plain:
  assumes "9 \<le> limit" "limit \<le> SIZE_MAX"
  shows "stringv_parse_unsigned (View v) limit False = Some (neg, n) \<longleftrightarrow>
    \<not> neg \<and> numeral_of v n \<and> n \<le> limit"
  by (auto simp: stringv_parse_unsigned_def view_simps parse_digits_spec assms numeral_of_def
      split: if_splits)

lemma parse_unsigned_signed:
  assumes "9 \<le> limit" "limit \<le> SIZE_MAX"
  shows "stringv_parse_unsigned (View (c # cs)) limit True = Some (neg, n) \<longleftrightarrow>
    (neg = (c = CHR ''-'')) \<and> n \<le> limit \<and>
    numeral_of (if c = CHR ''-'' \<or> c = CHR ''+'' then cs else c # cs) n"
  by (auto simp: stringv_parse_unsigned_def view_simps parse_digits_spec assms numeral_of_def
      split: if_splits)

lemma parse_int64_Cons:
  "stringv_parse_int64 (View (c # cs)) = Some n \<longleftrightarrow>
     (if c = CHR ''-'' then \<exists>k. numeral_of cs k \<and> k \<le> INT64_MAX + 1 \<and> n = - int k
      else \<exists>k. numeral_of (if c = CHR ''+'' then cs else c # cs) k \<and> k \<le> INT64_MAX \<and> n = int k)"
proof -
  define limit where "limit = (if c = CHR ''-'' then INT64_MAX + 1 else INT64_MAX)"
  have l: "9 \<le> limit" "limit \<le> SIZE_MAX" using limits by (auto simp: limit_def)
  have u: "stringv_parse_int64 (View (c # cs)) =
    (case stringv_parse_unsigned (View (c # cs)) limit True of
       None \<Rightarrow> None
     | Some (negative, parsed) \<Rightarrow> Some (if negative then - int parsed else int parsed))"
    unfolding stringv_parse_int64_def Let_def sv_bytes.simps nth_Cons_0 limit_def
    by (rule trans [OF if_not_P]) (auto simp: view_simps simp del: of_nat_add split: option.splits)
  show ?thesis
  proof (cases "c = CHR ''-''")
    case True
    have "stringv_parse_int64 (View (c # cs)) = Some n \<longleftrightarrow>
          (\<exists>neg k. stringv_parse_unsigned (View (c # cs)) limit True = Some (neg, k) \<and>
                   n = (if neg then - int k else int k))"
      unfolding u by (auto split: option.splits)
    also have "\<dots> \<longleftrightarrow> (\<exists>k. numeral_of cs k \<and> k \<le> limit \<and> n = - int k)"
      unfolding parse_unsigned_signed [OF l] using True by auto
    finally show ?thesis using True by (simp add: limit_def)
  next
    case False
    have "stringv_parse_int64 (View (c # cs)) = Some n \<longleftrightarrow>
          (\<exists>neg k. stringv_parse_unsigned (View (c # cs)) limit True = Some (neg, k) \<and>
                   n = (if neg then - int k else int k))"
      unfolding u by (auto split: option.splits)
    also have "\<dots> \<longleftrightarrow> (\<exists>k. numeral_of (if c = CHR ''+'' then cs else c # cs) k \<and> k \<le> limit \<and> n = int k)"
      unfolding parse_unsigned_signed [OF l] using False by auto
    finally show ?thesis using False by (simp add: limit_def)
  qed
qed

lemma parse_int64_Nil [simp]: "stringv_parse_int64 (View []) = None"
  by (simp add: stringv_parse_int64_def)

lemma numeral_show_nat: "numeral_of (show_nat n) n"
  using show_nat_digits by (simp add: numeral_of_def)

lemma parse_int64_show_int:
  assumes "- int INT64_MAX - 1 \<le> n" "n \<le> int INT64_MAX"
  shows "stringv_parse_int64 (View (show_int n)) = Some n"
proof (cases "n < 0")
  case True
  then have "nat (- n) \<le> INT64_MAX + 1" "n = - int (nat (- n))" using assms by auto
  then show ?thesis using True numeral_show_nat [of "nat (- n)"]
    by (auto simp: show_int_def parse_int64_Cons)
next
  case False
  then obtain c cs where s: "show_nat (nat n) = c # cs" by (meson neq_Nil_conv show_nat_not_Nil)
  then have "is_digit c" using show_nat_hd [of "nat n"] by simp
  then have "c \<noteq> CHR ''-''" "c \<noteq> CHR ''+''" using is_digit_not_sign by auto
  moreover have "numeral_of (c # cs) (nat n)" using numeral_show_nat [of "nat n"] s by simp
  ultimately show ?thesis using False assms
    by (auto simp: show_int_def s parse_int64_Cons intro!: exI [of _ "nat n"])
qed

lemma parse_size_iff: "stringv_parse_size (View v) = Some n \<longleftrightarrow> numeral_of v n \<and> n \<le> SIZE_MAX"
proof -
  have "stringv_parse_size (View v) = Some n \<longleftrightarrow>
        (\<exists>neg. stringv_parse_unsigned (View v) SIZE_MAX False = Some (neg, n))"
    by (auto simp: stringv_parse_size_def)
  then show ?thesis
    unfolding parse_unsigned_plain [OF limits(4) order_refl] by auto
qed

section \<open>Trimming\<close>

lemma trim_view: "stringv_trim (View v) =
    View (rev (dropWhile stringv_ascii_space (rev (dropWhile stringv_ascii_space v))))"
  by (simp add: stringv_trim_def view_simps)

lemma rev_dropWhile_split:
  "\<exists>post. xs = rev (dropWhile P (rev xs)) @ post \<and> (\<forall>c\<in>set post. P c)"
proof -
  have "rev xs = takeWhile P (rev xs) @ dropWhile P (rev xs)" by simp
  then have "xs = rev (dropWhile P (rev xs)) @ rev (takeWhile P (rev xs))"
    by (metis rev_append rev_rev_ident)
  moreover have "\<forall>c\<in>set (rev (takeWhile P (rev xs))). P c" by (auto dest: set_takeWhileD)
  ultimately show ?thesis by blast
qed

lemma rev_dropWhile_last: "rev (dropWhile P (rev xs)) \<noteq> [] \<Longrightarrow> \<not> P (last (rev (dropWhile P (rev xs))))"
  by (simp add: last_rev hd_dropWhile)

section \<open>The properties\<close>

text \<open>C6: \<open>stringv_compare\<close> is the three-way lexicographic comparison of the unsigned bytes: it is 0
  exactly on equal views (as \<open>stringv_equal\<close> decides them), -1 exactly when the first view is
  smaller, it changes sign when its arguments are swapped, and being smaller is transitive.\<close>

theorem stringv_compare_order:
  "(stringv_compare (View a) (View b) = 0 \<longleftrightarrow> stringv_equal (View a) (View b)) \<and>
   (stringv_compare (View a) (View b) = -1 \<longleftrightarrow> byte_lex a b) \<and>
   stringv_compare (View b) (View a) = - stringv_compare (View a) (View b) \<and>
   (stringv_compare (View a) (View b) = -1 \<and> stringv_compare (View b) (View c) = -1 \<longrightarrow>
    stringv_compare (View a) (View c) = -1)"
proof -
  have tr: "trans {(x, y::nat). x < y}" by (auto simp: trans_def)
  have total: "byte_lex a b \<or> a = b \<or> byte_lex b a" for a b
    by (induction a arbitrary: b) (case_tac b, auto simp: nat_neq_iff)+
  have irrefl: "\<not> byte_lex a a" for a by (induction a) auto
  have trans: "byte_lex a b \<Longrightarrow> byte_lex b c \<Longrightarrow> byte_lex a c" for a b c
    unfolding byte_lex_def using lexord_trans [OF _ _ tr] by blast
  show ?thesis
    using total [of a b] irrefl [of a] irrefl [of c] trans [of a b a] trans [of a b c]
    by (auto simp: compare_lists view_simps)
qed

theorem stringv_compare_order_witness:
  "stringv_compare (View ''ab'') (View ''abc'') = -1 \<and> stringv_compare (View ''abc'') (View ''b'') = -1 \<and>
   stringv_compare (View ''ab'') (View ''b'') = -1"
  using stringv_compare_order [of "''ab''" "''abc''" "''b''"]
  by (simp add: compare_lists byte_def)

text \<open>C7: \<open>stringv_split_once\<close> succeeds exactly when a non-empty separator occurs, and then cuts the
  view at its first occurrence: left, separator and right make up the view again, and every other
  occurrence lies further right.\<close>

theorem stringv_split_once_first:
  "stringv_split_once (View v) (View sep) = Some (l, r) \<longleftrightarrow>
   sep \<noteq> [] \<and> (\<exists>a b. l = View a \<and> r = View b \<and> v = a @ sep @ b \<and>
                 (\<forall>a' b'. v = a' @ sep @ b' \<longrightarrow> length a \<le> length a'))"
proof -
  have "stringv_split_once (View v) (View sep) = Some (l, r) \<longleftrightarrow>
        sep \<noteq> [] \<and> (\<exists>i. stringv_find (View v) (View sep) = Some i \<and>
          l = View (take i v) \<and> r = View (drop (i + length sep) v))"
  proof (cases "stringv_find (View v) (View sep)")
    case (Some i)
    then have "i + length sep \<le> length v"
      using view_find_Some [of v sep i] occurs_at_bound [of sep v i] by simp
    then show ?thesis using Some by (auto simp: stringv_split_once_def view_simps)
  qed (simp add: stringv_split_once_def)
  also have "\<dots> \<longleftrightarrow> sep \<noteq> [] \<and> (\<exists>a b. l = View a \<and> r = View b \<and> v = a @ sep @ b \<and>
                 (\<forall>j<length a. \<not> occurs_at sep v j))"
    (is "?L \<longleftrightarrow> ?R")
  proof
    show "?L \<Longrightarrow> ?R" unfolding view_find_Some occurs_at_iff by fastforce
    show "?R \<Longrightarrow> ?L" unfolding view_find_Some occurs_at_iff
      by (metis append_assoc append_eq_conv_conj length_append)
  qed
  finally show ?thesis unfolding occurs_at_iff by (metis linorder_not_less)
qed

theorem stringv_split_once_first_witness:
  "stringv_split_once (View ''a, b, c'') (View '', '') = Some (View ''a'', View ''b, c'')"
  unfolding stringv_split_once_first
proof (intro conjI exI)
  show "\<forall>a' b'. ''a, b, c'' = a' @ '', '' @ b' \<longrightarrow> length ''a'' \<le> length a'"
    by (auto simp: Cons_eq_append_conv)
qed simp_all

text \<open>C8: \<open>stringv_trim\<close> cuts a view into white space, core and white space, where the core neither
  begins nor ends with white space, and trimming again changes nothing.\<close>

theorem stringv_trim_spec:
  "\<exists>pre core post. stringv_trim (View v) = View core \<and> v = pre @ core @ post \<and>
     (\<forall>c\<in>set (pre @ post). stringv_ascii_space c) \<and>
     (core \<noteq> [] \<longrightarrow> \<not> stringv_ascii_space (hd core) \<and> \<not> stringv_ascii_space (last core)) \<and>
     stringv_trim (View core) = View core"
proof -
  let ?P = stringv_ascii_space
  define mid where "mid = dropWhile ?P v"
  define core where "core = rev (dropWhile ?P (rev mid))"
  obtain post where post: "mid = core @ post" "\<forall>c\<in>set post. ?P c"
    using rev_dropWhile_split [of mid ?P] by (auto simp: core_def)
  have v: "v = takeWhile ?P v @ core @ post" 
    using post(1) takeWhile_dropWhile_id [of ?P v] by (simp add: mid_def)
  have last: "core \<noteq> [] \<Longrightarrow> \<not> ?P (last core)"
    using rev_dropWhile_last [of ?P mid] by (simp add: core_def)
  have hd: "\<not> ?P (hd core)" if "core \<noteq> []"
  proof -
    have "mid \<noteq> []" "hd mid = hd core" using post that by auto
    then show ?thesis using hd_dropWhile [of ?P v] by (simp add: mid_def)
  qed
  have "stringv_trim (View core) = View core"
  proof (cases "core = []")
    case False
    then have "dropWhile ?P core = core" "dropWhile ?P (rev core) = rev core"
      using hd last by (auto simp: dropWhile_eq_self_iff hd_rev)
    then show ?thesis by (simp add: trim_view)
  qed (simp add: trim_view)
  moreover have "stringv_trim (View v) = View core" by (simp add: trim_view core_def mid_def)
  moreover have "\<forall>c\<in>set (takeWhile ?P v @ post). ?P c" using post by (auto dest: set_takeWhileD)
  ultimately show ?thesis using v hd last by blast
qed

theorem stringv_trim_spec_witness:
  "\<exists>pre core post. stringv_trim (View '' a b '') = View core \<and> '' a b '' = pre @ core @ post \<and>
     core = ''a b'' \<and> \<not> stringv_ascii_space (hd core)"
proof -
  have "stringv_trim (View '' a b '') = View ''a b''"
    by (simp add: trim_view stringv_ascii_space_def)
  then show ?thesis using stringv_trim_spec [of "'' a b ''"] by auto
qed

text \<open>C9: \<open>stringv_parse_int64\<close> accepts exactly an optional sign followed by one or more decimal
  digits whose value lies in the range of \<open>int64_t\<close>, and returns that value; neither the
  accumulation in \<open>uint64_t\<close> nor the negation overflows.\<close>

theorem stringv_parse_int64_spec:
  "stringv_parse_int64 (View v) = Some n \<longleftrightarrow>
   (\<exists>sign ds k. v = sign @ ds \<and> sign \<in> {[], ''+'', ''-''} \<and> numeral_of ds k \<and>
      n = (if sign = ''-'' then - int k else int k) \<and> - (2 ^ 63) \<le> n \<and> n < 2 ^ 63)"
proof (cases v)
  case Nil
  then show ?thesis by (auto simp: numeral_of_def)
next
  case (Cons c cs)
  have max: "int INT64_MAX = 2 ^ 63 - 1" by (simp add: INT64_MAX_def)
  have sign: "numeral_of (d # ds) k \<Longrightarrow> d \<noteq> CHR ''-'' \<and> d \<noteq> CHR ''+''" for d ds k
    using is_digit_not_sign by (simp add: numeral_of_def)
  have nil: "\<not> numeral_of [] k" for k by (simp add: numeral_of_def)
  have parts: "(\<exists>sign ds. c # cs = sign @ ds \<and> sign \<in> {[], ''+'', ''-''} \<and> Q sign ds) \<longleftrightarrow>
      Q [] (c # cs) \<or> (c = CHR ''+'' \<and> Q ''+'' cs) \<or> (c = CHR ''-'' \<and> Q ''-'' cs)"
    (is "?L \<longleftrightarrow> ?R") for Q
  proof
    show "?L \<Longrightarrow> ?R" by (auto simp: Cons_eq_append_conv)
    have "\<exists>ds. c # cs = [c] @ ds \<and> Q [c] ds" if "Q [c] cs" using that by simp
    then show "?R \<Longrightarrow> ?L" by (metis append_Nil insertCI)
  qed
  have le: "k \<le> INT64_MAX \<longleftrightarrow> int k < 2 ^ 63" "k \<le> INT64_MAX + 1 \<longleftrightarrow> - (2 ^ 63) \<le> - int k" for k
    using max by linarith+
  have "(\<exists>sign ds k. v = sign @ ds \<and> sign \<in> {[], ''+'', ''-''} \<and> numeral_of ds k \<and>
      n = (if sign = ''-'' then - int k else int k) \<and> - (2 ^ 63) \<le> n \<and> n < 2 ^ 63) \<longleftrightarrow>
    (\<exists>sign ds. c # cs = sign @ ds \<and> sign \<in> {[], ''+'', ''-''} \<and> (\<exists>k. numeral_of ds k \<and>
      n = (if sign = ''-'' then - int k else int k) \<and> - (2 ^ 63) \<le> n \<and> n < 2 ^ 63))"
    unfolding Cons by blast
  also have "\<dots> \<longleftrightarrow> stringv_parse_int64 (View (c # cs)) = Some n"
    unfolding parts parse_int64_Cons le using sign nil by auto
  finally show ?thesis unfolding Cons by simp
qed

text \<open>C10: The integer parsers read back what \<open>printf\<close> wrote: every \<open>int64_t\<close> printed with
  \<open>%lld\<close>, every \<open>int\<close> printed with \<open>%d\<close> and every \<open>size_t\<close> printed with \<open>%zu\<close>.\<close>

theorem parse_printed_numbers:
  "(\<forall>n. - (2 ^ 63) \<le> n \<and> n < 2 ^ 63 \<longrightarrow> stringv_parse_int64 (View (show_int n)) = Some n) \<and>
   (\<forall>n. - (2 ^ 31) \<le> n \<and> n < 2 ^ 31 \<longrightarrow> stringv_parse_int (View (show_int n)) = Some n) \<and>
   (\<forall>n<2 ^ 64. stringv_parse_size (View (show_nat n)) = Some n)"
proof (intro conjI allI impI)
  fix n :: int assume "- (2 ^ 63) \<le> n \<and> n < 2 ^ 63"
  then show "stringv_parse_int64 (View (show_int n)) = Some n"
    by (intro parse_int64_show_int) (auto simp: INT64_MAX_def)
next
  fix n :: int assume n: "- (2 ^ 31) \<le> n \<and> n < 2 ^ 31"
  then have "stringv_parse_int64 (View (show_int n)) = Some n"
    by (intro parse_int64_show_int) (auto simp: INT64_MAX_def)
  then show "stringv_parse_int (View (show_int n)) = Some n"
    using n by (simp add: stringv_parse_int_def INT_MAX_def)
next
  fix n :: nat assume "n < 2 ^ 64"
  then show "stringv_parse_size (View (show_nat n)) = Some n"
    by (simp add: parse_size_iff numeral_show_nat SIZE_MAX_def)
qed

theorem parse_printed_numbers_witness:
  "stringv_parse_int64 (View (show_int (- (2 ^ 63)))) = Some (- (2 ^ 63)) \<and>
   stringv_parse_int (View (show_int (-7))) = Some (-7) \<and>
   stringv_parse_size (View (show_nat 18446744073709551615)) = Some 18446744073709551615"
  using parse_printed_numbers by simp

end
