(* ===== verification/Allocator.thy ===== *)
theory Allocator
  imports ArenaRuns
begin

text \<open>
  The allocator interface of \<open>src/src/memory/allocator.c\<close>: a table of functions over a context, with
  the arena and the heap as its two providers.

  A block of memory is handed to the client by value, as the list of its bytes; that distinct live
  blocks do not overlap is \<open>arena_regions_disjoint\<close> of the arena theory, and the standard's promise
  for \<open>malloc\<close>. The state \<open>'h\<close> of the provider (the arena, the heap) is passed explicitly. A function
  pointer is an option, \<open>None\<close> being \<open>NULL\<close>.
\<close>

type_synonym buffer = "char list"

record 'h Allocator =
  allocator_alloc :: "('h \<Rightarrow> size_t \<Rightarrow> buffer option \<times> 'h) option"
  allocator_realloc :: "('h \<Rightarrow> buffer option \<Rightarrow> size_t \<Rightarrow> size_t \<Rightarrow> buffer option \<times> 'h) option"
  allocator_free :: "('h \<Rightarrow> buffer \<Rightarrow> 'h) option"

definition allocator_zero :: "'h Allocator" where
  "allocator_zero = \<lparr>allocator_alloc = None, allocator_realloc = None, allocator_free = None\<rparr>"

text \<open>\<open>memcpy (destination + off, bytes)\<close> on a buffer.\<close>

definition mem_write :: "buffer \<Rightarrow> size_t \<Rightarrow> char list \<Rightarrow> buffer" where
  "mem_write d off bytes = take off d @ bytes @ drop (off + length bytes) d"

section \<open>The arena as a provider\<close>

definition arena_allocator_alloc :: "malloc_fn \<Rightarrow> Arena \<Rightarrow> size_t \<Rightarrow> buffer option \<times> Arena" where
  "arena_allocator_alloc m A sz =
     (case arena_alloc m A sz of
        (None, A') \<Rightarrow> (None, A')
      | (Some p, A') \<Rightarrow> (Some (arena_load A' p sz), A'))"

definition arena_realloc ::
    "malloc_fn \<Rightarrow> Arena \<Rightarrow> buffer option \<Rightarrow> size_t \<Rightarrow> size_t \<Rightarrow> buffer option \<times> Arena" where
  "arena_realloc m A memory old_size new_size =
     (case arena_allocator_alloc m A new_size of
        (None, A') \<Rightarrow> (None, A')
      | (Some replacement, A') \<Rightarrow>
          (case memory of
             None \<Rightarrow> (Some replacement, A')
           | Some bytes \<Rightarrow>
               if old_size \<noteq> 0
               then (Some (mem_write replacement 0
                       (take (if old_size < new_size then old_size else new_size) bytes)), A')
               else (Some replacement, A')))"

definition arena_allocator_free :: "Arena \<Rightarrow> buffer \<Rightarrow> Arena" where
  "arena_allocator_free A memory = A"

definition arena_allocator :: "malloc_fn \<Rightarrow> Arena Allocator" where
  "arena_allocator m =
     \<lparr>allocator_alloc = Some (arena_allocator_alloc m),
      allocator_realloc = Some (arena_realloc m),
      allocator_free = Some arena_allocator_free\<rparr>"

section \<open>The heap as a provider\<close>

text \<open>The C library's \<open>malloc\<close>, \<open>realloc\<close> and \<open>free\<close> over an abstract heap, and what it promises.\<close>

record 'h heap_functions =
  c_malloc :: "'h \<Rightarrow> size_t \<Rightarrow> buffer option \<times> 'h"
  c_realloc :: "'h \<Rightarrow> buffer option \<Rightarrow> size_t \<Rightarrow> buffer option \<times> 'h"
  c_free :: "'h \<Rightarrow> buffer \<Rightarrow> 'h"

definition heap_spec :: "'h heap_functions \<Rightarrow> bool" where
  "heap_spec H \<longleftrightarrow>
     (\<forall>h n d h'. c_malloc H h n = (Some d, h') \<longrightarrow> length d = n) \<and>
     (\<forall>h mem n d h'. c_realloc H h mem n = (Some d, h') \<longrightarrow>
        length d = n \<and>
        (\<forall>old. mem = Some old \<longrightarrow> take (min (length old) n) d = take (min (length old) n) old))"

definition heap_alloc :: "'h heap_functions \<Rightarrow> 'h \<Rightarrow> size_t \<Rightarrow> buffer option \<times> 'h" where
  "heap_alloc H h sz = c_malloc H h sz"

definition heap_realloc ::
    "'h heap_functions \<Rightarrow> 'h \<Rightarrow> buffer option \<Rightarrow> size_t \<Rightarrow> size_t \<Rightarrow> buffer option \<times> 'h" where
  "heap_realloc H h memory old_size new_size = c_realloc H h memory new_size"

definition heap_free :: "'h heap_functions \<Rightarrow> 'h \<Rightarrow> buffer \<Rightarrow> 'h" where
  "heap_free H h memory = c_free H h memory"

definition allocator_heap :: "'h heap_functions \<Rightarrow> 'h Allocator" where
  "allocator_heap H =
     \<lparr>allocator_alloc = Some (heap_alloc H), allocator_realloc = Some (heap_realloc H),
      allocator_free = Some (heap_free H)\<rparr>"

section \<open>The contract a client relies on\<close>

locale allocator_laws =
  fixes Alloc :: "'h Allocator" and hinv :: "'h \<Rightarrow> bool"
  assumes alloc_inv: "allocator_alloc Alloc = Some f \<Longrightarrow> hinv h \<Longrightarrow> f h n = (r, h') \<Longrightarrow> hinv h'"
    and alloc_length: "allocator_alloc Alloc = Some f \<Longrightarrow> hinv h \<Longrightarrow> f h n = (Some d, h') \<Longrightarrow> length d = n"
    and realloc_inv: "allocator_realloc Alloc = Some g \<Longrightarrow> hinv h \<Longrightarrow> g h mem old n = (r, h') \<Longrightarrow> hinv h'"
    and realloc_length:
      "allocator_realloc Alloc = Some g \<Longrightarrow> hinv h \<Longrightarrow> (\<And>b. mem = Some b \<Longrightarrow> old \<le> length b) \<Longrightarrow>
       g h mem old n = (Some d, h') \<Longrightarrow> length d = n"
    and realloc_keeps:
      "allocator_realloc Alloc = Some g \<Longrightarrow> hinv h \<Longrightarrow> old \<le> length b \<Longrightarrow> old \<le> n \<Longrightarrow>
       g h (Some b) old n = (Some d, h') \<Longrightarrow> take old d = take old b"
    and free_inv: "allocator_free Alloc = Some k \<Longrightarrow> hinv h \<Longrightarrow> hinv (k h blk)"

lemma length_mem_write [simp]: "off + length bytes \<le> length d \<Longrightarrow> length (mem_write d off bytes) = length d"
  by (simp add: mem_write_def)

lemma take_mem_write_0 [simp]: "take (length bytes) (mem_write d 0 bytes) = bytes"
  by (simp add: mem_write_def)

lemma arena_load_length:
  assumes "arena_inv A" "malloc_spec m" "arena_alloc m A sz = (Some p, A')"
  shows "length (arena_load A' p sz) = sz"
proof -
  obtain a off where p: "p = (a, off)" by (cases p)
  note inv' = arena_alloc_inv(1) [OF assms]
  obtain b where b: "b \<in> set (arena_blocks A')" "block_addr b = a" "off + sz \<le> block_used b"
    using arena_alloc_region(1) [OF assms(1,2) assms(3) [unfolded p]] by (auto simp: region_in_def)
  then have "chain_at a (arena_blocks A') = Some b"
    using chain_at_distinct arena_invD(2) [OF inv'] by blast
  moreover have "off + sz \<le> length (block_data b)"
    using arena_invD(3) [OF inv' b(1)] b(3) by (simp add: block_ok_def)
  ultimately show ?thesis by (simp add: arena_load_def p)
qed

lemma arena_allocator_alloc_laws:
  assumes "arena_inv A" "malloc_spec m" "arena_allocator_alloc m A sz = (r, A')"
  shows "arena_inv A'" and "\<And>d. r = Some d \<Longrightarrow> length d = sz"
  using assms arena_alloc_inv(1) [OF assms(1,2)] arena_load_length [OF assms(1,2)]
  by (auto simp: arena_allocator_alloc_def split: prod.splits option.splits)

lemma arena_realloc_laws:
  assumes "arena_inv A" "malloc_spec m" "arena_realloc m A mem old n = (r, A')"
  shows "arena_inv A'"
    and "\<And>d. r = Some d \<Longrightarrow> length d = n"
    and "\<And>d b. r = Some d \<Longrightarrow> mem = Some b \<Longrightarrow> old \<le> length b \<Longrightarrow> old \<le> n \<Longrightarrow> take old d = take old b"
proof -
  obtain x A1 where x: "arena_allocator_alloc m A n = (x, A1)" by fastforce
  note laws = arena_allocator_alloc_laws [OF assms(1,2) x]
  show "arena_inv A'" using assms(3) laws(1) x
    by (auto simp: arena_realloc_def split: option.splits if_splits)
  show "length d = n" if "r = Some d" for d using assms(3) laws(2) x that
    by (auto simp: arena_realloc_def split: option.splits if_splits)
  show "take old d = take old b" if "r = Some d" "mem = Some b" "old \<le> length b" "old \<le> n" for d b
    using assms(3) x that
    by (auto simp: arena_realloc_def mem_write_def min_def split: option.splits if_splits)
qed

interpretation arena_provider: allocator_laws "arena_allocator m" "\<lambda>A. malloc_spec m \<and> arena_inv A" for m
proof (unfold_locales, goal_cases)
  case (1 f h n r h')
  then show ?case by (auto simp: arena_allocator_def dest: arena_allocator_alloc_laws)
next
  case (2 f h n d h')
  then show ?case by (auto simp: arena_allocator_def dest: arena_allocator_alloc_laws)
next
  case (3 g h mem old n r h')
  then show ?case by (auto simp: arena_allocator_def dest: arena_realloc_laws)
next
  case (4 g h mem old n d h')
  then show ?case by (auto simp: arena_allocator_def dest: arena_realloc_laws(2))
next
  case (5 g h old b n d h')
  then show ?case by (auto simp: arena_allocator_def dest: arena_realloc_laws(3))
next
  case (6 k h blk)
  then show ?case by (auto simp: arena_allocator_def arena_allocator_free_def)
qed

lemma heap_spec_lengths:
  "heap_spec H \<Longrightarrow> c_malloc H h n = (Some d, h') \<Longrightarrow> length d = n"
  "heap_spec H \<Longrightarrow> c_realloc H h mem n = (Some d, h') \<Longrightarrow> length d = n"
  unfolding heap_spec_def by blast+

interpretation heap_provider: allocator_laws "allocator_heap H" "\<lambda>h. heap_spec H" for H
proof (unfold_locales, goal_cases)
  case (5 g h old b n d h')
  have "c_realloc H h (Some b) n = (Some d, h')"
    using 5(1,5) by (auto simp: allocator_heap_def heap_realloc_def)
  then have "take (min (length b) n) d = take (min (length b) n) b"
    using 5(2) unfolding heap_spec_def by blast
  then have "take old (take (min (length b) n) d) = take old (take (min (length b) n) b)" by simp
  then show ?case using 5(3,4) by (simp add: min_def split: if_splits)
next
  case (2 f h n d h')
  then show ?case by (auto simp: allocator_heap_def heap_alloc_def dest: heap_spec_lengths)
next
  case (4 g h mem old n d h')
  then show ?case by (auto simp: allocator_heap_def heap_realloc_def dest: heap_spec_lengths)
qed auto

text \<open>A heap that always has memory, to evaluate concrete cases.\<close>

definition demo_heap :: "unit heap_functions" where
  "demo_heap = \<lparr>c_malloc = (\<lambda>h n. (Some (replicate n (CHR 0x00)), h)),
     c_realloc = (\<lambda>h mem n. (Some (case mem of None \<Rightarrow> replicate n (CHR 0x00)
        | Some old \<Rightarrow> take n old @ replicate (n - length old) (CHR 0x00)), h)),
     c_free = (\<lambda>h mem. h)\<rparr>"

lemma demo_heap_spec: "heap_spec demo_heap"
  by (auto simp: heap_spec_def demo_heap_def split: option.splits)

end
