(* ===== verification/StringBuf.thy ===== *)
theory StringBuf
  imports Allocator StringView
begin

text \<open>
  The owning, growing, NUL-terminated \<open>String\<close> of \<open>src/src/string/string.c\<close> (lines 359 to 784).

  A string is its buffer (\<open>None\<close> for a \<open>NULL\<close> data pointer), its length, its capacity and its allocator;
  the allocator's state \<open>h\<close> is passed along. Every operation returns its boolean result, the string
  and the allocator state. A source view is either bytes outside the string's own buffer or a range of that buffer
  (\<open>Inside off len\<close>), the aliasing case the code detects with \<open>string_storage_offset\<close>. Where the
  code writes through a data pointer that may be \<open>NULL\<close>, the operation returns an option and \<open>None\<close>
  is that write.
\<close>

record 'h String =
  string_data :: "buffer option"
  string_length :: size_t
  string_capacity :: size_t
  string_allocator :: "'h Allocator"

datatype StringSource = Outside StringView | Inside size_t size_t

definition string_zero :: "'h String" where
  "string_zero = \<lparr>string_data = None, string_length = 0, string_capacity = 0,
                  string_allocator = allocator_zero\<rparr>"

text \<open>The bytes and the length of a source, as seen through the string's present buffer.\<close>

definition source_bytes :: "'h String \<Rightarrow> StringSource \<Rightarrow> char list" where
  "source_bytes s src =
     (case src of
        Outside v \<Rightarrow> sv_bytes v
      | Inside off len \<Rightarrow> (case string_data s of None \<Rightarrow> [] | Some d \<Rightarrow> take len (drop off d)))"

definition source_length :: "StringSource \<Rightarrow> size_t" where
  "source_length src = (case src of Outside v \<Rightarrow> sv_length v | Inside off len \<Rightarrow> len)"

definition source_valid :: "StringSource \<Rightarrow> bool" where
  "source_valid src = (case src of Outside v \<Rightarrow> stringv_valid v | Inside off len \<Rightarrow> True)"

definition string_storage_offset :: "'h String \<Rightarrow> StringSource \<Rightarrow> size_t option" where
  "string_storage_offset s src =
     (if string_data s = None \<or> string_capacity s = SIZE_MAX then None
      else case src of
        Outside v \<Rightarrow> None
      | Inside off len \<Rightarrow> if off > string_capacity s then None else Some off)"

definition string_rebase_view :: "'h String \<Rightarrow> StringSource \<Rightarrow> size_t option \<Rightarrow> char list" where
  "string_rebase_view s src inside =
     (case inside of
        None \<Rightarrow> source_bytes s src
      | Some off \<Rightarrow> source_bytes s (Inside off (source_length src)))"

definition string_put :: "'h String \<Rightarrow> size_t \<Rightarrow> char list \<Rightarrow> 'h String" where
  "string_put s off bytes = s\<lparr>string_data := map_option (\<lambda>d. mem_write d off bytes) (string_data s)\<rparr>"

definition string_new :: "'h Allocator \<Rightarrow> 'h String" where
  "string_new a = \<lparr>string_data = None, string_length = 0, string_capacity = 0, string_allocator = a\<rparr>"

definition string_as_view :: "'h String \<Rightarrow> StringView" where
  "string_as_view s =
     (case string_data s of None \<Rightarrow> sv_zero | Some d \<Rightarrow> View (take (string_length s) d))"

definition string_cstr :: "'h String \<Rightarrow> char list" where
  "string_cstr s = (case string_data s of None \<Rightarrow> [CHR 0x00] | Some d \<Rightarrow> d)"

definition string_empty :: "'h String \<Rightarrow> bool" where
  "string_empty s \<longleftrightarrow> string_length s = 0"

section \<open>Growing\<close>

text \<open>The doubling loop; the first argument bounds the number of rounds (\<open>None\<close>: not finished).\<close>

fun string_grow :: "nat \<Rightarrow> size_t \<Rightarrow> size_t \<Rightarrow> size_t option" where
  "string_grow rounds new_capacity capacity =
     (if \<not> new_capacity < capacity then Some new_capacity
      else if new_capacity > SIZE_MAX div 2 then Some capacity
      else case rounds of
        0 \<Rightarrow> None
      | Suc r \<Rightarrow> string_grow r (new_capacity * 2) capacity)"

declare string_grow.simps [simp del]

text \<open>The new buffer: reallocated, or allocated, filled with the old bytes and the old one freed.\<close>

definition string_new_buffer :: "'h String \<Rightarrow> 'h \<Rightarrow> size_t \<Rightarrow> size_t \<Rightarrow> buffer option \<times> 'h" where
  "string_new_buffer s h old_size allocation_size =
     (case allocator_realloc (string_allocator s) of
        Some realloc \<Rightarrow> realloc h (string_data s) old_size allocation_size
      | None \<Rightarrow>
          (case allocator_alloc (string_allocator s) of
             None \<Rightarrow> (None, h)
           | Some alloc \<Rightarrow>
               (case alloc h allocation_size of
                  (None, h1) \<Rightarrow> (None, h1)
                | (Some fresh, h1) \<Rightarrow>
                    (case string_data s of
                       None \<Rightarrow> (Some fresh, h1)
                     | Some old \<Rightarrow>
                         (Some (if old_size \<noteq> 0
                                then mem_write fresh 0 (take old_size old) else fresh),
                          case allocator_free (string_allocator s) of
                            None \<Rightarrow> h1 | Some free \<Rightarrow> free h1 old)))))"

definition string_reserve :: "'h String \<Rightarrow> 'h \<Rightarrow> size_t \<Rightarrow> bool \<times> 'h String \<times> 'h" where
  "string_reserve s h capacity =
     (if string_length s > string_capacity s then (False, s, h)
      else if capacity \<le> string_capacity s then (True, string_put s (string_length s) [CHR 0x00], h)
      else case string_grow 64 (if string_capacity s = 0 then 16 else string_capacity s) capacity of
        None \<Rightarrow> (False, s, h)
      | Some grown \<Rightarrow>
          (let new_capacity = (if grown = SIZE_MAX then capacity else grown)
           in if new_capacity > SIZE_MAX - 1 then (False, s, h)
              else if string_length s = SIZE_MAX then (False, s, h)
              else
                (let allocation_size = new_capacity + 1;
                     old_size = (if string_data s = None then 0 else string_length s + 1)
                 in case string_new_buffer s h old_size allocation_size of
                      (None, h') \<Rightarrow> (False, s, h')
                    | (Some new_data, h') \<Rightarrow>
                        (True,
                         string_put (s\<lparr>string_data := Some new_data, string_capacity := new_capacity\<rparr>)
                           (string_length s) [CHR 0x00], h'))))"

section \<open>Operations\<close>

definition string_destroy :: "'h String \<Rightarrow> 'h \<Rightarrow> 'h String \<times> 'h" where
  "string_destroy s h =
     (string_zero,
      case string_data s of
        None \<Rightarrow> h
      | Some d \<Rightarrow> (case allocator_free (string_allocator s) of None \<Rightarrow> h | Some free \<Rightarrow> free h d))"

definition string_from :: "'h Allocator \<Rightarrow> 'h \<Rightarrow> StringView \<Rightarrow> 'h String \<times> 'h" where
  "string_from a h v =
     (let s = string_new a
      in if \<not> stringv_valid v then (s, h)
         else case string_reserve s h (sv_length v) of
           (False, s1, h1) \<Rightarrow> (s1, h1)
         | (True, s1, h1) \<Rightarrow>
             (let s2 = (if sv_length v \<noteq> 0 then string_put s1 0 (sv_bytes v) else s1);
                  s3 = s2\<lparr>string_length := sv_length v\<rparr>
              in (string_put s3 (string_length s3) [CHR 0x00], h1)))"

definition string_append :: "'h String \<Rightarrow> 'h \<Rightarrow> StringSource \<Rightarrow> bool \<times> 'h String \<times> 'h" where
  "string_append s h src =
     (if \<not> source_valid src \<or> source_length src > sz_sub SIZE_MAX (string_length s) then (False, s, h)
      else if source_length src = 0 then (True, s, h)
      else
        (let required = string_length s + source_length src;
             inside = string_storage_offset s src
         in case string_reserve s h required of
              (False, s1, h1) \<Rightarrow> (False, s1, h1)
            | (True, s1, h1) \<Rightarrow>
                (let bytes = string_rebase_view s1 src inside;
                     s2 = (string_put s1 (string_length s1) bytes)\<lparr>string_length := required\<rparr>
                 in (True, string_put s2 (string_length s2) [CHR 0x00], h1))))"

definition string_append_char :: "'h String \<Rightarrow> 'h \<Rightarrow> char \<Rightarrow> bool \<times> 'h String \<times> 'h" where
  "string_append_char s h c = string_append s h (Outside (View [c]))"

definition string_append_cstr :: "'h String \<Rightarrow> 'h \<Rightarrow> char list option \<Rightarrow> bool \<times> 'h String \<times> 'h" where
  "string_append_cstr s h p = string_append s h (Outside (stringv_from_cstr p))"

text \<open>
  \<open>text\<close> is what \<open>vsnprintf\<close> produces for the format and its arguments (\<open>None\<close>: a negative result).
  With \<open>available\<close> bytes it writes the text and a NUL, cut to fit.
\<close>

definition string_append_format_v ::
    "'h String \<Rightarrow> 'h \<Rightarrow> char list option \<Rightarrow> (bool \<times> 'h String \<times> 'h) option" where
  "string_append_format_v s h text =
     (case text of
        None \<Rightarrow> Some (False, s, h)
      | Some written \<Rightarrow>
          (let result = length written; old_length = string_length s
           in if result > sz_sub SIZE_MAX old_length then Some (False, s, h)
              else case string_reserve s h (old_length + result) of
                (False, s1, h1) \<Rightarrow> Some (False, s1, h1)
              | (True, s1, h1) \<Rightarrow>
                  if string_data s1 = None then None
                  else
                    (let available = string_capacity s1 - old_length + 1;
                         s2 = string_put s1 old_length (take (available - 1) written @ [CHR 0x00])
                     in if result \<ge> available
                        then Some (False, string_put s2 old_length [CHR 0x00], h1)
                        else Some (True, s2\<lparr>string_length := old_length + result\<rparr>, h1))))"

definition string_format_v ::
    "'h Allocator \<Rightarrow> 'h \<Rightarrow> char list option \<Rightarrow> ('h String \<times> 'h) option" where
  "string_format_v a h text =
     (case string_append_format_v (string_new a) h text of
        None \<Rightarrow> None
      | Some (True, s, h1) \<Rightarrow> Some (s, h1)
      | Some (False, s, h1) \<Rightarrow> Some (string_destroy s h1))"

definition string_prepend :: "'h String \<Rightarrow> 'h \<Rightarrow> StringSource \<Rightarrow> bool \<times> 'h String \<times> 'h" where
  "string_prepend s h src =
     (if \<not> source_valid src \<or> source_length src > sz_sub SIZE_MAX (string_length s) then (False, s, h)
      else if source_length src = 0 then (True, s, h)
      else
        (let len = source_length src; old_length = string_length s;
             inside = string_storage_offset s src
         in case string_reserve s h (old_length + len) of
              (False, s1, h1) \<Rightarrow> (False, s1, h1)
            | (True, s1, h1) \<Rightarrow>
                if (case inside of None \<Rightarrow> False | Some off \<Rightarrow> off > SIZE_MAX - len) then (False, s1, h1)
                else
                  (let s2 = string_put s1 len (source_bytes s1 (Inside 0 (old_length + 1)));
                       bytes = (case inside of
                                  None \<Rightarrow> source_bytes s2 src
                                | Some off \<Rightarrow> source_bytes s2 (Inside (off + len) len));
                       s3 = (string_put s2 0 bytes)\<lparr>string_length := old_length + len\<rparr>
                   in (True, string_put s3 (string_length s3) [CHR 0x00], h1))))"

definition string_copy :: "'h String \<Rightarrow> 'h \<Rightarrow> StringSource \<Rightarrow> (bool \<times> 'h String \<times> 'h) option" where
  "string_copy s h src =
     (if \<not> source_valid src then Some (False, s, h)
      else
        (let inside = string_storage_offset s src
         in case string_reserve s h (source_length src) of
              (False, s1, h1) \<Rightarrow> Some (False, s1, h1)
            | (True, s1, h1) \<Rightarrow>
                (let bytes = string_rebase_view s1 src inside;
                     s2 = (if source_length src \<noteq> 0 then string_put s1 0 bytes else s1);
                     s3 = s2\<lparr>string_length := source_length src\<rparr>
                 in if string_data s3 = None then None
                    else Some (True, string_put s3 (string_length s3) [CHR 0x00], h1))))"

definition string_clear :: "'h String \<Rightarrow> 'h String" where
  "string_clear s = string_put (s\<lparr>string_length := 0\<rparr>) 0 [CHR 0x00]"

definition ascii_upper_char :: "char \<Rightarrow> char" where
  "ascii_upper_char c =
     (if byte (CHR ''a'') \<le> byte c \<and> byte c \<le> byte (CHR ''z'')
      then char_of (byte c - byte (CHR ''a'') + byte (CHR ''A'')) else c)"

definition ascii_lower_char :: "char \<Rightarrow> char" where
  "ascii_lower_char c =
     (if byte (CHR ''A'') \<le> byte c \<and> byte c \<le> byte (CHR ''Z'')
      then char_of (byte c - byte (CHR ''A'') + byte (CHR ''a'')) else c)"

definition string_upper :: "'h String \<Rightarrow> 'h String" where
  "string_upper s =
     string_put s 0 (map ascii_upper_char (source_bytes s (Inside 0 (string_length s))))"

definition string_lower :: "'h String \<Rightarrow> 'h String" where
  "string_lower s =
     string_put s 0 (map ascii_lower_char (source_bytes s (Inside 0 (string_length s))))"

definition string_remove :: "'h String \<Rightarrow> size_t \<Rightarrow> size_t \<Rightarrow> bool \<times> 'h String" where
  "string_remove s start len =
     (if start > string_length s then (False, s)
      else
        (let remaining = string_length s - start;
             len' = (if len > remaining then remaining else len)
         in if string_data s = None then (len' = 0, s)
            else (True, (string_put s start
                           (source_bytes s (Inside (start + len') (remaining - len' + 1))))
                          \<lparr>string_length := string_length s - len'\<rparr>)))"

text \<open>
  The loop of \<open>string_replace_build\<close>. Its outcome: \<open>Some (ok, result, h, found)\<close>, or \<open>None\<close> when the
  rounds are used up. A failed append has destroyed the result.
\<close>

fun string_replace_loop ::
    "nat \<Rightarrow> StringView \<Rightarrow> StringView \<Rightarrow> StringView \<Rightarrow> bool \<Rightarrow> 'h String \<Rightarrow> 'h \<Rightarrow> size_t \<Rightarrow> bool \<Rightarrow>
     (bool \<times> 'h String \<times> 'h \<times> bool) option" where
  "string_replace_loop rounds source search replacement replace_all result h cursor found =
     (if \<not> cursor \<le> sv_length source then Some (True, result, h, found)
      else
        (let remaining = stringv_from source cursor
         in case stringv_find remaining search of
              None \<Rightarrow>
                (case string_append result h (Outside remaining) of
                   (False, r1, h1) \<Rightarrow> (let (r2, h2) = string_destroy r1 h1 in Some (False, r2, h2, found))
                 | (True, r1, h1) \<Rightarrow> Some (True, r1, h1, found))
            | Some relative \<Rightarrow>
                (let match = cursor + relative
                 in case string_append result h (Outside (stringv_slice source cursor relative)) of
                      (False, r1, h1) \<Rightarrow> (let (r2, h2) = string_destroy r1 h1 in Some (False, r2, h2, found))
                    | (True, r1, h1) \<Rightarrow>
                        (case string_append r1 h1 (Outside replacement) of
                           (False, r2, h2) \<Rightarrow>
                             (let (r3, h3) = string_destroy r2 h2 in Some (False, r3, h3, found))
                         | (True, r2, h2) \<Rightarrow>
                             (let cursor' = match + sv_length search
                              in if \<not> replace_all
                                 then (case string_append r2 h2 (Outside (stringv_from source cursor')) of
                                         (False, r3, h3) \<Rightarrow>
                                           (let (r4, h4) = string_destroy r3 h3 in Some (False, r4, h4, True))
                                       | (True, r3, h3) \<Rightarrow> Some (True, r3, h3, True))
                                 else case rounds of
                                   0 \<Rightarrow> None
                                 | Suc n \<Rightarrow>
                                     string_replace_loop n source search replacement replace_all
                                       r2 h2 cursor' True)))))"

declare string_replace_loop.simps [simp del]

definition string_replace_build ::
    "'h String \<Rightarrow> 'h \<Rightarrow> StringView \<Rightarrow> StringView \<Rightarrow> bool \<Rightarrow> (bool \<times> 'h String \<times> 'h) option" where
  "string_replace_build s h search replacement replace_all =
     (if sv_length search = 0 \<or> \<not> stringv_valid search \<or> \<not> stringv_valid replacement
      then Some (False, s, h)
      else
        (let source = string_as_view s
         in case string_replace_loop (sv_length source) source search replacement replace_all
                   (string_new (string_allocator s)) h 0 False of
              None \<Rightarrow> None
            | Some (False, result, h1, found) \<Rightarrow> Some (False, s, h1)
            | Some (True, result, h1, found) \<Rightarrow>
                if \<not> found then (let (r, h2) = string_destroy result h1 in Some (True, s, h2))
                else (let (old, h2) = string_destroy s h1 in Some (True, result, h2))))"

definition string_replace ::
    "'h String \<Rightarrow> 'h \<Rightarrow> StringView \<Rightarrow> StringView \<Rightarrow> (bool \<times> 'h String \<times> 'h) option" where
  "string_replace s h search replacement = string_replace_build s h search replacement False"

definition string_replace_all ::
    "'h String \<Rightarrow> 'h \<Rightarrow> StringView \<Rightarrow> StringView \<Rightarrow> (bool \<times> 'h String \<times> 'h) option" where
  "string_replace_all s h search replacement = string_replace_build s h search replacement True"

end
