(* ===== verification/StringBufLaws.thy ===== *)
theory StringBufLaws
  imports StringBuf
begin

text \<open>
  The contract of the owning string, proved once for every allocator that meets the contract
  \<open>allocator_laws\<close>: the representation invariant, what each operation does to the contents when it
  succeeds, and that a failed operation leaves them alone. The properties at the end instantiate the
  contract at the arena and at the heap.
\<close>

section \<open>The invariant and the contents\<close>

definition string_content :: "'h String \<Rightarrow> char list" where
  "string_content s = (case string_data s of None \<Rightarrow> [] | Some d \<Rightarrow> take (string_length s) d)"

definition string_ok :: "'h String \<Rightarrow> bool" where
  "string_ok s \<longleftrightarrow>
     (case string_data s of
        None \<Rightarrow> string_length s = 0 \<and> string_capacity s = 0
      | Some d \<Rightarrow> length d = string_capacity s + 1 \<and> string_length s \<le> string_capacity s \<and>
                  string_capacity s < SIZE_MAX \<and> d ! string_length s = CHR 0x00)"

lemma string_ok_new [simp]: "string_ok (string_new a)" "string_content (string_new a) = []"
    "string_allocator (string_new a) = a"
  by (simp_all add: string_ok_def string_new_def string_content_def)

lemma string_ok_zero [simp]: "string_ok string_zero"
  by (simp add: string_ok_def string_zero_def)

lemma string_ok_le: "string_ok s \<Longrightarrow> string_length s \<le> string_capacity s \<and> string_capacity s < SIZE_MAX"
  by (auto simp: string_ok_def SIZE_MAX_def split: option.splits)

lemma string_ok_SomeD:
  "string_ok s \<Longrightarrow> string_data s = Some d \<Longrightarrow>
   length d = string_capacity s + 1 \<and> string_length s \<le> string_capacity s \<and>
   string_capacity s < SIZE_MAX \<and> d ! string_length s = CHR 0x00"
  by (simp add: string_ok_def)

lemma string_content_length: "string_ok s \<Longrightarrow> length (string_content s) = string_length s"
  by (auto simp: string_ok_def string_content_def split: option.splits)

lemma string_content_view: "string_ok s \<Longrightarrow> sv_bytes (string_as_view s) = string_content s"
  by (auto simp: string_as_view_def string_content_def view_simps split: option.splits)

lemma string_put_simps [simp]:
  "string_length (string_put s off bytes) = string_length s"
  "string_capacity (string_put s off bytes) = string_capacity s"
  "string_allocator (string_put s off bytes) = string_allocator s"
  "string_data (string_put s off bytes) = map_option (\<lambda>d. mem_write d off bytes) (string_data s)"
  by (simp_all add: string_put_def)

lemma mem_write_nth: "off < length d \<Longrightarrow> mem_write d off [c] = d[off := c]"
  by (simp add: mem_write_def upd_conv_take_nth_drop)

lemma string_put_NUL_id: "string_ok s \<Longrightarrow> string_put s (string_length s) [CHR 0x00] = s"
  by (cases s, cases "string_data s") (auto simp: string_ok_def string_put_def mem_write_nth list_update_same_conv)

text \<open>A buffer whose first bytes are \<open>bytes\<close>, ended with NUL, is a string with that content.\<close>

lemma string_ok_write:
  assumes "string_data s = Some d" "length d = string_capacity s + 1" "string_length s \<le> string_capacity s"
    "string_capacity s < SIZE_MAX"
  shows "string_ok (string_put s (string_length s) [CHR 0x00])"
    and "string_content (string_put s (string_length s) [CHR 0x00]) = take (string_length s) d"
  using assms by (simp_all add: string_ok_def string_content_def mem_write_nth)

lemma take_mem_write: "off + length bytes \<le> length d \<Longrightarrow> take (off + length bytes) (mem_write d off bytes) = take off d @ bytes"
  by (simp add: mem_write_def)

section \<open>Growing\<close>

lemma string_grow_finishes:
  "SIZE_MAX div 2 < n * 2 ^ r \<Longrightarrow> \<exists>g. string_grow r n c = Some g \<and> c \<le> g"
proof (induction r arbitrary: n)
  case 0
  then show ?case by (subst string_grow.simps) auto
next
  case (Suc r)
  then have "SIZE_MAX div 2 < (n * 2) * 2 ^ r" by (simp add: mult.assoc)
  then have "\<exists>g. string_grow r (n * 2) c = Some g \<and> c \<le> g" by (rule Suc.IH)
  then show ?case by (subst string_grow.simps) auto
qed

lemma string_grow_64: "0 < n \<Longrightarrow> \<exists>g. string_grow 64 n c = Some g \<and> c \<le> g"
proof (rule string_grow_finishes)
  assume "0 < n"
  then have "(2::nat) ^ 64 \<le> n * 2 ^ 64" by simp
  then show "SIZE_MAX div 2 < n * 2 ^ 64" by (simp add: SIZE_MAX_def)
qed

text \<open>A source inside the string lies in its text.\<close>

definition source_ok :: "'h String \<Rightarrow> StringSource \<Rightarrow> bool" where
  "source_ok s src \<longleftrightarrow>
     (case src of Outside v \<Rightarrow> True
      | Inside off len \<Rightarrow> string_data s \<noteq> None \<and> off + len \<le> string_length s)"

lemma source_bytes_length:
  assumes "string_ok s" "source_ok s src" "source_valid src"
  shows "length (source_bytes s src) = source_length src"
proof (cases src)
  case (Outside v)
  then show ?thesis using assms(3)
    by (cases v) (auto simp: source_bytes_def source_length_def source_valid_def stringv_valid_def)
next
  case (Inside off len)
  then obtain d where d: "string_data s = Some d" "off + len \<le> string_length s"
    using assms(2) by (auto simp: source_ok_def)
  then have "len \<le> length d - off" using string_ok_SomeD [OF assms(1) d(1)] by linarith
  then show ?thesis using d Inside by (simp add: source_bytes_def source_length_def)
qed

text \<open>
  Leftmost, non-overlapping replacement, stated without indices: a text in which \<open>search\<close> does not
  occur is its own result; otherwise the first occurrence is replaced, and then the text behind it.
\<close>

inductive replaced :: "char list \<Rightarrow> char list \<Rightarrow> char list \<Rightarrow> char list \<Rightarrow> bool" for search rep where
  replaced_none: "\<forall>i. \<not> occurs_at search t i \<Longrightarrow> replaced search rep t t"
| replaced_first: "t = l @ search @ r \<Longrightarrow> \<forall>i<length l. \<not> occurs_at search t i \<Longrightarrow>
    replaced search rep r r' \<Longrightarrow> replaced search rep t (l @ rep @ r')"

context allocator_laws
begin

definition ready :: "'h String \<Rightarrow> 'h \<Rightarrow> bool" where
  "ready s h \<longleftrightarrow> string_ok s \<and> string_allocator s = Alloc \<and> hinv h"

text \<open>The buffer of the string after growing: the same bytes up to and including the NUL.\<close>

definition same_text :: "'h String \<Rightarrow> 'h String \<Rightarrow> bool" where
  "same_text s s' \<longleftrightarrow> string_length s' = string_length s \<and>
     (\<forall>d. string_data s = Some d \<longrightarrow>
        (\<exists>d'. string_data s' = Some d' \<and>
              take (string_length s + 1) d' = take (string_length s + 1) d))"

lemma ready_new: "hinv h \<Longrightarrow> ready (string_new Alloc) h"
  by (simp add: ready_def)

text \<open>The new buffer the allocator hands out, by reallocation or by the copying path.\<close>

lemma grown_buffer:
  assumes ready: "ready s h" and new: "new_capacity < SIZE_MAX" "string_length s \<le> new_capacity"
    and old: "old_size = (if string_data s = None then 0 else string_length s + 1)"
    and call: "string_new_buffer s h old_size (new_capacity + 1) = (r, h')"
  shows "hinv h'" and "\<And>d. r = Some d \<Longrightarrow> length d = new_capacity + 1"
    and "\<And>d b. r = Some d \<Longrightarrow> string_data s = Some b \<Longrightarrow> take old_size d = take old_size b"
proof -
  have h: "hinv h" and A: "string_allocator s = Alloc" and ok: "string_ok s"
    using ready by (auto simp: ready_def)
  note call = call [unfolded string_new_buffer_def]
  have fits: "old_size \<le> length b" "old_size \<le> new_capacity + 1" if "string_data s = Some b" for b
    using string_ok_SomeD [OF ok that] old that new by auto
  have "hinv h' \<and> (\<forall>d. r = Some d \<longrightarrow> length d = new_capacity + 1) \<and>
    (\<forall>d b. r = Some d \<longrightarrow> string_data s = Some b \<longrightarrow> take old_size d = take old_size b)"
  proof (cases "allocator_realloc Alloc")
    case (Some g)
    then have g: "g h (string_data s) old_size (new_capacity + 1) = (r, h')" using call A by simp
    show ?thesis
    proof (intro conjI allI impI)
      show "hinv h'" by (rule realloc_inv [OF Some h g])
      show "length d = new_capacity + 1" if "r = Some d" for d
        by (rule realloc_length [OF Some h _ g [unfolded that]]) (use fits in blast)
      show "take old_size d = take old_size b" if r: "r = Some d" and b: "string_data s = Some b" for d b
        by (rule realloc_keeps [OF Some h fits(1) fits(2) g [unfolded r b]]) (use b in auto)
    qed
  next
    case None
    show ?thesis
    proof (cases "allocator_alloc Alloc")
      case Alloc: (Some f)
      obtain x h1 where x: "f h (new_capacity + 1) = (x, h1)" by fastforce
      have h1: "hinv h1" by (rule alloc_inv [OF Alloc h x])
      show ?thesis
      proof (cases x)
        case fresh: (Some fresh)
        have len: "length fresh = new_capacity + 1" by (rule alloc_length [OF Alloc h x [unfolded fresh]])
        have fr: "hinv (case allocator_free Alloc of None \<Rightarrow> h1 | Some free \<Rightarrow> free h1 old)" for old
          using free_inv h1 by (auto split: option.splits)
        show ?thesis
        proof (cases "string_data s")
          case data: (Some b)
          have "old_size \<noteq> 0" using old data by simp
          then have r: "r = Some (mem_write fresh 0 (take old_size b))" "hinv h'"
            using call A None Alloc x fresh data fr [of b] by auto
          have "length (take old_size b) = old_size" using fits(1) [OF data] by simp
          then show ?thesis using r fits(2) [OF data] len data
            by (auto simp: mem_write_def)
        qed (use call A None Alloc x fresh len h1 in auto)
      qed (use call A None Alloc x h1 in auto)
    qed (use call A None h in auto)
  qed
  then show "hinv h'" and "\<And>d. r = Some d \<Longrightarrow> length d = new_capacity + 1"
    and "\<And>d b. r = Some d \<Longrightarrow> string_data s = Some b \<Longrightarrow> take old_size d = take old_size b"
    by blast+
qed

lemma same_text_refl [simp]: "same_text s s"
  by (simp add: same_text_def)

lemma same_text_content:
  assumes "string_ok s" "same_text s s'" "string_data s' = None \<longrightarrow> string_data s = None"
  shows "string_content s' = string_content s"
proof (cases "string_data s")
  case None
  then show ?thesis using assms
    by (auto simp: same_text_def string_ok_def string_content_def split: option.splits)
next
  case (Some d)
  then obtain d' where d': "string_data s' = Some d'" "string_length s' = string_length s"
      "take (string_length s + 1) d' = take (string_length s + 1) d"
    using assms(2) by (auto simp: same_text_def)
  from d'(3) have "take (string_length s) d' = take (string_length s) d"
    by (metis le_add1 min.absorb1 take_take)
  then show ?thesis using Some d' by (simp add: string_content_def)
qed

text \<open>\<open>string_reserve\<close>: the invariant and the text are kept, and success means enough room.\<close>

lemma reserve_spec:
  assumes ready: "ready s h" and call: "string_reserve s h capacity = (ok, s', h')"
  shows "ready s' h'" and "same_text s s'" and "\<not> ok \<Longrightarrow> s' = s"
    and "ok \<Longrightarrow> capacity \<le> string_capacity s'"
    and "ok \<Longrightarrow> string_data s' = None \<Longrightarrow> capacity = 0 \<and> string_data s = None"
proof -
  have ok: "string_ok s" and A: "string_allocator s = Alloc" and h: "hinv h"
    using ready by (auto simp: ready_def)
  note le = string_ok_le [OF ok]
  have "ready s' h' \<and> same_text s s' \<and> (\<not> ok \<longrightarrow> s' = s) \<and> (ok \<longrightarrow> capacity \<le> string_capacity s') \<and>
    (ok \<longrightarrow> string_data s' = None \<longrightarrow> capacity = 0 \<and> string_data s = None)"
  proof (cases "capacity \<le> string_capacity s")
    case True
    have "(ok, s', h') = (True, s, h)"
      unfolding call [symmetric] string_reserve_def using True le string_put_NUL_id [OF ok] by simp
    then have "ok" "s' = s" "h' = h" by simp_all
    moreover have "capacity = 0" if "string_data s = None" using that True ok by (simp add: string_ok_def)
    ultimately show ?thesis using ready True by simp
  next
    case False
    obtain g where g: "string_grow 64 (if string_capacity s = 0 then 16 else string_capacity s) capacity = Some g"
        "capacity \<le> g"
    proof -
      have "0 < (if string_capacity s = 0 then 16 else string_capacity s)" by simp
      then show thesis using string_grow_64 that by blast
    qed
    define nc where "nc = (if g = SIZE_MAX then capacity else g)"
    have nc: "capacity \<le> nc" using g by (simp add: nc_def)
    show ?thesis
    proof (cases "nc > SIZE_MAX - 1")
      case True
      have tests: "(string_length s > string_capacity s) = False" "(capacity \<le> string_capacity s) = False"
          "(nc > SIZE_MAX - 1) = True"
        using le False True by auto
      have "(ok, s', h') = (False, s, h)"
        unfolding call [symmetric] string_reserve_def tests if_False g(1) option.case Let_def
          nc_def [symmetric] if_True ..
      then show ?thesis using ready by simp
    next
      case small: False
      then have nc_max: "nc < SIZE_MAX" by (simp add: SIZE_MAX_def)
      have len: "string_length s \<le> nc" "string_length s \<noteq> SIZE_MAX" using le False nc by auto
      define os where "os = (if string_data s = None then 0 else string_length s + 1)"
      obtain r h1 where r: "string_new_buffer s h os (nc + 1) = (r, h1)" by fastforce
      note buf = grown_buffer [OF ready nc_max len(1) os_def r]
      have result: "(ok, s', h') = (case r of
           None \<Rightarrow> (False, s, h1)
         | Some d \<Rightarrow> (True, string_put (s\<lparr>string_data := Some d, string_capacity := nc\<rparr>)
                             (string_length s) [CHR 0x00], h1))"
      proof -
        have tests: "(string_length s > string_capacity s) = False" "(capacity \<le> string_capacity s) = False"
            "(nc > SIZE_MAX - 1) = False" "(string_length s = SIZE_MAX) = False"
          using le False small len(2) by auto
        show ?thesis
          unfolding call [symmetric] string_reserve_def tests if_False g(1) option.case Let_def
            nc_def [symmetric] os_def [symmetric] r
          by (simp split: option.splits)
      qed
      show ?thesis
      proof (cases r)
        case None
        then show ?thesis using result ready buf(1) by (auto simp: ready_def)
      next
        case (Some d)
        define t where "t = s\<lparr>string_data := Some d, string_capacity := nc\<rparr>"
        have s': "ok" "s' = string_put t (string_length t) [CHR 0x00]" "h' = h1"
          using result Some by (auto simp: t_def)
        have dl: "length d = nc + 1" using buf(2) Some by blast
        have "string_ok s'" unfolding s'(2)
          by (rule string_ok_write(1) [of _ d]) (use dl len nc_max in \<open>auto simp: t_def\<close>)
        moreover have "string_data s' = Some (d[string_length s := CHR 0x00])"
          using s'(2) dl len by (simp add: t_def mem_write_nth)
        moreover have "take (string_length s + 1) (d[string_length s := CHR 0x00]) = take (string_length s + 1) b"
          if b: "string_data s = Some b" for b
        proof -
          have t: "take (string_length s + 1) d = take (string_length s + 1) b"
            using buf(3) [OF Some b] b by (simp add: os_def)
          have "b ! string_length s = CHR 0x00" "string_length s < length b"
            using string_ok_SomeD [OF ok b] by auto
          then have "d ! string_length s = CHR 0x00"
            using t dl len by (metis less_add_one nth_take)
          then have "d[string_length s := CHR 0x00] = d" by (metis list_update_id)
          then show ?thesis using t by simp
        qed
        ultimately show ?thesis using s' A buf(1) nc
          by (auto simp: ready_def same_text_def t_def)
      qed
    qed
  qed
  then show "ready s' h'" and "same_text s s'" and "\<not> ok \<Longrightarrow> s' = s"
    and "ok \<Longrightarrow> capacity \<le> string_capacity s'"
    and "ok \<Longrightarrow> string_data s' = None \<Longrightarrow> capacity = 0 \<and> string_data s = None"
    by blast+
qed

lemma same_text_source:
  assumes ok: "string_ok s" "string_ok s'" and same: "same_text s s'" and src: "source_ok s src"
  shows "string_rebase_view s' src (string_storage_offset s src) = source_bytes s src"
proof (cases src)
  case (Outside v)
  then show ?thesis
    by (simp add: string_rebase_view_def string_storage_offset_def source_bytes_def)
next
  case (Inside off len)
  then obtain d where d: "string_data s = Some d" "off + len \<le> string_length s"
    using src by (auto simp: source_ok_def)
  then obtain d' where d': "string_data s' = Some d'"
      "take (string_length s + 1) d' = take (string_length s + 1) d"
    using same by (auto simp: same_text_def)
  note le = string_ok_SomeD [OF ok(1) d(1)]
  then have "string_storage_offset s src = Some off"
    using Inside d by (simp add: string_storage_offset_def)
  moreover have "take len (drop off d') = take len (drop off d)"
  proof -
    have "take (off + len) d' = take (off + len) d"
      using d'(2) d(2) by (metis min.absorb1 take_take trans_le_add1)
    then show ?thesis by (metis add.commute take_drop)
  qed
  ultimately show ?thesis using Inside d d'
    by (simp add: string_rebase_view_def source_bytes_def source_length_def)
qed

text \<open>Ending a buffer that is long enough at a new length.\<close>

lemma end_buffer:
  assumes ready: "ready s h" and d: "string_data s = Some d" and n: "n \<le> string_capacity s"
    and e: "length e = length d"
  shows "ready (string_put (s\<lparr>string_data := Some e, string_length := n\<rparr>) n [CHR 0x00]) h"
    and "string_content (string_put (s\<lparr>string_data := Some e, string_length := n\<rparr>) n [CHR 0x00]) = take n e"
proof -
  note D = string_ok_SomeD [OF _ d]
  let ?t = "s\<lparr>string_data := Some e, string_length := n\<rparr>"
  have ok: "string_ok s" using ready by (simp add: ready_def)
  have "string_data ?t = Some e" "length e = string_capacity ?t + 1" "string_length ?t \<le> string_capacity ?t"
    "string_capacity ?t < SIZE_MAX" using D [OF ok] e n by auto
  note W = string_ok_write [OF this]
  show "ready (string_put ?t n [CHR 0x00]) h" using W(1) ready by (simp add: ready_def)
  show "string_content (string_put ?t n [CHR 0x00]) = take n e" using W(2) by simp
qed

lemma append_spec:
  assumes ready: "ready s h" and src: "source_ok s src" and call: "string_append s h src = (ok, s', h')"
  shows "ready s' h'" and "ok \<Longrightarrow> string_content s' = string_content s @ source_bytes s src"
    and "\<not> ok \<Longrightarrow> s' = s"
proof -
  have sok: "string_ok s" using ready by (simp add: ready_def)
  let ?len = "source_length src"
  let ?req = "string_length s + ?len"
  have sub: "sz_sub SIZE_MAX (string_length s) = SIZE_MAX - string_length s"
    using string_ok_le [OF sok] by (intro sz_sub_exact) auto
  have "ready s' h' \<and> (ok \<longrightarrow> string_content s' = string_content s @ source_bytes s src) \<and> (\<not> ok \<longrightarrow> s' = s)"
  proof (cases "\<not> source_valid src \<or> ?len > SIZE_MAX - string_length s")
    case True
    then have "(ok, s', h') = (False, s, h)" unfolding call [symmetric] string_append_def sub by simp
    then show ?thesis using ready by simp
  next
    case valid: False
    note bl = source_bytes_length [OF sok src]
    show ?thesis
    proof (cases "?len = 0")
      case True
      then have "(ok, s', h') = (True, s, h)"
        using valid unfolding call [symmetric] string_append_def sub by simp
      then show ?thesis using ready valid bl True by simp
    next
      case False
      obtain ok1 s1 h1 where r: "string_reserve s h ?req = (ok1, s1, h1)" by (metis prod_cases3)
      note R = reserve_spec [OF ready r]
      show ?thesis
      proof (cases ok1)
        case False
        then have "(ok, s', h') = (False, s1, h1)" using valid \<open>?len \<noteq> 0\<close> r
          unfolding call [symmetric] string_append_def sub Let_def by simp
        then show ?thesis using R False by simp
      next
        case True
        have ok1: "string_ok s1" using R(1) by (simp add: ready_def)
        obtain d where d: "string_data s1 = Some d" using R(5) True False by (cases "string_data s1") auto
        have len1: "string_length s1 = string_length s" using R(2) by (simp add: same_text_def)
        have room: "?req \<le> string_capacity s1" using R(4) True by simp
        define bytes where "bytes = source_bytes s src"
        have bytes: "length bytes = ?len" using bl valid by (simp add: bytes_def)
        have reb: "string_rebase_view s1 src (string_storage_offset s src) = bytes"
          unfolding bytes_def by (rule same_text_source [OF sok ok1 R(2) src])
        define e where "e = mem_write d (string_length s) bytes"
        have e: "length e = length d" unfolding e_def
          using string_ok_SomeD [OF ok1 d] room bytes by simp
        have fin: "(ok, s', h') =
          (True, string_put (s1\<lparr>string_data := Some e, string_length := ?req\<rparr>) ?req [CHR 0x00], h1)"
          using valid \<open>?len \<noteq> 0\<close> r True reb d len1
          unfolding call [symmetric] string_append_def sub Let_def by (simp add: string_put_def e_def)
        have "take ?req e = take (string_length s) d @ bytes" unfolding e_def
          using take_mem_write [of "string_length s" bytes d] string_ok_SomeD [OF ok1 d] room bytes by simp
        moreover have "take (string_length s) d = string_content s"
          using same_text_content [OF sok R(2)] d len1 by (simp add: string_content_def)
        ultimately show ?thesis
          using fin end_buffer [OF R(1) d room e] by (simp add: bytes_def)
      qed
    qed
  qed
  then show "ready s' h'" and "ok \<Longrightarrow> string_content s' = string_content s @ source_bytes s src"
    and "\<not> ok \<Longrightarrow> s' = s" by blast+
qed

lemma sub_exact: "string_ok s \<Longrightarrow> sz_sub SIZE_MAX (string_length s) = SIZE_MAX - string_length s"
  using string_ok_le [of s] by (intro sz_sub_exact) auto

text \<open>The buffer after a successful reservation for a non-empty text.\<close>

lemma reserved:
  assumes ready: "ready s h" and r: "string_reserve s h n = (True, s1, h1)" and n: "0 < n"
  obtains d where "string_data s1 = Some d" "length d = string_capacity s1 + 1" "n \<le> string_capacity s1"
    "string_length s1 = string_length s" "string_ok s1" "take (string_length s) d = string_content s"
proof -
  note R = reserve_spec [OF ready r]
  have sok: "string_ok s" using ready by (simp add: ready_def)
  have ok1: "string_ok s1" using R(1) by (simp add: ready_def)
  obtain d where d: "string_data s1 = Some d" using R(5) n by (cases "string_data s1") auto
  have "string_length s1 = string_length s" using R(2) by (simp add: same_text_def)
  moreover have "string_content s1 = string_content s" using same_text_content [OF sok R(2)] d by simp
  ultimately have "take (string_length s) d = string_content s" using d by (simp add: string_content_def)
  then show thesis
    using that d string_ok_SomeD [OF ok1 d] R(4) ok1 \<open>string_length s1 = string_length s\<close> by blast
qed

lemma prepend_spec:
  assumes ready: "ready s h" and src: "source_ok s src" and call: "string_prepend s h src = (ok, s', h')"
  shows "ready s' h'" and "ok \<Longrightarrow> string_content s' = source_bytes s src @ string_content s"
    and "\<not> ok \<Longrightarrow> s' = s"
proof -
  have sok: "string_ok s" using ready by (simp add: ready_def)
  let ?len = "source_length src" and ?old = "string_length s"
  note sub = sub_exact [OF sok]
  have "ready s' h' \<and> (ok \<longrightarrow> string_content s' = source_bytes s src @ string_content s) \<and> (\<not> ok \<longrightarrow> s' = s)"
  proof (cases "\<not> source_valid src \<or> ?len > SIZE_MAX - ?old")
    case True
    then have "(ok, s', h') = (False, s, h)" unfolding call [symmetric] string_prepend_def sub by simp
    then show ?thesis using ready by simp
  next
    case valid: False
    note bl = source_bytes_length [OF sok src]
    show ?thesis
    proof (cases "?len = 0")
      case True
      then have "(ok, s', h') = (True, s, h)"
        using valid unfolding call [symmetric] string_prepend_def sub by simp
      then show ?thesis using ready valid bl True by simp
    next
      case pos: False
      obtain ok1 s1 h1 where r: "string_reserve s h (?old + ?len) = (ok1, s1, h1)" by (metis prod_cases3)
      note R = reserve_spec [OF ready r]
      show ?thesis
      proof (cases ok1)
        case False
        then have "(ok, s', h') = (False, s1, h1)" using valid pos r
          unfolding call [symmetric] string_prepend_def sub Let_def by simp
        then show ?thesis using R False by simp
      next
        case True
        obtain d where d: "string_data s1 = Some d" "length d = string_capacity s1 + 1"
            "?old + ?len \<le> string_capacity s1" "string_length s1 = ?old" "string_ok s1"
            "take ?old d = string_content s"
        proof -
          have r': "string_reserve s h (?old + ?len) = (True, s1, h1)" using r True by simp
          show thesis by (rule reserved [OF ready r' _ that]) (use pos in simp_all)
        qed
        define bytes where "bytes = source_bytes s src"
        have bytes: "length bytes = ?len" using bl valid by (simp add: bytes_def)
        define d2 where "d2 = mem_write d ?len (take (?old + 1) d)"
        have d2: "length d2 = length d" "drop ?len d2 = take (?old + 1) d @ drop (?len + (?old + 1)) d"
          using d(2,3) by (simp_all add: d2_def mem_write_def)
        let ?s2 = "string_put s1 ?len (source_bytes s1 (Inside 0 (?old + 1)))"
        have s2: "string_data ?s2 = Some d2" using d by (simp add: d2_def source_bytes_def)
        have inside: "(case string_storage_offset s src of None \<Rightarrow> False | Some off \<Rightarrow> off > SIZE_MAX - ?len) = False"
        proof (cases src)
          case (Inside off len)
          then show ?thesis using src string_ok_le [OF sok]
            by (auto simp: source_ok_def string_storage_offset_def source_length_def)
        qed (simp add: string_storage_offset_def)
        have reb: "(case string_storage_offset s src of None \<Rightarrow> source_bytes ?s2 src
            | Some off \<Rightarrow> source_bytes ?s2 (Inside (off + ?len) ?len)) = bytes"
        proof (cases src)
          case (Outside v)
          then show ?thesis by (simp add: string_storage_offset_def bytes_def source_bytes_def)
        next
          case (Inside off len)
          then have off: "off + len \<le> ?old" and "string_data s \<noteq> None" using src by (auto simp: source_ok_def)
          then have "string_storage_offset s src = Some off" using Inside string_ok_le [OF sok]
            by (simp add: string_storage_offset_def)
          moreover have "string_rebase_view s1 src (string_storage_offset s src) = bytes"
            unfolding bytes_def by (rule same_text_source [OF sok d(5) R(2) src])
          moreover have "take len (drop (off + len) d2) = take len (drop off (drop len d2))" by simp
          moreover have "drop len d2 = take (?old + 1) d @ drop (len + (?old + 1)) d"
            using d2(2) Inside by (simp add: source_length_def)
          moreover have "take len (drop off (take (?old + 1) d)) = take len (drop off d)"
            using off by (simp add: drop_take)
          ultimately show ?thesis using Inside s2 d(1,2,3) off
            by (simp add: source_bytes_def source_length_def string_rebase_view_def)
        qed
        define e where "e = mem_write d2 0 bytes"
        have e: "length e = length d" unfolding e_def using d2(1) d(2,3) bytes by simp
        have fin: "(ok, s', h') =
          (True, string_put (s1\<lparr>string_data := Some e, string_length := ?old + ?len\<rparr>) (?old + ?len) [CHR 0x00], h1)"
        proof -
          have tests: "(\<not> source_valid src \<or> ?len > SIZE_MAX - ?old) = False" "(?len = 0) = False"
            "string_reserve s h (?old + ?len) = (True, s1, h1)"
            using valid pos r True by auto
          have "(ok, s', h') =
            (True, string_put ((string_put ?s2 0 bytes)\<lparr>string_length := ?old + ?len\<rparr>) (?old + ?len) [CHR 0x00], h1)"
            unfolding call [symmetric] string_prepend_def sub Let_def tests if_False prod.case bool.case
              reb inside by simp
          then show ?thesis using s2 d(1) by (simp add: string_put_def e_def)
        qed
        have "take (?old + ?len) e = bytes @ take ?old (drop ?len d2)"
          unfolding e_def using bytes by (simp add: mem_write_def)
        also have "take ?old (drop ?len d2) = string_content s" using d2(2) d(2,3,6) by simp
        finally show ?thesis
          using fin end_buffer [OF R(1) d(1) d(3) e] by (simp add: bytes_def)
      qed
    qed
  qed
  then show "ready s' h'" and "ok \<Longrightarrow> string_content s' = source_bytes s src @ string_content s"
    and "\<not> ok \<Longrightarrow> s' = s" by blast+
qed

text \<open>\<open>string_copy\<close> writes through \<open>NULL\<close> exactly when nothing is copied into a string without a buffer.\<close>

lemma copy_fault:
  assumes ready: "ready s h" and src: "source_valid src"
  shows "string_copy s h src = None \<longleftrightarrow> string_data s = None \<and> source_length src = 0"
proof -
  have sok: "string_ok s" using ready by (simp add: ready_def)
  obtain ok1 s1 h1 where r: "string_reserve s h (source_length src) = (ok1, s1, h1)" by (metis prod_cases3)
  note R = reserve_spec [OF ready r]
  show ?thesis
  proof (cases "string_data s = None \<and> source_length src = 0")
    case True
    then have "string_capacity s = 0" "string_length s = 0" using sok by (auto simp: string_ok_def)
    then have "string_reserve s h 0 = (True, s, h)"
      using string_put_NUL_id [OF sok] by (simp add: string_reserve_def)
    then show ?thesis using True src by (simp add: string_copy_def Let_def)
  next
    case False
    have "string_data s1 \<noteq> None" if ok1
    proof (cases "source_length src = 0")
      case True
      then obtain d where "string_data s = Some d" using False by auto
      then show ?thesis using R(2) by (auto simp: same_text_def)
    qed (use R(5) that in auto)
    then show ?thesis using False r by (cases ok1) (auto simp: string_copy_def Let_def)
  qed
qed

lemma copy_spec:
  assumes ready: "ready s h" and src: "source_ok s src" and call: "string_copy s h src = Some (ok, s', h')"
  shows "ready s' h'" and "ok \<Longrightarrow> string_content s' = source_bytes s src" and "\<not> ok \<Longrightarrow> s' = s"
proof -
  have sok: "string_ok s" using ready by (simp add: ready_def)
  let ?len = "source_length src"
  have "ready s' h' \<and> (ok \<longrightarrow> string_content s' = source_bytes s src) \<and> (\<not> ok \<longrightarrow> s' = s)"
  proof (cases "source_valid src")
    case False
    then have "Some (ok, s', h') = Some (False, s, h)" unfolding call [symmetric] string_copy_def by simp
    then show ?thesis using ready by simp
  next
    case valid: True
    obtain ok1 s1 h1 where r: "string_reserve s h ?len = (ok1, s1, h1)" by (metis prod_cases3)
    note R = reserve_spec [OF ready r]
    have ok1: "string_ok s1" using R(1) by (simp add: ready_def)
    show ?thesis
    proof (cases ok1)
      case False
      then have "Some (ok, s', h') = Some (False, s1, h1)" using valid r
        unfolding call [symmetric] string_copy_def Let_def by simp
      then show ?thesis using R False by simp
    next
      case True
      have "string_data s1 \<noteq> None"
      proof
        assume "string_data s1 = None"
        then have "string_copy s h src = None" using valid r True
          by (auto simp: string_copy_def Let_def)
        then show False using call by simp
      qed
      then obtain d where d: "string_data s1 = Some d" by auto
      have bytes: "length (source_bytes s src) = ?len" by (rule source_bytes_length [OF sok src valid])
      have reb: "string_rebase_view s1 src (string_storage_offset s src) = source_bytes s src"
        by (rule same_text_source [OF sok ok1 R(2) src])
      have room: "?len \<le> string_capacity s1" using R(4) True by simp
      define e where "e = (if ?len \<noteq> 0 then mem_write d 0 (source_bytes s src) else d)"
      have e: "length e = length d" "take ?len e = source_bytes s src"
        using bytes room string_ok_SomeD [OF ok1 d] by (auto simp: e_def mem_write_def)
      have "Some (ok, s', h') =
        Some (True, string_put (s1\<lparr>string_data := Some e, string_length := ?len\<rparr>) ?len [CHR 0x00], h1)"
        using valid r True reb d
        unfolding call [symmetric] string_copy_def Let_def by (simp add: string_put_def e_def)
      then show ?thesis using end_buffer [OF R(1) d room e(1)] e(2) by simp
    qed
  qed
  then show "ready s' h'" and "ok \<Longrightarrow> string_content s' = source_bytes s src" and "\<not> ok \<Longrightarrow> s' = s"
    by blast+
qed

lemma destroy_inv: "ready s h \<Longrightarrow> hinv (snd (string_destroy s h))"
  using free_inv by (auto simp: string_destroy_def ready_def split: option.splits)

lemma from_spec:
  assumes h: "hinv h" and call: "string_from Alloc h v = (s, h')"
  shows "ready s h'" and "string_content s = sv_bytes v \<or> s = string_new Alloc"
proof -
  have ready: "ready (string_new Alloc) h" by (rule ready_new [OF h])
  have "ready s h' \<and> (string_content s = sv_bytes v \<or> s = string_new Alloc)"
  proof (cases "stringv_valid v")
    case False
    then show ?thesis using call ready by (auto simp: string_from_def)
  next
    case valid: True
    obtain ok1 s1 h1 where r: "string_reserve (string_new Alloc) h (sv_length v) = (ok1, s1, h1)"
      by (metis prod_cases3)
    note R = reserve_spec [OF ready r]
    have vl: "length (sv_bytes v) = sv_length v" using valid
      by (cases v) (auto simp: stringv_valid_def)
    show ?thesis
    proof (cases ok1)
      case False
      then have "(s, h') = (s1, h1)" using valid r unfolding call [symmetric] string_from_def by simp
      then show ?thesis using R False by simp
    next
      case True
      show ?thesis
      proof (cases "string_data s1")
        case None
        then have z: "sv_length v = 0" using R(5) True by simp
        then have "(s, h') = (s1, h1)" using valid r True None R(2)
          unfolding call [symmetric] string_from_def
          by (simp add: Let_def string_put_def same_text_def string_new_def)
        then show ?thesis using R(1) None z vl by (simp add: string_content_def)
      next
        case (Some d)
        have room: "sv_length v \<le> string_capacity s1" using R(4) True by simp
        define e where "e = (if sv_length v \<noteq> 0 then mem_write d 0 (sv_bytes v) else d)"
        have e: "length e = length d" "take (sv_length v) e = sv_bytes v"
          using vl room string_ok_SomeD [OF _ Some] R(1) by (auto simp: e_def mem_write_def ready_def)
        have "(s, h') = (string_put (s1\<lparr>string_data := Some e, string_length := sv_length v\<rparr>)
                          (sv_length v) [CHR 0x00], h1)"
          using valid r True Some unfolding call [symmetric] string_from_def Let_def
          by (simp add: string_put_def e_def)
        then show ?thesis using end_buffer [OF R(1) Some room e(1)] e(2) by simp
      qed
    qed
  qed
  then show "ready s h'" and "string_content s = sv_bytes v \<or> s = string_new Alloc" by blast+
qed

lemma remove_spec:
  assumes ready: "ready s h" and start: "start \<le> string_length s"
    and call: "string_remove s start n = (ok, s')"
  shows "ok" and "ready s' h"
    and "string_content s' = take start (string_content s) @ drop (start + n) (string_content s)"
proof -
  have sok: "string_ok s" using ready by (simp add: ready_def)
  have "ok \<and> ready s' h \<and>
    string_content s' = take start (string_content s) @ drop (start + n) (string_content s)"
  proof (cases "string_data s")
    case None
    then have "string_length s = 0" using sok by (simp add: string_ok_def)
    then have "(ok, s') = (True, s)" using start None
      unfolding call [symmetric] string_remove_def Let_def by simp
    then show ?thesis using ready None by (simp add: string_content_def)
  next
    case (Some d)
    note D = string_ok_SomeD [OF sok Some]
    define k where "k = (if n > string_length s - start then string_length s - start else n)"
    have k: "start + k \<le> string_length s" "k \<le> n" using start by (auto simp: k_def)
    define tail where "tail = take (string_length s - start - k + 1) (drop (start + k) d)"
    have "string_length s - start - k + 1 \<le> length d - (start + k)" using D k by linarith
    then have tail: "length tail = string_length s - start - k + 1" by (simp add: tail_def)
    define e where "e = mem_write d start tail"
    have "start + length tail \<le> length d" using D k tail by linarith
    then have e: "length e = length d" unfolding e_def by simp
    have s': "(ok, s') = (True, s\<lparr>string_data := Some e, string_length := string_length s - k\<rparr>)"
      using start Some unfolding call [symmetric] string_remove_def Let_def k_def [symmetric]
      by (simp add: string_put_def e_def tail_def source_bytes_def)
    have tail_nth: "tail ! (string_length s - start - k) = CHR 0x00" "tail = take (string_length s - start - k) (drop (start + k) d) @ [CHR 0x00]"
    proof -
      have "drop (start + k) d ! (string_length s - start - k) = d ! string_length s"
        using D k by (simp add: nth_drop)
      then show "tail ! (string_length s - start - k) = CHR 0x00" using D by (simp add: tail_def)
      then show "tail = take (string_length s - start - k) (drop (start + k) d) @ [CHR 0x00]"
        using tail D k unfolding tail_def by (simp add: take_Suc_conv_app_nth)
    qed
    have e_take: "take (string_length s - k) e = take start d @ take (string_length s - start - k) tail"
    proof -
      have "string_length s - k = start + (string_length s - start - k)" using k by linarith
      moreover have "take (start + m) e = take start d @ take m tail" if "m < length tail" for m
        using D k that by (simp add: e_def mem_write_def take_add)
      ultimately show ?thesis using tail by simp
    qed
    have "e ! (string_length s - k) = CHR 0x00"
    proof -
      have "string_length s - k = start + (string_length s - start - k)" using k by linarith
      moreover have "e ! (start + m) = tail ! m" if "m < length tail" for m
        using D k that by (simp add: e_def mem_write_def nth_append)
      ultimately show ?thesis using tail tail_nth(1) by simp
    qed
    moreover have "string_length s - k \<le> string_capacity s" using D by linarith
    ultimately have "string_ok s'" using s' e D by (simp add: string_ok_def)
    moreover have "take (string_length s - start - k) tail = drop (start + n) (take (string_length s) d)"
    proof (cases "n > string_length s - start")
      case True
      then show ?thesis using D by (simp add: k_def)
    next
      case False
      then have "k = n" by (simp add: k_def)
      then show ?thesis using D k by (simp add: tail_def drop_take min_def)
    qed
    moreover have "take start d = take start (take (string_length s) d)" using start by (simp add: min_def)
    ultimately show ?thesis using s' ready e_take Some by (simp add: ready_def string_content_def)
  qed
  then show "ok" and "ready s' h"
    and "string_content s' = take start (string_content s) @ drop (start + n) (string_content s)" by blast+
qed

section \<open>Replacing\<close>

text \<open>An append that runs out of memory ends the loop, with the partial result destroyed.\<close>

lemma append_or_fail:
  assumes "ready s h" "string_append s h (Outside v) = (ok, s', h')"
  shows "ready s' h'" and "ok \<Longrightarrow> string_content s' = string_content s @ sv_bytes v"
  using append_spec [OF assms(1) _ assms(2)] by (auto simp: source_ok_def source_bytes_def)

lemma replace_loop_spec:
  assumes search: "search \<noteq> []"
  shows "cursor \<le> length t \<Longrightarrow> length t \<le> rounds + cursor \<Longrightarrow> ready result h \<Longrightarrow>
    \<exists>ok r h' f. string_replace_loop rounds (View t) (View search) (View rep) True result h cursor found =
        Some (ok, r, h', f) \<and> hinv h' \<and>
      (ok \<longrightarrow> ready r h' \<and> (f \<longleftrightarrow> found \<or> (\<exists>i. occurs_at search (drop cursor t) i)) \<and>
        (\<exists>u. replaced search rep (drop cursor t) u \<and> string_content r = string_content result @ u))"
proof (induction "length t - cursor" arbitrary: cursor rounds result h found rule: less_induct)
  case less
  let ?rem = "drop cursor t"
  have cur: "stringv_from (View t) cursor = View ?rem" using less.prems(1) by (simp add: view_simps)
  have cond: "(\<not> cursor \<le> sv_length (View t)) = False" using less.prems(1) by simp
  note step = string_replace_loop.simps [of rounds "View t" "View search" "View rep" True result h cursor found]
  show ?case
  proof (cases "stringv_find (View ?rem) (View search)")
    case None
    obtain ok1 r1 h1 where a: "string_append result h (Outside (View ?rem)) = (ok1, r1, h1)"
      by (metis prod_cases3)
    note A = append_or_fail [OF less.prems(3) a]
    have loop: "string_replace_loop rounds (View t) (View search) (View rep) True result h cursor found =
      (if ok1 then Some (True, r1, h1, found)
       else Some (False, fst (string_destroy r1 h1), snd (string_destroy r1 h1), found))"
      unfolding step cond cur Let_def by (simp add: None a case_prod_beta split: bool.splits)
    have no: "\<forall>i. \<not> occurs_at search ?rem i" using None by (simp add: view_find_None)
    show ?thesis unfolding loop
      using A destroy_inv [OF A(1)] no replaced_none [OF no, of rep] by (auto simp: ready_def)
  next
    case (Some i)
    have occ: "occurs_at search ?rem i" "\<forall>j<i. \<not> occurs_at search ?rem j"
      using Some by (auto simp: view_find_Some)
    note bound = occurs_at_bound [OF occ(1)]
    have nonempty: "0 < length search" using search by simp
    have slice: "stringv_slice (View t) cursor i = View (take i ?rem)" using less.prems(1) by (simp add: view_simps)
    obtain ok1 r1 h1 where a1: "string_append result h (Outside (View (take i ?rem))) = (ok1, r1, h1)"
      by (metis prod_cases3)
    obtain ok2 r2 h2 where a2: "string_append r1 h1 (Outside (View rep)) = (ok2, r2, h2)"
      by (metis prod_cases3)
    note A1 = append_or_fail [OF less.prems(3) a1] and A2 = append_or_fail [OF append_or_fail(1) [OF less.prems(3) a1] a2]
    obtain n where n: "rounds = Suc n" using bound nonempty less.prems(2) by (cases rounds) auto
    let ?next = "cursor + i + length search"
    have loop: "string_replace_loop rounds (View t) (View search) (View rep) True result h cursor found =
      (if \<not> ok1 then Some (False, fst (string_destroy r1 h1), snd (string_destroy r1 h1), found)
       else if \<not> ok2 then Some (False, fst (string_destroy r2 h2), snd (string_destroy r2 h2), found)
       else string_replace_loop n (View t) (View search) (View rep) True r2 h2 ?next True)"
      unfolding step cond cur Let_def slice by (simp add: Some a1 a2 n slice case_prod_beta split: bool.splits)
    show ?thesis
    proof (cases "ok1 \<and> ok2")
      case False
      then show ?thesis unfolding loop using destroy_inv [OF A1(1)] destroy_inv [OF A2(1)] by auto
    next
      case True
      have len: "?next \<le> length t" "length t \<le> n + ?next" "length t - ?next < length t - cursor"
        using bound nonempty less.prems(1,2) n unfolding length_drop by linarith+
      obtain l r where lr: "?rem = l @ search @ r" "length l = i" using occ(1) by (auto simp: occurs_at_iff)
      have r: "drop ?next t = r" "take i ?rem = l"
      proof -
        have "drop ?next t = drop (i + length search) ?rem" by (simp add: add.commute add.left_commute)
        then show "drop ?next t = r" "take i ?rem = l" using lr by simp_all
      qed
      obtain ok r3 h3 f where IH: "string_replace_loop n (View t) (View search) (View rep) True r2 h2 ?next True =
          Some (ok, r3, h3, f)" "hinv h3"
        "ok \<longrightarrow> ready r3 h3 \<and> f \<and> (\<exists>u. replaced search rep r u \<and> string_content r3 = string_content r2 @ u)"
        using less.hyps [OF len(3,1,2) A2(1), of True] unfolding r by auto
      have content: "string_content r2 = string_content result @ l @ rep"
        using A1(2) A2(2) True r(2) by simp
      have "\<exists>u. replaced search rep ?rem u \<and> string_content r3 = string_content result @ u" if ok
      proof -
        obtain u where "replaced search rep r u" "string_content r3 = string_content r2 @ u"
          using IH(3) \<open>ok\<close> by blast
        moreover have "replaced search rep ?rem (l @ rep @ u)" if "replaced search rep r u"
          by (rule replaced_first [OF lr(1) _ that]) (use occ(2) lr(2) in simp)
        ultimately show ?thesis using content by (intro exI [of _ "l @ rep @ u"]) simp
      qed
      then show ?thesis unfolding loop using True IH occ(1) by auto
    qed
  qed
qed

lemma replace_all_spec:
  assumes ready: "ready s h"
  shows "\<exists>ok s' h'. string_replace_all s h (View search) (View rep) = Some (ok, s', h') \<and> hinv h' \<and>
    ready s' h' \<and> (\<not> ok \<longrightarrow> s' = s) \<and> (search = [] \<longrightarrow> \<not> ok) \<and>
    (ok \<longrightarrow> replaced search rep (string_content s) (string_content s'))"
proof (cases "search = []")
  case True
  then show ?thesis using ready
    by (auto simp: string_replace_all_def string_replace_build_def ready_def)
next
  case False
  have sok: "string_ok s" and A: "string_allocator s = Alloc" and h: "hinv h"
    using ready by (auto simp: ready_def)
  have keep: "ready s h'" if "hinv h'" for h' using that sok A by (simp add: ready_def)
  show ?thesis
  proof (cases "string_data s")
    case None
    have find: "stringv_find (NullView 0) (View search) = None" using False by (simp add: stringv_find_def)
    have "stringv_from (NullView 0) 0 = NullView 0" by (simp add: stringv_from_def stringv_slice_def stringv_valid_def)
    then have loop: "string_replace_loop 0 (NullView 0) (View search) (View rep) True (string_new Alloc) h 0 False
        = Some (True, string_new Alloc, h, False)"
      using find by (subst string_replace_loop.simps)
        (simp add: string_append_def source_valid_def source_length_def stringv_valid_def)
    have destroy: "snd (string_destroy (string_new Alloc) h) = h" by (simp add: string_destroy_def string_new_def)
    have "string_replace_all s h (View search) (View rep) = Some (True, s, h)"
      using None loop False destroy
      by (simp add: string_replace_all_def string_replace_build_def string_as_view_def sv_zero_def A view_simps
          case_prod_beta)
    moreover have "\<not> occurs_at search [] i" for i using False by (auto simp: occurs_at_def)
    ultimately show ?thesis using None h keep False
      by (auto simp: string_content_def intro: replaced_none)
  next
    case (Some d)
    define t where "t = string_content s"
    have view: "string_as_view s = View t" using Some by (simp add: string_as_view_def t_def string_content_def)
    obtain ok r h1 f where L: "string_replace_loop (length t) (View t) (View search) (View rep) True
        (string_new Alloc) h 0 False = Some (ok, r, h1, f)" "hinv h1"
      "ok \<longrightarrow> ready r h1 \<and> (f \<longleftrightarrow> (\<exists>i. occurs_at search t i)) \<and>
        (\<exists>u. replaced search rep t u \<and> string_content r = u)"
      using replace_loop_spec [OF False, of 0 t "length t" "string_new Alloc" h rep False] ready_new [OF h]
      by auto
    have res: "string_replace_all s h (View search) (View rep) =
      (if \<not> ok then Some (False, s, h1) else if \<not> f then Some (True, s, snd (string_destroy r h1))
       else Some (True, r, snd (string_destroy s h1)))"
      using L(1) False view A
      by (auto simp: string_replace_all_def string_replace_build_def view_simps Let_def case_prod_beta
          split: bool.splits)
    show ?thesis
    proof (cases "ok \<and> f")
      case True
      have "hinv (snd (string_destroy s h1))" by (rule destroy_inv) (rule keep [OF L(2)])
      then show ?thesis unfolding res using True L(3) False by (auto simp: ready_def t_def)
    next
      case no: False
      have "hinv (snd (string_destroy r h1))" if ok using L(3) that destroy_inv by blast
      moreover have "replaced search rep t t" if ok "\<not> f"
        by (rule replaced_none) (use L(3) that in auto)
      ultimately show ?thesis unfolding res using no L(2) keep False by (auto simp: t_def)
    qed
  qed
qed

end

section \<open>The properties at the two allocators\<close>

definition demo_string :: "unit String" where
  "demo_string = \<lparr>string_data = Some (''abcab'' @ [CHR 0x00]), string_length = 5, string_capacity = 5,
     string_allocator = allocator_heap demo_heap\<rparr>"

lemma demo_string_ok: "string_ok demo_string" "string_allocator demo_string = allocator_heap demo_heap"
  by (simp_all add: string_ok_def demo_string_def SIZE_MAX_def)

lemma demo_string_content: "string_content demo_string = ''abcab''"
  by (simp add: demo_string_def string_content_def)

lemmas string_eval = string_append_def string_prepend_def string_copy_def string_reserve_def
  string_new_buffer_def string_grow.simps source_valid_def source_length_def source_bytes_def
  string_storage_offset_def string_rebase_view_def string_put_def mem_write_def sz_sub_def Let_def
  allocator_heap_def heap_alloc_def heap_realloc_def heap_free_def demo_heap_def demo_string_def
  SIZE_MAX_def string_content_def string_new_def

text \<open>C11: \<open>string_append\<close> on the arena. Appending a view, which may lie inside the string's own buffer,
  either succeeds, and then the contents are the old contents followed by the view's bytes as they
  were before the call (also when the buffer moved), or fails and leaves the string as it was. The
  representation (room for the NUL, length within capacity, NUL at the end) and the arena's invariant
  are kept.\<close>

theorem string_append_correct:
  assumes "malloc_spec m" "arena_inv A" "string_ok s" "string_allocator s = arena_allocator m"
    and "source_ok s src" "string_append s A src = (ok, s', A')"
  shows "string_ok s' \<and> arena_inv A' \<and> string_allocator s' = arena_allocator m \<and>
    (if ok then string_content s' = string_content s @ source_bytes s src else s' = s)"
proof -
  have ready: "arena_provider.ready m s A" unfolding arena_provider.ready_def using assms by blast
  note spec = arena_provider.append_spec [OF ready assms(5,6)]
  then show ?thesis unfolding arena_provider.ready_def by auto
qed

lemma demo_arena_string:
  "string_append (string_new (arena_allocator demo_malloc)) demo_arena (Outside (View ''ab'')) =
     (True, \<lparr>string_data = Some (''ab'' @ CHR 0x00 # replicate 14 (CHR 0x00)), string_length = 2, string_capacity = 16,
       string_allocator = arena_allocator demo_malloc\<rparr>,
      demo_arena_at 17 1)"
proof -
  have alloc: "arena_alloc demo_malloc demo_arena 17 = (Some (1, 0), demo_arena_at 17 1)"
    by (simp add: arena_eval demo_arena_at_def demo_arena_def demo_block_def arena_init_def arena_zero_def
        demo_malloc_def)
  have load: "arena_load (demo_arena_at 17 (Suc 0)) (Suc 0, 0) 17 = replicate 17 (CHR 0x00)"
    by (simp add: arena_load_def chain_at_def demo_arena_at_def demo_block_def)
  show ?thesis
    by (simp add: string_append_def string_reserve_def string_new_buffer_def string_grow.simps
        source_valid_def source_length_def source_bytes_def string_storage_offset_def
        string_rebase_view_def string_put_def mem_write_def sz_sub_def Let_def SIZE_MAX_def
        string_new_def arena_allocator_def arena_realloc_def arena_allocator_alloc_def alloc load
        stringv_valid_def)
qed

theorem string_append_correct_witness:
  "\<exists>s' A'. string_append (string_new (arena_allocator demo_malloc)) demo_arena (Outside (View ''ab'')) =
      (True, s', A') \<and> string_ok s' \<and> arena_inv A' \<and> string_content s' = ''ab''"
  using string_append_correct [OF demo_malloc_spec demo_arena_inv _ _ _ demo_arena_string] demo_arena_string
  by (simp add: source_ok_def source_bytes_def)

text \<open>C12: \<open>string_prepend\<close> on the heap, with the same guarantees: on success the view's former bytes come
  first, even when the view lies inside the string and the text was shifted before it was read.\<close>

theorem string_prepend_correct:
  assumes "heap_spec H" "string_ok s" "string_allocator s = allocator_heap H"
    and "source_ok s src" "string_prepend s h src = (ok, s', h')"
  shows "string_ok s' \<and> string_allocator s' = allocator_heap H \<and>
    (if ok then string_content s' = source_bytes s src @ string_content s else s' = s)"
proof -
  have ready: "heap_provider.ready H s h" unfolding heap_provider.ready_def using assms by blast
  note spec = heap_provider.prepend_spec [OF ready assms(4,5)]
  then show ?thesis unfolding heap_provider.ready_def by auto
qed

theorem string_prepend_correct_witness:
  "\<exists>s' h'. string_prepend demo_string () (Inside 2 3) = (True, s', h') \<and> string_content s' = ''cababcab''"
proof -
  obtain ok s' h' where r: "string_prepend demo_string () (Inside 2 3) = (ok, s', h')" by (metis prod_cases3)
  have ok by (rule conjunct1 [of ok True]) (use r in \<open>auto simp: string_eval\<close>)
  then show ?thesis
    using r string_prepend_correct [OF demo_heap_spec demo_string_ok _ r]
    by (auto simp: source_ok_def source_bytes_def demo_string_def string_content_def)
qed

text \<open>C13: \<open>string_replace_all\<close> on the heap returns for every string, search and replacement. It refuses
  an empty search; a success replaces the occurrences from left to right without overlap
  (\<open>replaced\<close>), and a failure leaves the string as it was.\<close>

theorem string_replace_all_correct:
  assumes "heap_spec H" "string_ok s" "string_allocator s = allocator_heap H"
  shows "\<exists>ok s' h'. string_replace_all s h (View search) (View rep) = Some (ok, s', h') \<and>
    string_ok s' \<and> string_allocator s' = allocator_heap H \<and> (search = [] \<longrightarrow> \<not> ok) \<and>
    (if ok then replaced search rep (string_content s) (string_content s') else s' = s)"
proof -
  have ready: "heap_provider.ready H s h" unfolding heap_provider.ready_def using assms by blast
  from heap_provider.replace_all_spec [OF this, of search rep]
  obtain ok s' h' where "string_replace_all s h (View search) (View rep) = Some (ok, s', h')"
    "heap_provider.ready H s' h'" "\<not> ok \<longrightarrow> s' = s" "search = [] \<longrightarrow> \<not> ok"
    "ok \<longrightarrow> replaced search rep (string_content s) (string_content s')" by blast
  note R = this
  have "if ok then replaced search rep (string_content s) (string_content s') else s' = s"
    using R(3,5) by (cases ok) simp_all
  then show ?thesis using R(1,2,4) unfolding heap_provider.ready_def by blast
qed

theorem string_replace_all_correct_witness:
  "\<exists>ok s' h'. string_replace_all demo_string () (View ''ab'') (View ''x'') = Some (ok, s', h') \<and>
     string_ok s' \<and> (if ok then replaced ''ab'' ''x'' ''abcab'' (string_content s') else s' = demo_string)"
  using string_replace_all_correct [OF demo_heap_spec demo_string_ok, of "()" "''ab''" "''x''"]
  unfolding demo_string_content by blast

text \<open>C14: \<open>string_copy\<close> on the arena. The one call that does not return writes the terminating NUL
  through a \<open>NULL\<close> data pointer: copying an empty view into a string that has no buffer yet. Every
  other call replaces the contents by the view's former bytes or leaves the string as it was.\<close>

theorem string_copy_correct:
  assumes "malloc_spec m" "arena_inv A" "string_ok s" "string_allocator s = arena_allocator m"
    and "source_ok s src" "source_valid src"
  shows "(string_copy s A src = None \<longleftrightarrow> string_data s = None \<and> source_length src = 0) \<and>
    (\<forall>ok s' A'. string_copy s A src = Some (ok, s', A') \<longrightarrow> string_ok s' \<and> arena_inv A' \<and>
       (if ok then string_content s' = source_bytes s src else s' = s))"
proof -
  have ready: "arena_provider.ready m s A" unfolding arena_provider.ready_def using assms by blast
  show ?thesis
  proof (intro conjI allI impI)
    show "string_copy s A src = None \<longleftrightarrow> string_data s = None \<and> source_length src = 0"
      by (rule arena_provider.copy_fault [OF ready assms(6)])
    fix ok s' A' assume "string_copy s A src = Some (ok, s', A')"
    note spec = arena_provider.copy_spec [OF ready assms(5) this]
    then show "string_ok s'" "arena_inv A'" "if ok then string_content s' = source_bytes s src else s' = s"
      unfolding arena_provider.ready_def by auto
  qed
qed

theorem string_copy_correct_witness:
  "string_copy (string_new (arena_allocator demo_malloc)) demo_arena (Outside (View [])) = None"
  using string_copy_correct [OF demo_malloc_spec demo_arena_inv string_ok_new(1) string_ok_new(3), of "Outside (View [])"]
  by (simp add: source_ok_def source_valid_def source_length_def string_new_def stringv_valid_def)

end
