(* ===== verification/StringPieces.thy ===== *)
theory StringPieces
  imports StringBufLaws Decimal
begin

text \<open>
  Building a text piece by piece. The code builds cookies, response headers and session records with
  chains \<open>if (!string_append (...) || !string_append_char (...) || !string_append_format (...)) return false;\<close>.
  \<open>string_emit\<close> is such a chain: the pieces in order, stopping at the first call that fails.

  A formatted piece stands for a format whose output is not empty; \<open>format_spec\<close> shows that the
  formatting call then never meets a \<open>NULL\<close> buffer, so \<open>the\<close> below is always applied to \<open>Some\<close>.
\<close>

datatype Piece = Append StringView | Format "char list"

definition string_append_format :: "'h String \<Rightarrow> 'h \<Rightarrow> char list \<Rightarrow> bool \<times> 'h String \<times> 'h" where
  "string_append_format s h text = the (string_append_format_v s h (Some text))"

definition string_append_piece :: "'h String \<Rightarrow> 'h \<Rightarrow> Piece \<Rightarrow> bool \<times> 'h String \<times> 'h" where
  "string_append_piece s h p =
     (case p of Append v \<Rightarrow> string_append s h (Outside v) | Format text \<Rightarrow> string_append_format s h text)"

fun string_emit :: "'h String \<Rightarrow> 'h \<Rightarrow> Piece list \<Rightarrow> bool \<times> 'h String \<times> 'h" where
  "string_emit s h [] = (True, s, h)"
| "string_emit s h (p # ps) =
     (case string_append_piece s h p of
        (False, s1, h1) \<Rightarrow> (False, s1, h1)
      | (True, s1, h1) \<Rightarrow> string_emit s1 h1 ps)"

primrec piece_text :: "Piece \<Rightarrow> char list" where
  "piece_text (Append v) = sv_bytes v"
| "piece_text (Format text) = text"

primrec piece_ok :: "Piece \<Rightarrow> bool" where
  "piece_ok (Append v) \<longleftrightarrow> True"
| "piece_ok (Format text) \<longleftrightarrow> text \<noteq> []"

abbreviation pieces_text :: "Piece list \<Rightarrow> char list" where
  "pieces_text ps \<equiv> concat (map piece_text ps)"

lemma emit_append: "string_emit s h (ps @ qs) =
    (case string_emit s h ps of (False, s1, h1) \<Rightarrow> (False, s1, h1) | (True, s1, h1) \<Rightarrow> string_emit s1 h1 qs)"
  by (induction ps arbitrary: s h) (auto split: prod.splits bool.splits)

context allocator_laws
begin

lemma format_spec:
  assumes ready: "ready s h" and nonempty: "text \<noteq> []"
  shows "\<exists>ok s' h'. string_append_format_v s h (Some text) = Some (ok, s', h') \<and> ready s' h' \<and>
    (ok \<longrightarrow> string_content s' = string_content s @ text)"
proof -
  have sok: "string_ok s" using ready by (simp add: ready_def)
  let ?ol = "string_length s" and ?n = "length text"
  have sub: "sz_sub SIZE_MAX ?ol = SIZE_MAX - ?ol" by (rule sub_exact [OF sok])
  show ?thesis
  proof (cases "?n > SIZE_MAX - ?ol")
    case True
    then show ?thesis using ready by (auto simp: string_append_format_v_def sub)
  next
    case False
    obtain ok1 s1 h1 where r: "string_reserve s h (?ol + ?n) = (ok1, s1, h1)" by (metis prod_cases3)
    show ?thesis
    proof (cases ok1)
      case False
      have "ready s1 h1" using reserve_spec(1) [OF ready r] .
      then show ?thesis using r False \<open>\<not> ?n > SIZE_MAX - ?ol\<close> by (auto simp: string_append_format_v_def sub)
    next
      case True
      have pos: "0 < ?ol + ?n" using nonempty by simp
      have r': "string_reserve s h (?ol + ?n) = (True, s1, h1)" using r True by simp
      obtain d where d: "string_data s1 = Some d" "length d = string_capacity s1 + 1"
          "?ol + ?n \<le> string_capacity s1" "string_length s1 = ?ol" "take ?ol d = string_content s"
        using reserved [OF ready r' pos] by metis
      define e where "e = mem_write d ?ol (text @ [CHR 0x00])"
      have e: "length e = length d" "e ! (?ol + ?n) = CHR 0x00" "take (?ol + ?n) e = string_content s @ text"
        using d string_content_length [OF sok] by (simp_all add: e_def mem_write_def nth_append)
      have whole: "take (string_capacity s1 - ?ol) text = text" using d(3) by simp
      have "mem_write e (?ol + ?n) [CHR 0x00] = e"
        using e(1,2) d(2,3) mem_write_nth [of "?ol + ?n" e] by (metis Suc_eq_plus1 le_imp_less_Suc list_update_id)
      then have "string_put (s1\<lparr>string_data := Some e, string_length := ?ol + ?n\<rparr>) (?ol + ?n) [CHR 0x00] =
          s1\<lparr>string_data := Some e, string_length := ?ol + ?n\<rparr>"
        by (simp add: string_put_def)
      then have fin: "ready (s1\<lparr>string_data := Some e, string_length := ?ol + ?n\<rparr>) h1"
          "string_content (s1\<lparr>string_data := Some e, string_length := ?ol + ?n\<rparr>) = string_content s @ text"
        using end_buffer [OF reserve_spec(1) [OF ready r] d(1,3) e(1)] e(3) by simp_all
      have "string_append_format_v s h (Some text) =
          Some (True, s1\<lparr>string_data := Some e, string_length := ?ol + ?n\<rparr>, h1)"
        using r' d whole False by (simp add: string_append_format_v_def sub Let_def string_put_def e_def)
      then show ?thesis using fin by blast
    qed
  qed
qed

lemma piece_spec:
  assumes ready: "ready s h" and p: "piece_ok p" and call: "string_append_piece s h p = (ok, s', h')"
  shows "ready s' h'" and "ok \<Longrightarrow> string_content s' = string_content s @ piece_text p"
proof -
  have "ready s' h' \<and> (ok \<longrightarrow> string_content s' = string_content s @ piece_text p)"
  proof (cases p)
    case (Append v)
    have src: "source_ok s (Outside v)" by (simp add: source_ok_def)
    have "string_append s h (Outside v) = (ok, s', h')" using call Append by (simp add: string_append_piece_def)
    note A = append_spec [OF ready src this]
    then show ?thesis using Append by (simp add: source_bytes_def)
  next
    case (Format t)
    then show ?thesis using call p format_spec [OF ready, of t]
      by (auto simp: string_append_piece_def string_append_format_def)
  qed
  then show "ready s' h'" and "ok \<Longrightarrow> string_content s' = string_content s @ piece_text p" by blast+
qed

lemma emit_spec:
  assumes "ready s h" "\<forall>p\<in>set ps. piece_ok p" "string_emit s h ps = (ok, s', h')"
  shows "ready s' h' \<and> (ok \<longrightarrow> string_content s' = string_content s @ pieces_text ps)"
  using assms
proof (induction ps arbitrary: s h)
  case (Cons p ps)
  obtain ok1 s1 h1 where r: "string_append_piece s h p = (ok1, s1, h1)" by (metis prod_cases3)
  have p: "piece_ok p" using Cons.prems(2) by simp
  note P = piece_spec [OF Cons.prems(1) p r]
  show ?case
  proof (cases ok1)
    case True
    then have "string_emit s1 h1 ps = (ok, s', h')" using Cons.prems(3) r by simp
    then have "ready s' h' \<and> (ok \<longrightarrow> string_content s' = string_content s1 @ pieces_text ps)"
      using Cons.IH [OF P(1)] Cons.prems(2) by simp
    then show ?thesis using P(2) True by simp
  next
    case False
    then show ?thesis using Cons.prems(3) r P by simp
  qed
qed simp

text \<open>The text of a string built from nothing.\<close>

lemma emit_new:
  assumes "hinv h" "\<forall>p\<in>set ps. piece_ok p" "string_emit (string_new Alloc) h ps = (ok, s', h')"
  shows "ready s' h'" and "ok \<Longrightarrow> string_content s' = pieces_text ps"
  using emit_spec [OF ready_new [OF assms(1)] assms(2,3)] by simp_all

lemma view_of_string: "ready s h \<Longrightarrow> string_content s \<noteq> [] \<Longrightarrow> string_as_view s = View (string_content s)"
  by (auto simp: string_as_view_def string_content_def ready_def string_ok_def split: option.splits)

end

end
