(* ===== verification/StringMap.thy ===== *)
theory StringMap
  imports Allocator StringView
begin

unbundle bit_operations_syntax

text \<open>
  The hash map of \<open>src/src/collection/string_map.c\<close>: open addressing with linear probing over a
  power-of-two array of slots, tombstones for removed keys, and rehashing into the same or the double
  capacity.

  The tagged union \<open>StringMapValue\<close> is a datatype of payloads with its two flags; a pointer value is its
  address. \<open>SIZE_MAX\<close> as an index (not found, no tombstone) is \<open>None\<close>. The allocator state \<open>h\<close> is passed
  along; the bytes of the slot array are not modelled, so \<open>free\<close> receives an array of its size, and
  \<open>free (NULL)\<close> does nothing. The loops that look for a free slot have no bound of their own: they
  run for as many rounds as there are slots, and \<open>None\<close> stands for a loop that does not end.
\<close>

datatype StringMapPayload =
    SM_VALUE_EMPTY
  | SM_VALUE_INT64 int
  | SM_VALUE_BOOL bool
  | SM_VALUE_STRING StringView
  | SM_VALUE_POINTER nat
  | SM_VALUE_OBJECT "buffer option" size_t

record StringMapValue =
  value_payload :: StringMapPayload
  value_valid :: bool
  value_owns_data :: bool

datatype StringMapSlotState =
    STRING_MAP_SLOT_EMPTY | STRING_MAP_SLOT_OCCUPIED | STRING_MAP_SLOT_TOMBSTONE

record StringMapSlot =
  slot_hash :: "64 word"
  slot_key :: StringView
  slot_value :: StringMapValue
  slot_state :: StringMapSlotState
  slot_owns_key :: bool

record 'h StringMap =
  map_allocator :: "'h Allocator"
  map_slots :: "StringMapSlot list option"
  map_capacity :: size_t
  map_length :: size_t
  map_tombstone_count :: size_t

definition value_zero :: StringMapValue where
  "value_zero = \<lparr>value_payload = SM_VALUE_EMPTY, value_valid = False, value_owns_data = False\<rparr>"

definition slot_zero :: StringMapSlot where
  "slot_zero = \<lparr>slot_hash = 0, slot_key = sv_zero, slot_value = value_zero,
     slot_state = STRING_MAP_SLOT_EMPTY, slot_owns_key = False\<rparr>"

definition map_zero :: "'h StringMap" where
  "map_zero = \<lparr>map_allocator = allocator_zero, map_slots = None, map_capacity = 0, map_length = 0,
     map_tombstone_count = 0\<rparr>"

definition sizeof_StringMapSlot :: size_t where
  "sizeof_StringMapSlot = 56"

definition STRING_MAP_INITIAL_CAPACITY :: size_t where
  "STRING_MAP_INITIAL_CAPACITY = 16"

section \<open>Memory\<close>

definition string_map_initialized :: "'h StringMap \<Rightarrow> bool" where
  "string_map_initialized M \<longleftrightarrow>
     allocator_alloc (map_allocator M) \<noteq> None \<and> allocator_free (map_allocator M) \<noteq> None"

definition map_alloc :: "'h StringMap \<Rightarrow> 'h \<Rightarrow> size_t \<Rightarrow> buffer option \<times> 'h" where
  "map_alloc M h sz = (case allocator_alloc (map_allocator M) of None \<Rightarrow> (None, h) | Some alloc \<Rightarrow> alloc h sz)"

definition map_free :: "'h StringMap \<Rightarrow> 'h \<Rightarrow> buffer option \<Rightarrow> 'h" where
  "map_free M h memory =
     (case allocator_free (map_allocator M) of
        None \<Rightarrow> h
      | Some free \<Rightarrow> (case memory of None \<Rightarrow> h | Some b \<Rightarrow> free h b))"

definition view_memory :: "StringView \<Rightarrow> buffer option" where
  "view_memory v = (if sv_has_data v then Some (sv_bytes v) else None)"

definition string_map_key_valid :: "StringView \<Rightarrow> bool" where
  "string_map_key_valid key \<longleftrightarrow> sv_length key = 0 \<or> sv_has_data key"

definition string_map_slot_bytes :: "size_t \<Rightarrow> size_t option" where
  "string_map_slot_bytes capacity =
     (if capacity = 0 \<or> capacity > SIZE_MAX div sizeof_StringMapSlot then None
      else Some (capacity * sizeof_StringMapSlot))"

definition string_map_value_release :: "'h StringMap \<Rightarrow> 'h \<Rightarrow> StringMapValue \<Rightarrow> StringMapValue \<times> 'h" where
  "string_map_value_release M h v =
     (if \<not> string_map_initialized M \<or> \<not> value_owns_data v then (v, h)
      else
        (v\<lparr>value_owns_data := False\<rparr>,
         case value_payload v of
           SM_VALUE_STRING s \<Rightarrow> map_free M h (view_memory s)
         | SM_VALUE_OBJECT data sz \<Rightarrow> map_free M h data
         | _ \<Rightarrow> h))"

definition string_map_slot_release :: "'h StringMap \<Rightarrow> 'h \<Rightarrow> StringMapSlot \<Rightarrow> StringMapSlot \<times> 'h" where
  "string_map_slot_release M h slot =
     (let h1 = (if slot_owns_key slot then map_free M h (view_memory (slot_key slot)) else h);
          (v, h2) = string_map_value_release M h1 (slot_value slot)
      in (slot_zero, h2))"

definition string_map_copy_bytes ::
    "'h StringMap \<Rightarrow> 'h \<Rightarrow> buffer option \<Rightarrow> size_t \<Rightarrow> buffer option option \<times> 'h" where
  "string_map_copy_bytes M h source sz =
     (if sz = 0 then (Some None, h)
      else case source of
        None \<Rightarrow> (None, h)
      | Some bytes \<Rightarrow>
          (case map_alloc M h sz of
             (None, h1) \<Rightarrow> (None, h1)
           | (Some copy, h1) \<Rightarrow> (Some (Some (mem_write copy 0 (take sz bytes))), h1)))"

text \<open>The view of a copied buffer: \<open>NULL\<close> when nothing was copied.\<close>

definition view_of_copy :: "buffer option \<Rightarrow> size_t \<Rightarrow> StringView" where
  "view_of_copy data len = (case data of None \<Rightarrow> NullView len | Some b \<Rightarrow> View (take len b))"

definition string_map_copy_key :: "'h StringMap \<Rightarrow> 'h \<Rightarrow> StringView \<Rightarrow> StringView option \<times> 'h" where
  "string_map_copy_key M h key =
     (case string_map_copy_bytes M h (view_memory key) (sv_length key) of
        (None, h1) \<Rightarrow> (None, h1)
      | (Some data, h1) \<Rightarrow> (Some (view_of_copy data (sv_length key)), h1))"

section \<open>Probing\<close>

text \<open>
  The loop of \<open>string_map_find_index\<close>, with the number of probes left, the index and the first
  tombstone seen; it returns the index of the key, if found, and the first tombstone.
\<close>

fun string_map_probe ::
    "nat \<Rightarrow> StringMapSlot list \<Rightarrow> size_t \<Rightarrow> StringView \<Rightarrow> 64 word \<Rightarrow> size_t \<Rightarrow> size_t option \<Rightarrow>
     size_t option \<times> size_t option" where
  "string_map_probe 0 slots capacity key hash index first_tombstone = (None, first_tombstone)"
| "string_map_probe (Suc probes) slots capacity key hash index first_tombstone =
     (let slot = slots ! index; next_index = (index + 1) AND (capacity - 1)
      in case slot_state slot of
           STRING_MAP_SLOT_EMPTY \<Rightarrow> (None, first_tombstone)
         | STRING_MAP_SLOT_TOMBSTONE \<Rightarrow>
             string_map_probe probes slots capacity key hash next_index
               (if first_tombstone = None then Some index else first_tombstone)
         | STRING_MAP_SLOT_OCCUPIED \<Rightarrow>
             if slot_hash slot = hash \<and> stringv_equal (slot_key slot) key then (Some index, first_tombstone)
             else string_map_probe probes slots capacity key hash next_index first_tombstone)"

definition hash_index :: "64 word \<Rightarrow> size_t \<Rightarrow> size_t" where
  "hash_index hash capacity = unat (hash AND of_nat (capacity - 1))"

definition string_map_find_index ::
    "'h StringMap \<Rightarrow> StringView \<Rightarrow> 64 word \<Rightarrow> size_t option \<times> size_t option" where
  "string_map_find_index M key hash =
     (if \<not> string_map_initialized M \<or> map_slots M = None \<or> map_capacity M = 0 \<or>
         \<not> string_map_key_valid key
      then (None, None)
      else string_map_probe (map_capacity M) (the (map_slots M)) (map_capacity M) key hash
             (hash_index hash (map_capacity M)) None)"

text \<open>\<open>while (slots[index].state == STRING_MAP_SLOT_OCCUPIED) index = (index + 1) & (capacity - 1);\<close>\<close>

fun string_map_skip_occupied :: "nat \<Rightarrow> StringMapSlot list \<Rightarrow> size_t \<Rightarrow> size_t \<Rightarrow> size_t option" where
  "string_map_skip_occupied rounds slots capacity index =
     (if slot_state (slots ! index) \<noteq> STRING_MAP_SLOT_OCCUPIED then Some index
      else case rounds of
        0 \<Rightarrow> None
      | Suc n \<Rightarrow> string_map_skip_occupied n slots capacity ((index + 1) AND (capacity - 1)))"

declare string_map_skip_occupied.simps [simp del]

section \<open>Rehashing\<close>

text \<open>The loop over the old slots; each occupied one is placed in the new array.\<close>

fun string_map_move :: "StringMapSlot list \<Rightarrow> StringMapSlot list \<Rightarrow> size_t \<Rightarrow> StringMapSlot list option" where
  "string_map_move [] new_slots new_capacity = Some new_slots"
| "string_map_move (old_slot # old_slots) new_slots new_capacity =
     (if slot_state old_slot \<noteq> STRING_MAP_SLOT_OCCUPIED
      then string_map_move old_slots new_slots new_capacity
      else case string_map_skip_occupied new_capacity new_slots new_capacity
                  (hash_index (slot_hash old_slot) new_capacity) of
             None \<Rightarrow> None
           | Some new_index \<Rightarrow>
               string_map_move old_slots (new_slots[new_index := old_slot]) new_capacity)"

definition slots_memory :: "size_t \<Rightarrow> buffer" where
  "slots_memory capacity = replicate (capacity * sizeof_StringMapSlot) (CHR 0x00)"

definition string_map_rehash ::
    "'h StringMap \<Rightarrow> 'h \<Rightarrow> size_t \<Rightarrow> (bool \<times> 'h StringMap \<times> 'h) option" where
  "string_map_rehash M h new_capacity =
     (if \<not> string_map_initialized M then Some (False, M, h)
      else case string_map_slot_bytes new_capacity of
        None \<Rightarrow> Some (False, M, h)
      | Some bytes \<Rightarrow>
          (case map_alloc M h bytes of
             (None, h1) \<Rightarrow> Some (False, M, h1)
           | (Some memory, h1) \<Rightarrow>
               (case string_map_move (case map_slots M of None \<Rightarrow> [] | Some s \<Rightarrow> s)
                       (replicate new_capacity slot_zero) new_capacity of
                  None \<Rightarrow> None
                | Some new_slots \<Rightarrow>
                    Some (True,
                          M\<lparr>map_slots := Some new_slots, map_capacity := new_capacity,
                            map_tombstone_count := 0\<rparr>,
                          case map_slots M of
                            None \<Rightarrow> h1
                          | Some old_slots \<Rightarrow> map_free M h1 (Some (slots_memory (map_capacity M)))))))"

definition string_map_load_reached :: "size_t \<Rightarrow> size_t \<Rightarrow> bool" where
  "string_map_load_reached capacity used =
     (let threshold = capacity div 2 + capacity div 5 in threshold = 0 \<or> used \<ge> threshold)"

definition string_map_prepare_capacity :: "'h StringMap \<Rightarrow> 'h \<Rightarrow> (bool \<times> 'h StringMap \<times> 'h) option" where
  "string_map_prepare_capacity M h =
     (if map_slots M = None then string_map_rehash M h STRING_MAP_INITIAL_CAPACITY
      else if map_length M > SIZE_MAX - map_tombstone_count M \<or>
              map_length M + map_tombstone_count M = SIZE_MAX then Some (False, M, h)
      else
        (let used = map_length M + map_tombstone_count M + 1
         in if \<not> string_map_load_reached (map_capacity M) used then Some (True, M, h)
            else if map_length M < map_capacity M div 2 \<and> map_tombstone_count M > 0
            then string_map_rehash M h (map_capacity M)
            else if map_capacity M > SIZE_MAX div 2 then Some (False, M, h)
            else string_map_rehash M h (map_capacity M * 2)))"

section \<open>Setting\<close>

definition map_value_rejected :: "StringMapValue \<Rightarrow> bool" where
  "map_value_rejected v =
     (case value_payload v of
        SM_VALUE_EMPTY \<Rightarrow> True
      | SM_VALUE_STRING s \<Rightarrow> \<not> string_map_key_valid s
      | SM_VALUE_OBJECT data sz \<Rightarrow> data = None \<or> sz = 0
      | _ \<Rightarrow> False)"

definition map_slot_update :: "'h StringMap \<Rightarrow> size_t \<Rightarrow> StringMapSlot \<Rightarrow> 'h StringMap" where
  "map_slot_update M index slot = M\<lparr>map_slots := map_option (\<lambda>s. s[index := slot]) (map_slots M)\<rparr>"

definition map_slot :: "'h StringMap \<Rightarrow> size_t \<Rightarrow> StringMapSlot" where
  "map_slot M index = (case map_slots M of None \<Rightarrow> slot_zero | Some s \<Rightarrow> s ! index)"

text \<open>Overwriting the value of an occupied slot.\<close>

definition string_map_overwrite ::
    "'h StringMap \<Rightarrow> 'h \<Rightarrow> size_t \<Rightarrow> StringMapValue \<Rightarrow> 'h StringMap \<times> 'h" where
  "string_map_overwrite M h index v =
     (let slot = map_slot M index;
          (old, h1) = string_map_value_release M h (slot_value slot)
      in (map_slot_update M index (slot\<lparr>slot_value := v\<rparr>), h1))"

definition string_map_set_internal ::
    "'h StringMap \<Rightarrow> 'h \<Rightarrow> StringView \<Rightarrow> StringMapValue \<Rightarrow> bool \<Rightarrow> (bool \<times> 'h StringMap \<times> 'h) option" where
  "string_map_set_internal M h key v copy_key =
     (if \<not> string_map_initialized M \<or> \<not> string_map_key_valid key \<or> map_value_rejected v
      then Some (False, M, snd (string_map_value_release M h v))
      else
        (let hash = stringv_hash key
         in case fst (string_map_find_index M key hash) of
              Some index \<Rightarrow>
                (let (M1, h1) = string_map_overwrite M h index v in Some (True, M1, h1))
            | None \<Rightarrow>
                (case (if copy_key then string_map_copy_key M h key else (Some key, h)) of
                   (None, h1) \<Rightarrow> Some (False, M, snd (string_map_value_release M h1 v))
                 | (Some stored_key, h1) \<Rightarrow>
                     (let owns_key = (copy_key \<and> sv_length stored_key > 0)
                      in case string_map_prepare_capacity M h1 of
                           None \<Rightarrow> None
                         | Some (False, M2, h2) \<Rightarrow>
                             (let h3 = (if owns_key then map_free M2 h2 (view_memory stored_key) else h2)
                              in Some (False, M2, snd (string_map_value_release M2 h3 v)))
                         | Some (True, M2, h2) \<Rightarrow>
                             (case string_map_find_index M2 key hash of
                                (Some index, _) \<Rightarrow>
                                  (let h3 = (if owns_key then map_free M2 h2 (view_memory stored_key) else h2);
                                       (M3, h4) = string_map_overwrite M2 h3 index v
                                   in Some (True, M3, h4))
                              | (None, first_tombstone) \<Rightarrow>
                                  (case (case first_tombstone of
                                           Some t \<Rightarrow> Some (t, M2\<lparr>map_tombstone_count :=
                                                               sz_sub (map_tombstone_count M2) 1\<rparr>)
                                         | None \<Rightarrow>
                                             map_option (\<lambda>i. (i, M2))
                                               (string_map_skip_occupied (map_capacity M2)
                                                  (the (map_slots M2)) (map_capacity M2)
                                                  (hash_index hash (map_capacity M2)))) of
                                     None \<Rightarrow> None
                                   | Some (index, M3) \<Rightarrow>
                                       (let M4 = map_slot_update M3 index
                                                   \<lparr>slot_hash = hash, slot_key = stored_key,
                                                    slot_value = v,
                                                    slot_state = STRING_MAP_SLOT_OCCUPIED,
                                                    slot_owns_key = owns_key\<rparr>
                                        in Some (True, M4\<lparr>map_length := map_length M4 + 1\<rparr>, h2))))))))"

section \<open>The interface\<close>

definition sm_init :: "'h StringMap \<Rightarrow> 'h Allocator \<Rightarrow> bool \<times> 'h StringMap" where
  "sm_init M a =
     (if allocator_alloc a = None \<or> allocator_free a = None then (False, M)
      else if string_map_initialized M then (False, M)
      else (True, map_zero\<lparr>map_allocator := a\<rparr>))"

definition sm_int :: "int \<Rightarrow> StringMapValue" where
  "sm_int i = \<lparr>value_payload = SM_VALUE_INT64 i, value_valid = True, value_owns_data = False\<rparr>"

definition sm_bool :: "bool \<Rightarrow> StringMapValue" where
  "sm_bool b = \<lparr>value_payload = SM_VALUE_BOOL b, value_valid = True, value_owns_data = False\<rparr>"

definition sm_string_copy :: "'h StringMap \<Rightarrow> 'h \<Rightarrow> StringView \<Rightarrow> StringMapValue \<times> 'h" where
  "sm_string_copy M h v =
     (if \<not> string_map_initialized M \<or> \<not> string_map_key_valid v then (value_zero, h)
      else case string_map_copy_bytes M h (view_memory v) (sv_length v) of
        (None, h1) \<Rightarrow> (value_zero, h1)
      | (Some data, h1) \<Rightarrow>
          (\<lparr>value_payload = SM_VALUE_STRING (view_of_copy data (sv_length v)), value_valid = True,
            value_owns_data = True\<rparr>, h1))"

definition sm_string_borrowed :: "StringView \<Rightarrow> StringMapValue" where
  "sm_string_borrowed v =
     (if \<not> string_map_key_valid v then value_zero
      else \<lparr>value_payload = SM_VALUE_STRING v, value_valid = True, value_owns_data = False\<rparr>)"

definition sm_pointer :: "nat \<Rightarrow> StringMapValue" where
  "sm_pointer p = \<lparr>value_payload = SM_VALUE_POINTER p, value_valid = True, value_owns_data = False\<rparr>"

definition sm_object :: "'h StringMap \<Rightarrow> 'h \<Rightarrow> buffer option \<Rightarrow> size_t \<Rightarrow> StringMapValue \<times> 'h" where
  "sm_object M h data sz =
     (if \<not> string_map_initialized M \<or> sz = 0 then (value_zero, h)
      else case string_map_copy_bytes M h data sz of
        (None, h1) \<Rightarrow> (value_zero, h1)
      | (Some copy, h1) \<Rightarrow>
          (\<lparr>value_payload = SM_VALUE_OBJECT copy sz, value_valid = True, value_owns_data = True\<rparr>, h1))"

definition sm_set_value ::
    "'h StringMap \<Rightarrow> 'h \<Rightarrow> StringView \<Rightarrow> StringMapValue \<Rightarrow> (bool \<times> 'h StringMap \<times> 'h) option" where
  "sm_set_value M h key v = string_map_set_internal M h key v True"

definition sm_set_value_borrowed_key ::
    "'h StringMap \<Rightarrow> 'h \<Rightarrow> StringView \<Rightarrow> StringMapValue \<Rightarrow> (bool \<times> 'h StringMap \<times> 'h) option" where
  "sm_set_value_borrowed_key M h key v = string_map_set_internal M h key v False"

definition sm_set_int :: "'h StringMap \<Rightarrow> 'h \<Rightarrow> StringView \<Rightarrow> int \<Rightarrow> (bool \<times> 'h StringMap \<times> 'h) option" where
  "sm_set_int M h key i =
     (if i = 0 \<or> i = 1 then sm_set_value M h key (sm_bool (i \<noteq> 0))
      else sm_set_value M h key (sm_int i))"

definition sm_set_long :: "'h StringMap \<Rightarrow> 'h \<Rightarrow> StringView \<Rightarrow> int \<Rightarrow> (bool \<times> 'h StringMap \<times> 'h) option" where
  "sm_set_long M h key i = sm_set_value M h key (sm_int i)"

definition sm_set_long_long ::
    "'h StringMap \<Rightarrow> 'h \<Rightarrow> StringView \<Rightarrow> int \<Rightarrow> (bool \<times> 'h StringMap \<times> 'h) option" where
  "sm_set_long_long M h key i = sm_set_value M h key (sm_int i)"

definition sm_set_bool :: "'h StringMap \<Rightarrow> 'h \<Rightarrow> StringView \<Rightarrow> bool \<Rightarrow> (bool \<times> 'h StringMap \<times> 'h) option" where
  "sm_set_bool M h key b = sm_set_value M h key (sm_bool b)"

definition sm_set_string_view ::
    "'h StringMap \<Rightarrow> 'h \<Rightarrow> StringView \<Rightarrow> StringView \<Rightarrow> (bool \<times> 'h StringMap \<times> 'h) option" where
  "sm_set_string_view M h key s =
     (let (v, h1) = sm_string_copy M h s in sm_set_value M h1 key v)"

definition sm_get_const :: "'h StringMap \<Rightarrow> StringView \<Rightarrow> StringMapValue option" where
  "sm_get_const M key =
     (if \<not> string_map_key_valid key \<or> map_slots M = None then None
      else case fst (string_map_find_index M key (stringv_hash key)) of
        None \<Rightarrow> None
      | Some index \<Rightarrow> Some (slot_value (map_slot M index)))"

definition sm_get_int :: "'h StringMap \<Rightarrow> StringView \<Rightarrow> int option" where
  "sm_get_int M key =
     (case sm_get_const M key of
        None \<Rightarrow> None
      | Some v \<Rightarrow> (case value_payload v of SM_VALUE_INT64 i \<Rightarrow> Some i | _ \<Rightarrow> None))"

definition sm_get_bool :: "'h StringMap \<Rightarrow> StringView \<Rightarrow> bool option" where
  "sm_get_bool M key =
     (case sm_get_const M key of
        None \<Rightarrow> None
      | Some v \<Rightarrow> (case value_payload v of SM_VALUE_BOOL b \<Rightarrow> Some b | _ \<Rightarrow> None))"

definition sm_get_string :: "'h StringMap \<Rightarrow> StringView \<Rightarrow> StringView option" where
  "sm_get_string M key =
     (case sm_get_const M key of
        None \<Rightarrow> None
      | Some v \<Rightarrow> (case value_payload v of SM_VALUE_STRING s \<Rightarrow> Some s | _ \<Rightarrow> None))"

definition sm_get_pointer :: "'h StringMap \<Rightarrow> StringView \<Rightarrow> nat option" where
  "sm_get_pointer M key =
     (case sm_get_const M key of
        None \<Rightarrow> None
      | Some v \<Rightarrow> (case value_payload v of SM_VALUE_POINTER p \<Rightarrow> Some p | _ \<Rightarrow> None))"

definition sm_get_object_const :: "'h StringMap \<Rightarrow> StringView \<Rightarrow> size_t \<Rightarrow> buffer option" where
  "sm_get_object_const M key expected_size =
     (case sm_get_const M key of
        None \<Rightarrow> None
      | Some v \<Rightarrow>
          (case value_payload v of
             SM_VALUE_OBJECT data sz \<Rightarrow> if sz \<noteq> expected_size then None else data
           | _ \<Rightarrow> None))"

definition sm_contains :: "'h StringMap \<Rightarrow> StringView \<Rightarrow> bool" where
  "sm_contains M key \<longleftrightarrow> sm_get_const M key \<noteq> None"

definition sm_remove :: "'h StringMap \<Rightarrow> 'h \<Rightarrow> StringView \<Rightarrow> bool \<times> 'h StringMap \<times> 'h" where
  "sm_remove M h key =
     (if map_slots M = None \<or> \<not> string_map_key_valid key then (False, M, h)
      else case fst (string_map_find_index M key (stringv_hash key)) of
        None \<Rightarrow> (False, M, h)
      | Some index \<Rightarrow>
          (let (slot, h1) = string_map_slot_release M h (map_slot M index);
               M1 = map_slot_update M index (slot\<lparr>slot_state := STRING_MAP_SLOT_TOMBSTONE\<rparr>)
           in (True, M1\<lparr>map_length := map_length M1 - 1,
                        map_tombstone_count := map_tombstone_count M1 + 1\<rparr>, h1)))"

fun string_map_release_all :: "'h StringMap \<Rightarrow> 'h \<Rightarrow> StringMapSlot list \<Rightarrow> 'h" where
  "string_map_release_all M h [] = h"
| "string_map_release_all M h (slot # slots) =
     string_map_release_all M
       (if slot_state slot = STRING_MAP_SLOT_OCCUPIED then snd (string_map_slot_release M h slot) else h) slots"

definition sm_clear :: "'h StringMap \<Rightarrow> 'h \<Rightarrow> 'h StringMap \<times> 'h" where
  "sm_clear M h =
     (if \<not> string_map_initialized M then (M, h)
      else case map_slots M of
        None \<Rightarrow> (M, h)
      | Some slots \<Rightarrow>
          (M\<lparr>map_slots := Some (replicate (map_capacity M) slot_zero), map_length := 0,
             map_tombstone_count := 0\<rparr>,
           string_map_release_all M h slots))"

definition sm_destroy :: "'h StringMap \<Rightarrow> 'h \<Rightarrow> 'h StringMap \<times> 'h" where
  "sm_destroy M h =
     (map_zero,
      if string_map_initialized M
      then (let (M1, h1) = sm_clear M h
            in case map_slots M1 of
                 None \<Rightarrow> h1
               | Some slots \<Rightarrow> map_free M1 h1 (Some (slots_memory (map_capacity M1))))
      else h)"

definition sm_length :: "'h StringMap \<Rightarrow> size_t" where
  "sm_length M = map_length M"

definition sm_iterator :: size_t where
  "sm_iterator = 0"

text \<open>\<open>sm_next_const\<close> from an iterator position: the next position, key and value, or \<open>None\<close>.\<close>

fun sm_next_from :: "StringMapSlot list \<Rightarrow> size_t \<Rightarrow> (size_t \<times> StringView \<times> StringMapValue) option" where
  "sm_next_from [] index = None"
| "sm_next_from (slot # slots) index =
     (if slot_state slot = STRING_MAP_SLOT_OCCUPIED then Some (index + 1, slot_key slot, slot_value slot)
      else sm_next_from slots (index + 1))"

definition sm_next_const :: "'h StringMap \<Rightarrow> size_t \<Rightarrow> (size_t \<times> StringView \<times> StringMapValue) option" where
  "sm_next_const M index =
     (case map_slots M of
        None \<Rightarrow> None
      | Some slots \<Rightarrow> sm_next_from (drop index (take (map_capacity M) slots)) index)"

end
