(* ===== verification/StringMapLaws.thy ===== *)
theory StringMapLaws
  imports StringMap
begin

unbundle bit_operations_syntax

text \<open>
  The hash map refines a finite map from byte strings to values: the invariant of the slot array
  (counts, distinct keys, every key reachable by probing from its hash, at least one empty slot),
  the termination of the probing loops, and what lookup, insertion, removal and rehashing do to the
  abstract map.
\<close>

section \<open>Indices modulo the capacity\<close>

lemma mask_mod: "n AND (2 ^ k - 1) = n mod (2 ^ k :: nat)"
  by (metis mask_eq_exp_minus_1 take_bit_eq_mask take_bit_eq_mod)

definition power_of_two :: "nat \<Rightarrow> bool" where
  "power_of_two c \<longleftrightarrow> (\<exists>k<64. c = 2 ^ k)"

lemma power_of_two_pos: "power_of_two c \<Longrightarrow> 0 < c"
  by (auto simp: power_of_two_def)

lemma next_index_mod: "power_of_two c \<Longrightarrow> (i + 1) AND (c - 1) = (i + 1) mod c"
  unfolding power_of_two_def using mask_mod by auto

lemma hash_index_mod: "power_of_two c \<Longrightarrow> hash_index hash c = unat hash mod c"
proof -
  assume "power_of_two c"
  then obtain k where k: "k < 64" "c = 2 ^ k" by (auto simp: power_of_two_def)
  have "(2::nat) ^ k < 2 ^ 64" by (rule power_strict_increasing [OF k(1)]) simp
  then have "c - 1 < 2 ^ 64" using k by linarith
  then have "unat (of_nat (c - 1) :: 64 word) = c - 1" by (simp add: unsigned_of_nat take_bit_nat_eq_self_iff)
  then show ?thesis using k mask_mod [of "unat hash" k] by (simp add: hash_index_def unsigned_and_eq)
qed

lemma hash_index_less: "power_of_two c \<Longrightarrow> hash_index hash c < c"
  by (simp add: hash_index_mod power_of_two_pos)

section \<open>Probe paths\<close>

text \<open>The position \<open>d\<close> steps behind a start, and the slots that lie strictly before it on the path.\<close>

definition probe_pos :: "nat \<Rightarrow> nat \<Rightarrow> nat \<Rightarrow> nat" where
  "probe_pos c start d = (start + d) mod c"

abbreviation occupied :: "StringMapSlot \<Rightarrow> bool" where
  "occupied s \<equiv> slot_state s = STRING_MAP_SLOT_OCCUPIED"

abbreviation slot_free :: "StringMapSlot \<Rightarrow> bool" where
  "slot_free s \<equiv> slot_state s = STRING_MAP_SLOT_EMPTY"

abbreviation tombstone :: "StringMapSlot \<Rightarrow> bool" where
  "tombstone s \<equiv> slot_state s = STRING_MAP_SLOT_TOMBSTONE"

definition path_full :: "StringMapSlot list \<Rightarrow> nat \<Rightarrow> nat \<Rightarrow> nat \<Rightarrow> bool" where
  "path_full slots start a b \<longleftrightarrow> (\<forall>d. a \<le> d \<and> d < b \<longrightarrow> \<not> slot_free (slots ! probe_pos (length slots) start d))"

definition slot_matches :: "StringMapSlot \<Rightarrow> StringView \<Rightarrow> 64 word \<Rightarrow> bool" where
  "slot_matches s key hash \<longleftrightarrow> occupied s \<and> slot_hash s = hash \<and> stringv_equal (slot_key s) key"

lemma probe_pos_less [simp]: "0 < c \<Longrightarrow> probe_pos c start d < c"
  by (simp add: probe_pos_def)

lemma probe_pos_0 [simp]: "start < c \<Longrightarrow> probe_pos c start 0 = start"
  by (simp add: probe_pos_def)

lemma probe_pos_step:
  "power_of_two c \<Longrightarrow> (probe_pos c start d + 1) AND (c - 1) = probe_pos c start (d + 1)"
  by (simp only: next_index_mod) (simp add: probe_pos_def mod_Suc_eq)

lemma probe_pos_onto:
  assumes "i < c" "start < c" shows "\<exists>d<c. probe_pos c start d = i"
proof (cases "start \<le> i")
  case True
  then show ?thesis using assms by (intro exI [of _ "i - start"]) (auto simp: probe_pos_def)
next
  case False
  then have "probe_pos c start (i + c - start) = (i + c) mod c" using assms by (simp add: probe_pos_def)
  then show ?thesis using False assms by (intro exI [of _ "i + c - start"]) auto
qed

lemma path_full_step:
  "e < d \<Longrightarrow> path_full slots start e d \<longleftrightarrow>
     \<not> slot_free (slots ! probe_pos (length slots) start e) \<and> path_full slots start (e + 1) d"
  unfolding path_full_def by (metis Suc_eq_plus1 Suc_leD Suc_leI le_neq_implies_less order_refl)

lemma path_full_empty [simp]: "path_full slots start d d"
  unfolding path_full_def by (metis leD)

lemma path_full_sub: "path_full slots start a b \<Longrightarrow> d \<le> b \<Longrightarrow> path_full slots start a d"
  by (auto simp: path_full_def)

text \<open>One round of the probing loop.\<close>

lemma probe_step:
  assumes "power_of_two (length slots)"
  shows "string_map_probe (Suc n) slots (length slots) key hash (probe_pos (length slots) start e) t =
    (if slot_free (slots ! probe_pos (length slots) start e) then (None, t)
     else if slot_matches (slots ! probe_pos (length slots) start e) key hash then (Some (probe_pos (length slots) start e), t)
     else string_map_probe n slots (length slots) key hash (probe_pos (length slots) start (e + 1))
            (if tombstone (slots ! probe_pos (length slots) start e) \<and> t = None then Some (probe_pos (length slots) start e) else t))"
  using probe_pos_step [OF assms(1), of start e] 
  by (cases "slot_state (slots ! probe_pos (length slots) start e)")
     (auto simp: Let_def slot_matches_def)

declare string_map_probe.simps(2) [simp del]

abbreviation slot_at :: "StringMapSlot list \<Rightarrow> nat \<Rightarrow> nat \<Rightarrow> StringMapSlot" where
  "slot_at slots start d \<equiv> slots ! probe_pos (length slots) start d"

abbreviation probe ::
    "StringMapSlot list \<Rightarrow> StringView \<Rightarrow> 64 word \<Rightarrow> nat \<Rightarrow> nat \<Rightarrow> nat \<Rightarrow> size_t option \<Rightarrow>
     size_t option \<times> size_t option" where
  "probe slots key hash start n e t \<equiv>
     string_map_probe n slots (length slots) key hash (probe_pos (length slots) start e) t"

lemma probe_found:
  assumes pow: "power_of_two (length slots)"
  shows "probe slots key hash start n e t = (Some i, t') \<Longrightarrow>
   \<exists>d. e \<le> d \<and> d < e + n \<and> i = probe_pos (length slots) start d \<and> slot_matches (slots ! i) key hash \<and> path_full slots start e d"
proof (induction n arbitrary: e t)
  case (Suc n)
  show ?case
  proof (cases "slot_free (slot_at slots start e) \<or> slot_matches (slot_at slots start e) key hash")
    case True
    then show ?thesis using Suc.prems unfolding probe_step [OF pow] by (auto split: if_splits)
  next
    case False
    then obtain t1 where "probe slots key hash start n (e + 1) t1 = (Some i, t')"
      using Suc.prems unfolding probe_step [OF pow] by auto
    from Suc.IH [OF this] obtain d where d: "e + 1 \<le> d" "d < e + 1 + n" "i = probe_pos (length slots) start d"
      "slot_matches (slots ! i) key hash" "path_full slots start (e + 1) d" by blast
    then show ?thesis using False path_full_step [of e d slots start]
      by (intro exI [of _ d]) auto
  qed
qed simp

lemma probe_missing:
  assumes pow: "power_of_two (length slots)"
  shows "probe slots key hash start n e t = (None, t') \<Longrightarrow> e \<le> d \<Longrightarrow> d < e + n \<Longrightarrow> path_full slots start e d \<Longrightarrow>
   \<not> slot_matches (slot_at slots start d) key hash"
proof (induction n arbitrary: e t)
  case (Suc n)
  show ?case
  proof (cases "d = e")
    case True
    then show ?thesis using Suc.prems(1) unfolding probe_step [OF pow]
      by (auto simp: slot_matches_def split: if_splits)
  next
    case False
    then have d: "e < d" using Suc.prems(2) by simp
    then have path: "\<not> slot_free (slot_at slots start e)" "path_full slots start (e + 1) d"
      using Suc.prems(4) path_full_step by blast+
    then obtain t1 where "probe slots key hash start n (e + 1) t1 = (None, t')"
      using Suc.prems(1) unfolding probe_step [OF pow] by (auto split: if_splits)
    from Suc.IH [OF this _ _ path(2)] show ?thesis using d Suc.prems(3) by simp
  qed
qed simp

lemma probe_keeps_tombstone:
  assumes pow: "power_of_two (length slots)"
  shows "t \<noteq> None \<Longrightarrow> snd (probe slots key hash start n e t) = t"
  by (induction n arbitrary: e) (auto simp: probe_step [OF pow])

lemma probe_tombstone:
  assumes pow: "power_of_two (length slots)"
  shows "snd (probe slots key hash start n e None) = Some i \<Longrightarrow>
   \<exists>d. e \<le> d \<and> d < e + n \<and> i = probe_pos (length slots) start d \<and> tombstone (slots ! i) \<and> path_full slots start e d"
proof (induction n arbitrary: e)
  case (Suc n)
  show ?case
  proof (cases "tombstone (slot_at slots start e)")
    case True
    then have "probe slots key hash start (Suc n) e None = probe slots key hash start n (e + 1) (Some (probe_pos (length slots) start e))"
      unfolding probe_step [OF pow] by (simp add: slot_matches_def)
    then have "i = probe_pos (length slots) start e" using Suc.prems probe_keeps_tombstone [OF pow, of "Some (probe_pos (length slots) start e)" n key hash start "e + 1"] by simp
    then show ?thesis using True by (intro exI [of _ e]) simp
  next
    case False
    then have nf: "\<not> slot_free (slot_at slots start e)" "snd (probe slots key hash start n (e + 1) None) = Some i"
      using Suc.prems unfolding probe_step [OF pow] by (auto split: if_splits)
    from Suc.IH [OF nf(2)] obtain d where "e + 1 \<le> d" "d < e + 1 + n" "i = probe_pos (length slots) start d"
      "tombstone (slots ! i)" "path_full slots start (e + 1) d" by blast
    then show ?thesis using nf(1) path_full_step [of e d slots start] by (intro exI [of _ d]) auto
  qed
qed simp

lemma probe_no_tombstone:
  assumes pow: "power_of_two (length slots)"
  shows "probe slots key hash start n e None = (None, None) \<Longrightarrow> e \<le> d \<Longrightarrow> d < e + n \<Longrightarrow> path_full slots start e d \<Longrightarrow>
   \<not> tombstone (slot_at slots start d)"
proof (induction n arbitrary: e)
  case (Suc n)
  have nt: "\<not> tombstone (slot_at slots start e)"
  proof
    assume t: "tombstone (slot_at slots start e)"
    then have "probe slots key hash start (Suc n) e None = probe slots key hash start n (e + 1) (Some (probe_pos (length slots) start e))"
      unfolding probe_step [OF pow] by (simp add: slot_matches_def)
    then show False using Suc.prems(1) probe_keeps_tombstone [OF pow, of "Some (probe_pos (length slots) start e)" n key hash start "e + 1"]
      by (metis option.distinct(1) snd_conv)
  qed
  show ?case
  proof (cases "d = e")
    case False
    then have d: "e < d" using Suc.prems(2) by simp
    then have path: "\<not> slot_free (slot_at slots start e)" "path_full slots start (e + 1) d"
      using Suc.prems(4) path_full_step by blast+
    then have "probe slots key hash start n (e + 1) None = (None, None)"
      using Suc.prems(1) nt unfolding probe_step [OF pow] by (auto split: if_splits)
    from Suc.IH [OF this _ _ path(2)] show ?thesis using d Suc.prems(3) by simp
  qed (use nt in simp)
qed simp

lemma skip_occupied:
  assumes pow: "power_of_two (length slots)"
    and at: "d < length slots" "\<not> occupied (slot_at slots start d)" "\<forall>d'. e \<le> d' \<and> d' < d \<longrightarrow> occupied (slot_at slots start d')"
  shows "e \<le> d \<Longrightarrow> d - e \<le> n \<Longrightarrow>
    string_map_skip_occupied n slots (length slots) (probe_pos (length slots) start e) = Some (probe_pos (length slots) start d)"
  using at(3)
proof (induction n arbitrary: e)
  case 0
  then show ?case using at(2) by (subst string_map_skip_occupied.simps) simp
next
  case (Suc n)
  show ?case
  proof (cases "e = d")
    case True
    then show ?thesis using at(2) by (subst string_map_skip_occupied.simps) simp
  next
    case False
    then have "occupied (slot_at slots start e)" using Suc.prems by simp
    moreover have "string_map_skip_occupied n slots (length slots) (probe_pos (length slots) start (e + 1)) = Some (probe_pos (length slots) start d)"
      using Suc.IH [of "e + 1"] Suc.prems False by simp
    ultimately show ?thesis using probe_pos_step [OF pow, of start e]
      by (subst string_map_skip_occupied.simps) simp
  qed
qed

section \<open>The invariant of the slot array\<close>

definition slot_pair :: "StringMapSlot \<Rightarrow> char list \<times> StringMapValue" where
  "slot_pair s = (sv_bytes (slot_key s), slot_value s)"

definition occ_pairs :: "StringMapSlot list \<Rightarrow> (char list \<times> StringMapValue) list" where
  "occ_pairs slots = map slot_pair (filter occupied slots)"

abbreviation occ_keys :: "StringMapSlot list \<Rightarrow> char list list" where
  "occ_keys slots \<equiv> map fst (occ_pairs slots)"

definition slot_placed :: "StringMapSlot list \<Rightarrow> nat \<Rightarrow> bool" where
  "slot_placed slots i \<longleftrightarrow>
     slot_hash (slots ! i) = stringv_hash (slot_key (slots ! i)) \<and>
     string_map_key_valid (slot_key (slots ! i)) \<and>
     (let start = hash_index (slot_hash (slots ! i)) (length slots)
      in \<exists>d<length slots. i = probe_pos (length slots) start d \<and> path_full slots start 0 d)"

definition slots_ok :: "StringMapSlot list \<Rightarrow> bool" where
  "slots_ok slots \<longleftrightarrow> power_of_two (length slots) \<and> distinct (occ_keys slots) \<and>
     (\<forall>i<length slots. occupied (slots ! i) \<longrightarrow> slot_placed slots i)"

definition slots_map :: "StringMapSlot list \<Rightarrow> char list \<rightharpoonup> StringMapValue" where
  "slots_map slots = map_of (occ_pairs slots)"

definition occ_count :: "StringMapSlot list \<Rightarrow> nat" where
  "occ_count slots = length (filter occupied slots)"

definition tomb_count :: "StringMapSlot list \<Rightarrow> nat" where
  "tomb_count slots = length (filter tombstone slots)"

lemma key_valid_iff: "string_map_key_valid v \<longleftrightarrow> stringv_valid v"
  by (auto simp: string_map_key_valid_def stringv_valid_def)

lemma valid_hash: "string_map_key_valid v \<Longrightarrow> stringv_hash v = stringv_hash_bytes 14695981039346656037 (sv_bytes v)"
  by (simp add: stringv_hash_def key_valid_iff)

lemma valid_equal:
  "string_map_key_valid a \<Longrightarrow> string_map_key_valid b \<Longrightarrow> stringv_equal a b \<longleftrightarrow> sv_bytes a = sv_bytes b"
  by (cases a; cases b) (auto simp: key_valid_iff view_simps)

lemma valid_length: "string_map_key_valid v \<Longrightarrow> length (sv_bytes v) = sv_length v"
  by (cases v) (auto simp: string_map_key_valid_def)

text \<open>One slot of the array, seen as a splitting of the list.\<close>

lemma list_update_split: "i < length xs \<Longrightarrow> xs[i := x] = take i xs @ x # drop (Suc i) xs"
  by (simp add: upd_conv_take_nth_drop)

lemma occ_pairs_append [simp]: "occ_pairs (xs @ ys) = occ_pairs xs @ occ_pairs ys"
  by (simp add: occ_pairs_def)

lemma occ_pairs_Cons [simp]:
  "occ_pairs (s # xs) = (if occupied s then slot_pair s # occ_pairs xs else occ_pairs xs)"
  "occ_pairs [] = []"
  by (simp_all add: occ_pairs_def)

lemma occ_pairs_split:
  "i < length slots \<Longrightarrow> occ_pairs slots =
     occ_pairs (take i slots) @ (if occupied (slots ! i) then [slot_pair (slots ! i)] else []) @
     occ_pairs (drop (Suc i) slots)"
  by (subst id_take_nth_drop [of i slots]) auto

lemma occ_pairs_mem: "p \<in> set (occ_pairs slots) \<longleftrightarrow> (\<exists>i<length slots. occupied (slots ! i) \<and> p = slot_pair (slots ! i))"
  by (auto simp: occ_pairs_def in_set_conv_nth)

lemma count_update:
  assumes "i < length xs"
  shows "length (filter P (xs[i := x])) + of_bool (P (xs ! i)) = length (filter P xs) + of_bool (P x)"
proof -
  have "length (filter P xs) = length (filter P (take i xs)) + of_bool (P (xs ! i)) + length (filter P (drop (Suc i) xs))"
    by (subst id_take_nth_drop [OF assms]) simp
  then show ?thesis by (simp add: list_update_split [OF assms])
qed

lemma exists_free:
  assumes "occ_count slots + tomb_count slots < length slots"
  shows "\<exists>i<length slots. slot_free (slots ! i)"
proof (rule ccontr)
  assume "\<not> (\<exists>i<length slots. slot_free (slots ! i))"
  then have all: "\<forall>s\<in>set slots. occupied s \<or> tombstone s"
    by (auto simp: in_set_conv_nth) (metis StringMapSlotState.exhaust)
  then have "filter tombstone slots = filter (\<lambda>s. \<not> occupied s) slots"
    by (intro filter_cong) auto
  then show False using assms sum_length_filter_compl [of occupied slots]
    by (simp add: occ_count_def tomb_count_def)
qed

lemma slots_map_Some:
  "slots_ok slots \<Longrightarrow> slots_map slots k = Some v \<longleftrightarrow>
     (\<exists>i<length slots. occupied (slots ! i) \<and> sv_bytes (slot_key (slots ! i)) = k \<and> slot_value (slots ! i) = v)"
  unfolding slots_map_def slots_ok_def using map_of_eq_Some_iff [of "occ_pairs slots" k v]
  by (auto simp: occ_pairs_mem slot_pair_def)

lemma slots_map_None:
  "slots_map slots k = None \<longleftrightarrow> (\<forall>i<length slots. occupied (slots ! i) \<longrightarrow> sv_bytes (slot_key (slots ! i)) \<noteq> k)"
proof -
  have "slots_map slots k = None \<longleftrightarrow> k \<notin> fst ` set (occ_pairs slots)"
    by (simp add: slots_map_def map_of_eq_None_iff)
  then show ?thesis by (force simp: occ_pairs_mem slot_pair_def)
qed

text \<open>Looking a key up in a well-formed array.\<close>

lemma find_Some:
  assumes ok: "slots_ok slots" and key: "string_map_key_valid key"
    and p: "string_map_probe (length slots) slots (length slots) key (stringv_hash key)
              (hash_index (stringv_hash key) (length slots)) None = (Some i, t)"
  shows "i < length slots" "occupied (slots ! i)" "sv_bytes (slot_key (slots ! i)) = sv_bytes key"
proof -
  have pow: "power_of_two (length slots)" using ok by (simp add: slots_ok_def)
  let ?start = "hash_index (stringv_hash key) (length slots)"
  have s0: "probe_pos (length slots) ?start 0 = ?start" by (simp add: hash_index_less [OF pow])
  obtain d where d: "i = probe_pos (length slots) ?start d" "slot_matches (slots ! i) key (stringv_hash key)"
    using probe_found [OF pow, of "length slots" key "stringv_hash key" ?start 0 None i t] p s0 by auto
  show i: "i < length slots" using d(1) power_of_two_pos [OF pow] by simp
  show "occupied (slots ! i)" using d(2) by (simp add: slot_matches_def)
  then have "string_map_key_valid (slot_key (slots ! i))"
    using ok i by (auto simp: slots_ok_def slot_placed_def)
  then show "sv_bytes (slot_key (slots ! i)) = sv_bytes key"
    using d(2) valid_equal [OF _ key] by (simp add: slot_matches_def)
qed

lemma find_None:
  assumes ok: "slots_ok slots" and key: "string_map_key_valid key"
    and p: "string_map_probe (length slots) slots (length slots) key (stringv_hash key)
              (hash_index (stringv_hash key) (length slots)) None = (None, t)"
  shows "slots_map slots (sv_bytes key) = None"
  unfolding slots_map_None
proof (intro allI impI notI)
  fix i assume i: "i < length slots" "occupied (slots ! i)" "sv_bytes (slot_key (slots ! i)) = sv_bytes key"
  have pow: "power_of_two (length slots)" using ok by (simp add: slots_ok_def)
  let ?start = "hash_index (stringv_hash key) (length slots)"
  have s0: "probe_pos (length slots) ?start 0 = ?start" by (simp add: hash_index_less [OF pow])
  have pl: "slot_placed slots i" using ok i by (simp add: slots_ok_def)
  then have valid: "string_map_key_valid (slot_key (slots ! i))" by (simp add: slot_placed_def)
  then have hash: "slot_hash (slots ! i) = stringv_hash key"
    using pl valid_hash [OF valid] valid_hash [OF key] i(3) by (simp add: slot_placed_def)
  then obtain d where d: "d < length slots" "i = probe_pos (length slots) ?start d" "path_full slots ?start 0 d"
    using pl by (auto simp: slot_placed_def Let_def)
  have "slot_matches (slots ! i) key (stringv_hash key)"
    using i hash valid_equal [OF valid key] by (simp add: slot_matches_def)
  then show False
    using probe_missing [OF pow, of "length slots" key "stringv_hash key" ?start 0 None t d] p d s0 by simp
qed

text \<open>The place a new key goes to: not occupied, with no empty slot before it on the key's path.\<close>

definition insert_place :: "StringMapSlot list \<Rightarrow> 64 word \<Rightarrow> nat \<Rightarrow> bool" where
  "insert_place slots hash i \<longleftrightarrow> i < length slots \<and> \<not> occupied (slots ! i) \<and>
     (\<exists>d<length slots. i = probe_pos (length slots) (hash_index hash (length slots)) d \<and>
        path_full slots (hash_index hash (length slots)) 0 d)"

lemma first_unoccupied:
  assumes pow: "power_of_two (length slots)" and free: "\<exists>i<length slots. slot_free (slots ! i)"
    and nt: "\<And>d. d < length slots \<Longrightarrow> path_full slots start 0 d \<Longrightarrow> \<not> tombstone (slot_at slots start d)"
    and start: "start < length slots"
  shows "\<exists>d<length slots. slot_free (slot_at slots start d) \<and> path_full slots start 0 d \<and>
    string_map_skip_occupied (length slots) slots (length slots) start = Some (probe_pos (length slots) start d)"
proof -
  obtain i where i: "i < length slots" "slot_free (slots ! i)" using free by auto
  obtain d1 where d1: "d1 < length slots" "probe_pos (length slots) start d1 = i"
    using probe_pos_onto [OF i(1) start] by auto
  define d where "d = (LEAST d. slot_free (slot_at slots start d))"
  have d: "slot_free (slot_at slots start d)" unfolding d_def
    by (rule LeastI [of _ d1]) (use d1 i in simp)
  have "d \<le> d1" unfolding d_def by (rule Least_le) (use d1 i in simp)
  then have dl: "d < length slots" using d1 by simp
  have before: "\<not> slot_free (slot_at slots start d')" if "d' < d" for d'
    using not_less_Least that unfolding d_def by blast
  then have path: "path_full slots start 0 d" by (simp add: path_full_def)
  have occ: "\<forall>d'. 0 \<le> d' \<and> d' < d \<longrightarrow> occupied (slot_at slots start d')"
  proof (intro allI impI)
    fix d' assume d': "0 \<le> d' \<and> d' < d"
    then have "\<not> tombstone (slot_at slots start d')" using nt [of d'] dl path_full_sub [OF path, of d'] by simp
    then show "occupied (slot_at slots start d')" using before d' by (metis StringMapSlotState.exhaust)
  qed
  have "string_map_skip_occupied (length slots) slots (length slots) (probe_pos (length slots) start 0) =
      Some (probe_pos (length slots) start d)"
    by (rule skip_occupied [OF pow dl _ occ]) (use d dl in auto)
  then show ?thesis using d dl path start by auto
qed

section \<open>Writing one slot\<close>

lemma path_full_update:
  "path_full slots start a b \<Longrightarrow> \<not> slot_free s \<Longrightarrow> path_full (slots[i := s]) start a b"
  by (cases "i < length slots") (auto simp: path_full_def nth_list_update list_update_beyond)

lemma slots_ok_update:
  assumes ok: "slots_ok slots" and i: "i < length slots" and s: "\<not> slot_free s"
    and dist: "distinct (occ_keys (slots[i := s]))"
    and placed: "occupied s \<Longrightarrow> slot_placed (slots[i := s]) i"
  shows "slots_ok (slots[i := s])"
  unfolding slots_ok_def
proof (intro conjI allI impI)
  show "power_of_two (length (slots[i := s]))" using ok by (simp add: slots_ok_def)
  show "distinct (occ_keys (slots[i := s]))" by (rule dist)
  fix j assume j: "j < length (slots[i := s])" "occupied (slots[i := s] ! j)"
  show "slot_placed (slots[i := s]) j"
  proof (cases "j = i")
    case True
    then show ?thesis using placed j i by simp
  next
    case False
    then have "slot_placed slots j" using ok j by (simp add: slots_ok_def)
    then show ?thesis using False path_full_update [OF _ s]
      unfolding slot_placed_def Let_def by auto
  qed
qed

lemma map_of_insert:
  "k \<notin> set (map fst xs) \<Longrightarrow> map_of (xs @ (k, v) # ys) = (map_of (xs @ ys))(k \<mapsto> v)"
  by (induction xs) (auto simp: fun_upd_twist)

lemma map_of_delete:
  "k \<notin> set (map fst xs) \<Longrightarrow> k \<notin> set (map fst ys) \<Longrightarrow>
   map_of (xs @ ys) = (map_of (xs @ (k, v) # ys))(k := None)"
  by (induction xs) (auto simp: fun_upd_twist fun_upd_idem map_of_eq_None_iff)

lemma insert_slot:
  assumes ok: "slots_ok slots" and place: "insert_place slots (slot_hash s) i" and s: "occupied s"
    and hash: "slot_hash s = stringv_hash (slot_key s)" and valid: "string_map_key_valid (slot_key s)"
    and new: "slots_map slots (sv_bytes (slot_key s)) = None"
  shows "slots_ok (slots[i := s])"
    and "slots_map (slots[i := s]) = (slots_map slots)(sv_bytes (slot_key s) \<mapsto> slot_value s)"
    and "occ_count (slots[i := s]) = occ_count slots + 1"
    and "tomb_count (slots[i := s]) = tomb_count slots - of_bool (tombstone (slots ! i))"
proof -
  let ?k = "sv_bytes (slot_key s)"
  have i: "i < length slots" "\<not> occupied (slots ! i)" using place by (auto simp: insert_place_def)
  have pairs: "occ_pairs (slots[i := s]) = occ_pairs (take i slots) @ slot_pair s # occ_pairs (drop (Suc i) slots)"
      "occ_pairs slots = occ_pairs (take i slots) @ occ_pairs (drop (Suc i) slots)"
    using occ_pairs_split [OF i(1)] i s by (simp_all add: list_update_split)
  have nk: "?k \<notin> set (occ_keys slots)" using new
    by (simp add: slots_map_def map_of_eq_None_iff)
  have dist: "distinct (occ_keys (slots[i := s]))"
    using ok nk unfolding pairs slots_ok_def by (auto simp: pairs slot_pair_def)
  obtain d where d: "d < length slots" "i = probe_pos (length slots) (hash_index (slot_hash s) (length slots)) d"
      "path_full slots (hash_index (slot_hash s) (length slots)) 0 d"
    using place by (auto simp: insert_place_def)
  have "path_full (slots[i := s]) (hash_index (slot_hash s) (length slots)) 0 d"
    by (rule path_full_update [OF d(3)]) (use s in simp)
  then have "slot_placed (slots[i := s]) i"
    unfolding slot_placed_def Let_def using d(1,2) i hash valid by auto
  then show "slots_ok (slots[i := s])"
    by (intro slots_ok_update [OF ok i(1) _ dist]) (use s in simp_all)
  have "?k \<notin> set (occ_keys (take i slots))" using nk pairs(2) by simp
  then show "slots_map (slots[i := s]) = (slots_map slots)(?k \<mapsto> slot_value s)"
    unfolding slots_map_def pairs slot_pair_def by (rule map_of_insert)
  show "occ_count (slots[i := s]) = occ_count slots + 1"
    using count_update [OF i(1), of occupied s] i s by (simp add: occ_count_def)
  show "tomb_count (slots[i := s]) = tomb_count slots - of_bool (tombstone (slots ! i))"
    using count_update [OF i(1), of tombstone s] s by (simp add: tomb_count_def)
qed

lemma overwrite_slot:
  fixes v :: StringMapValue
  assumes ok: "slots_ok slots" and i: "i < length slots" "occupied (slots ! i)"
  defines "slots' \<equiv> slots[i := (slots ! i)\<lparr>slot_value := v\<rparr>]"
  shows "slots_ok slots'"
    and "slots_map slots' = (slots_map slots)(sv_bytes (slot_key (slots ! i)) \<mapsto> v)"
    and "occ_count slots' = occ_count slots" and "tomb_count slots' = tomb_count slots"
proof -
  let ?s = "(slots ! i)\<lparr>slot_value := v\<rparr>"
  let ?k = "sv_bytes (slot_key (slots ! i))"
  have pairs: "occ_pairs slots' = occ_pairs (take i slots) @ (?k, v) # occ_pairs (drop (Suc i) slots)"
      "occ_pairs slots = occ_pairs (take i slots) @ (?k, slot_value (slots ! i)) # occ_pairs (drop (Suc i) slots)"
    using occ_pairs_split [OF i(1)] i by (simp_all add: list_update_split slots'_def slot_pair_def)
  have dist0: "distinct (occ_keys slots)" using ok by (simp add: slots_ok_def)
  have dist: "distinct (occ_keys slots')" using dist0 unfolding pairs by simp
  have old: "slot_placed slots i" using ok i by (simp add: slots_ok_def)
  have nf: "\<not> slot_free ?s" using i by simp
  have "slot_placed slots' i"
    using old i path_full_update [OF _ nf, of slots _ _ _ i]
    unfolding slot_placed_def Let_def slots'_def by auto
  then show "slots_ok slots'" unfolding slots'_def
    by (intro slots_ok_update [OF ok i(1) nf]) (use dist in \<open>simp_all add: slots'_def\<close>)
  have "?k \<notin> set (occ_keys (take i slots))" using dist0 unfolding pairs by simp
  then show "slots_map slots' = (slots_map slots)(?k \<mapsto> v)"
    unfolding slots_map_def pairs using map_of_insert [of ?k "occ_pairs (take i slots)" _ "occ_pairs (drop (Suc i) slots)"]
    by simp
  show "occ_count slots' = occ_count slots" "tomb_count slots' = tomb_count slots"
    using count_update [OF i(1), of occupied ?s] count_update [OF i(1), of tombstone ?s] i
    by (simp_all add: occ_count_def tomb_count_def slots'_def)
qed

lemma remove_slot:
  assumes ok: "slots_ok slots" and i: "i < length slots" "occupied (slots ! i)" and s: "tombstone s"
  shows "slots_ok (slots[i := s])"
    and "slots_map (slots[i := s]) = (slots_map slots)(sv_bytes (slot_key (slots ! i)) := None)"
    and "occ_count slots = occ_count (slots[i := s]) + 1" and "tomb_count (slots[i := s]) = tomb_count slots + 1"
proof -
  let ?k = "sv_bytes (slot_key (slots ! i))"
  have pairs: "occ_pairs (slots[i := s]) = occ_pairs (take i slots) @ occ_pairs (drop (Suc i) slots)"
      "occ_pairs slots = occ_pairs (take i slots) @ (?k, slot_value (slots ! i)) # occ_pairs (drop (Suc i) slots)"
    using occ_pairs_split [OF i(1)] i s by (simp_all add: list_update_split slot_pair_def)
  have dist0: "distinct (occ_keys slots)" using ok by (simp add: slots_ok_def)
  have dist: "distinct (occ_keys (slots[i := s]))" using dist0 unfolding pairs by simp
  show "slots_ok (slots[i := s])"
    by (intro slots_ok_update [OF ok i(1) _ dist]) (use s in simp_all)
  have "?k \<notin> set (occ_keys (take i slots))" "?k \<notin> set (occ_keys (drop (Suc i) slots))"
    using dist0 unfolding pairs by simp_all
  then show "slots_map (slots[i := s]) = (slots_map slots)(?k := None)"
    unfolding slots_map_def pairs by (rule map_of_delete)
  show "occ_count slots = occ_count (slots[i := s]) + 1" "tomb_count (slots[i := s]) = tomb_count slots + 1"
    using count_update [OF i(1), of occupied s] count_update [OF i(1), of tombstone s] i s
    by (simp_all add: occ_count_def tomb_count_def)
qed

section \<open>Rehashing\<close>

lemma empty_slots:
  assumes "power_of_two n"
  shows "slots_ok (replicate n slot_zero)" "slots_map (replicate n slot_zero) = Map.empty"
    "occ_count (replicate n slot_zero) = 0" "tomb_count (replicate n slot_zero) = 0"
proof -
  have "occ_pairs (replicate n slot_zero) = []" by (simp add: occ_pairs_def slot_zero_def)
  then show "slots_ok (replicate n slot_zero)" "slots_map (replicate n slot_zero) = Map.empty"
    using assms by (simp_all add: slots_ok_def slots_map_def slot_zero_def)
qed (simp_all add: occ_count_def tomb_count_def slot_zero_def)

definition slot_good :: "StringMapSlot \<Rightarrow> bool" where
  "slot_good s \<longleftrightarrow> occupied s \<longrightarrow>
     slot_hash s = stringv_hash (slot_key s) \<and> string_map_key_valid (slot_key s)"

lemma move_spec:
  assumes "slots_ok new" "tomb_count new = 0" "occ_count new + occ_count old < length new"
    "distinct (occ_keys old)" "\<forall>s\<in>set old. slot_good s" "set (occ_keys old) \<inter> dom (slots_map new) = {}"
  shows "\<exists>new'. string_map_move old new (length new) = Some new' \<and> slots_ok new' \<and>
    length new' = length new \<and> tomb_count new' = 0 \<and> occ_count new' = occ_count new + occ_count old \<and>
    slots_map new' = slots_map new ++ slots_map old"
  using assms
proof (induction old arbitrary: new)
  case Nil
  then show ?case by (simp add: occ_count_def slots_map_def)
next
  case (Cons s old)
  show ?case
  proof (cases "occupied s")
    case False
    then show ?thesis using Cons.IH [of new] Cons.prems by (simp add: occ_count_def slots_map_def)
  next
    case True
    let ?k = "sv_bytes (slot_key s)" and ?n = "length new"
    have pow: "power_of_two ?n" using Cons.prems(1) by (simp add: slots_ok_def)
    have start: "hash_index (slot_hash s) ?n < ?n" by (rule hash_index_less [OF pow])
    have nt: "\<not> tombstone x" if "x \<in> set new" for x
      using Cons.prems(2) that by (auto simp: tomb_count_def filter_empty_conv)
    obtain d where d: "d < ?n" "slot_free (slot_at new (hash_index (slot_hash s) ?n) d)"
        "path_full new (hash_index (slot_hash s) ?n) 0 d"
        "string_map_skip_occupied ?n new ?n (hash_index (slot_hash s) ?n) =
           Some (probe_pos ?n (hash_index (slot_hash s) ?n) d)"
      using first_unoccupied [OF pow exists_free _ start] nt power_of_two_pos [OF pow] Cons.prems(2,3)
      by fastforce
    let ?i = "probe_pos ?n (hash_index (slot_hash s) ?n) d"
    have place: "insert_place new (slot_hash s) ?i"
      using d power_of_two_pos [OF pow] by (auto simp: insert_place_def)
    have good: "slot_hash s = stringv_hash (slot_key s)" "string_map_key_valid (slot_key s)"
      using Cons.prems(5) True by (auto simp: slot_good_def)
    have fresh: "slots_map new ?k = None" using Cons.prems(6) True by (auto simp: slot_pair_def)
    note ins = insert_slot [OF Cons.prems(1) place True good fresh]
    let ?new = "new[?i := s]"
    have "string_map_move old ?new (length ?new) = string_map_move (s # old) new ?n"
      using True d(4) by simp
    moreover have "\<exists>new'. string_map_move old ?new (length ?new) = Some new' \<and> slots_ok new' \<and>
      length new' = length ?new \<and> tomb_count new' = 0 \<and> occ_count new' = occ_count ?new + occ_count old \<and>
      slots_map new' = slots_map ?new ++ slots_map old"
    proof (rule Cons.IH [OF ins(1)])
      show "tomb_count ?new = 0" using ins(4) Cons.prems(2) by simp
      show "occ_count ?new + occ_count old < length ?new"
        using ins(3) Cons.prems(3) True by (simp add: occ_count_def)
      show "distinct (occ_keys old)" "\<forall>s\<in>set old. slot_good s" using Cons.prems(4,5) True by simp_all
      show "set (occ_keys old) \<inter> dom (slots_map ?new) = {}"
        using Cons.prems(4,6) True unfolding ins(2) by (auto simp: slot_pair_def)
    qed
    moreover have "slots_map (s # old) = (slots_map old)(?k \<mapsto> slot_value s)"
      using True by (simp add: slots_map_def slot_pair_def)
    moreover have "slots_map old ?k = None" using Cons.prems(4) True
      by (simp add: slots_map_def map_of_eq_None_iff slot_pair_def)
    ultimately show ?thesis using ins(2,3) True
      by (auto simp: occ_count_def map_add_def fun_eq_iff split: option.splits)
  qed
qed

section \<open>The invariant of the map\<close>

definition sm_ok :: "'h StringMap \<Rightarrow> bool" where
  "sm_ok M \<longleftrightarrow> string_map_initialized M \<and>
     (case map_slots M of
        None \<Rightarrow> map_capacity M = 0 \<and> map_length M = 0 \<and> map_tombstone_count M = 0
      | Some slots \<Rightarrow>
          map_capacity M = length slots \<and> length slots \<le> SIZE_MAX div sizeof_StringMapSlot \<and> slots_ok slots \<and>
          map_length M = occ_count slots \<and> map_tombstone_count M = tomb_count slots \<and>
          occ_count slots + tomb_count slots < length slots)"

definition sm_map :: "'h StringMap \<Rightarrow> char list \<rightharpoonup> StringMapValue" where
  "sm_map M = (case map_slots M of None \<Rightarrow> Map.empty | Some slots \<Rightarrow> slots_map slots)"

lemma sm_okD:
  "sm_ok M \<Longrightarrow> map_slots M = Some slots \<Longrightarrow>
   map_capacity M = length slots \<and> length slots \<le> SIZE_MAX div sizeof_StringMapSlot \<and> slots_ok slots \<and>
   map_length M = occ_count slots \<and> map_tombstone_count M = tomb_count slots \<and>
   occ_count slots + tomb_count slots < length slots \<and> 0 < length slots"
  using power_of_two_pos by (auto simp: sm_ok_def slots_ok_def)

lemma find_index_probe:
  assumes "sm_ok M" "map_slots M = Some slots" "string_map_key_valid key"
  shows "string_map_find_index M key hash =
    string_map_probe (length slots) slots (length slots) key hash (hash_index hash (length slots)) None"
  using sm_okD [OF assms(1,2)] assms by (auto simp: string_map_find_index_def sm_ok_def)

lemma occ_slots_good: "slots_ok slots \<Longrightarrow> \<forall>s\<in>set slots. slot_good s"
  by (auto simp: slots_ok_def slot_placed_def slot_good_def in_set_conv_nth)

lemma free_only_changes_heap [simp]: "map_allocator (map_slot_update M i s) = map_allocator M"
  by (simp add: map_slot_update_def)

lemma rehash_spec:
  assumes ok: "sm_ok M" and n: "n \<le> SIZE_MAX div sizeof_StringMapSlot \<Longrightarrow> power_of_two n"
    and room: "map_length M < n"
  shows "\<exists>b M' h'. string_map_rehash M h n = Some (b, M', h') \<and> sm_ok M' \<and> sm_map M' = sm_map M \<and>
    map_allocator M' = map_allocator M \<and> (\<not> b \<longrightarrow> M' = M) \<and>
    (b \<longrightarrow> map_slots M' \<noteq> None \<and> map_capacity M' = n \<and> map_tombstone_count M' = 0 \<and> map_length M' = map_length M)"
proof -
  have init: "string_map_initialized M" using ok by (simp add: sm_ok_def)
  show ?thesis
  proof (cases "n \<le> SIZE_MAX div sizeof_StringMapSlot")
    case False
    then have "string_map_rehash M h n = Some (False, M, h)"
      by (simp add: string_map_rehash_def string_map_slot_bytes_def init)
    then show ?thesis using ok by auto
  next
    case small: True
    have pow: "power_of_two n" by (rule n [OF small])
    have bytes: "string_map_slot_bytes n = Some (n * sizeof_StringMapSlot)"
      using small power_of_two_pos [OF pow] by (simp add: string_map_slot_bytes_def)
    obtain mem h1 where mem: "map_alloc M h (n * sizeof_StringMapSlot) = (mem, h1)" by fastforce
    show ?thesis
    proof (cases mem)
      case None
      then have "string_map_rehash M h n = Some (False, M, h1)"
        by (simp add: string_map_rehash_def bytes init mem)
      then show ?thesis using ok by auto
    next
      case (Some memory)
      define old where "old = (case map_slots M of None \<Rightarrow> [] | Some s \<Rightarrow> s)"
      note E = empty_slots [OF pow]
      have old: "distinct (occ_keys old)" "\<forall>s\<in>set old. slot_good s" "occ_count old = map_length M"
          "slots_map old = sm_map M"
        using ok occ_slots_good
        by (auto simp: old_def sm_ok_def slots_ok_def occ_count_def sm_map_def slots_map_def split: option.splits)
      obtain new where new: "string_map_move old (replicate n slot_zero) n = Some new" "slots_ok new"
          "length new = n" "tomb_count new = 0" "occ_count new = map_length M" "slots_map new = sm_map M"
        using move_spec [OF E(1) E(4), of old] E(2,3) old room by auto
      let ?M = "M\<lparr>map_slots := Some new, map_capacity := n, map_tombstone_count := 0\<rparr>"
      have "\<exists>h'. string_map_rehash M h n = Some (True, ?M, h')"
        using new(1) by (simp add: string_map_rehash_def bytes init mem Some old_def [symmetric])
      moreover have "sm_ok ?M" using init new room small by (simp add: sm_ok_def string_map_initialized_def)
      moreover have "sm_map ?M = sm_map M" using new by (simp add: sm_map_def)
      ultimately show ?thesis by auto
    qed
  qed
qed

lemma power_of_two_double:
  "power_of_two c \<Longrightarrow> c * 2 \<le> SIZE_MAX div sizeof_StringMapSlot \<Longrightarrow> power_of_two (c * 2)"
proof -
  assume "power_of_two c" and le: "c * 2 \<le> SIZE_MAX div sizeof_StringMapSlot"
  then obtain k where k: "c = 2 ^ k" by (auto simp: power_of_two_def)
  have "(2::nat) ^ (k + 1) < 2 ^ 64" using le k by (simp add: SIZE_MAX_def sizeof_StringMapSlot_def)
  then have "k + 1 < 64" by (rule power_less_imp_less_exp [rotated]) simp
  then show ?thesis using k by (auto simp: power_of_two_def intro!: exI [of _ "k + 1"])
qed

lemma prepare_spec:
  assumes ok: "sm_ok M"
  shows "\<exists>b M' h'. string_map_prepare_capacity M h = Some (b, M', h') \<and> sm_ok M' \<and> sm_map M' = sm_map M \<and>
    map_allocator M' = map_allocator M \<and> (\<not> b \<longrightarrow> M' = M) \<and>
    (b \<longrightarrow> map_slots M' \<noteq> None \<and> map_length M' + map_tombstone_count M' + 1 < map_capacity M')"
proof (cases "map_slots M")
  case None
  then have "map_length M = 0" using ok by (simp add: sm_ok_def)
  moreover have "power_of_two STRING_MAP_INITIAL_CAPACITY"
    by (auto simp: power_of_two_def STRING_MAP_INITIAL_CAPACITY_def intro!: exI [of _ 4])
  moreover have "string_map_prepare_capacity M h = string_map_rehash M h STRING_MAP_INITIAL_CAPACITY"
    using None by (simp add: string_map_prepare_capacity_def)
  ultimately show ?thesis
    using rehash_spec [OF ok, of STRING_MAP_INITIAL_CAPACITY h]
    by (fastforce simp: STRING_MAP_INITIAL_CAPACITY_def)
next
  case (Some slots)
  note D = sm_okD [OF ok Some]
  have pow: "power_of_two (map_capacity M)" using D by (simp add: slots_ok_def)
  define used where "used = map_length M + map_tombstone_count M + 1"
  have guard: "(map_length M > SIZE_MAX - map_tombstone_count M \<or> map_length M + map_tombstone_count M = SIZE_MAX) = False"
    using D by (auto simp: sizeof_StringMapSlot_def SIZE_MAX_def)
  have unfold: "string_map_prepare_capacity M h =
    (if \<not> string_map_load_reached (map_capacity M) used then Some (True, M, h)
     else if map_length M < map_capacity M div 2 \<and> map_tombstone_count M > 0
     then string_map_rehash M h (map_capacity M)
     else if map_capacity M > SIZE_MAX div 2 then Some (False, M, h)
     else string_map_rehash M h (map_capacity M * 2))"
    unfolding string_map_prepare_capacity_def guard if_False Let_def used_def using Some by simp
  show ?thesis
  proof (cases "string_map_load_reached (map_capacity M) used")
    case False
    then have "used < map_capacity M div 2 + map_capacity M div 5"
      by (auto simp: string_map_load_reached_def Let_def)
    then have "used < map_capacity M" by linarith
    then show ?thesis unfolding unfold using False ok Some by (auto simp: used_def)
  next
    case load: True
    show ?thesis
    proof (cases "map_length M < map_capacity M div 2 \<and> map_tombstone_count M > 0")
      case True
      obtain b M' h' where R: "string_map_rehash M h (map_capacity M) = Some (b, M', h')" "sm_ok M'"
        "sm_map M' = sm_map M" "map_allocator M' = map_allocator M" "\<not> b \<longrightarrow> M' = M"
        "b \<longrightarrow> map_slots M' \<noteq> None \<and> map_capacity M' = map_capacity M \<and> map_tombstone_count M' = 0 \<and> map_length M' = map_length M"
        using rehash_spec [OF ok pow, of h] True by fastforce
      have "map_length M + 1 < map_capacity M" using True by linarith
      then show ?thesis unfolding unfold using load True R by auto
    next
      case double: False
      show ?thesis
      proof (cases "map_capacity M > SIZE_MAX div 2")
        case True
        then show ?thesis unfolding unfold using load double ok by auto
      next
        case False
        have lt: "map_length M < map_capacity M * 2" using D by linarith
        obtain b M' h' where R: "string_map_rehash M h (map_capacity M * 2) = Some (b, M', h')" "sm_ok M'"
          "sm_map M' = sm_map M" "map_allocator M' = map_allocator M" "\<not> b \<longrightarrow> M' = M"
          "b \<longrightarrow> map_slots M' \<noteq> None \<and> map_capacity M' = map_capacity M * 2 \<and> map_tombstone_count M' = 0 \<and> map_length M' = map_length M"
          using rehash_spec [OF ok power_of_two_double [OF pow] lt, of h] by blast
        have "map_length M + 1 < map_capacity M * 2" using D by linarith
        then show ?thesis unfolding unfold using load double False R by auto
      qed
    qed
  qed
qed

section \<open>Lookup, insertion, removal\<close>

lemma get_spec:
  assumes ok: "sm_ok M" and key: "string_map_key_valid key"
  shows "sm_get_const M key = sm_map M (sv_bytes key)"
proof (cases "map_slots M")
  case None
  then show ?thesis by (simp add: sm_get_const_def sm_map_def)
next
  case (Some slots)
  have sok: "slots_ok slots" using sm_okD [OF ok Some] by simp
  obtain r t where p: "string_map_probe (length slots) slots (length slots) key (stringv_hash key)
      (hash_index (stringv_hash key) (length slots)) None = (r, t)" by fastforce
  have g: "sm_get_const M key = (case r of None \<Rightarrow> None | Some i \<Rightarrow> Some (slot_value (slots ! i)))"
    using Some key p by (simp add: sm_get_const_def find_index_probe [OF ok Some key] map_slot_def split: option.splits)
  show ?thesis
  proof (cases r)
    case None
    then show ?thesis using g find_None [OF sok key] p Some by (simp add: sm_map_def)
  next
    case S: (Some i)
    note F = find_Some [OF sok key p [unfolded S]]
    then have "slots_map slots (sv_bytes key) = Some (slot_value (slots ! i))"
      unfolding slots_map_Some [OF sok] by blast
    then show ?thesis using g S Some by (simp add: sm_map_def)
  qed
qed

lemma overwrite_spec:
  assumes ok: "sm_ok M" and slots: "map_slots M = Some slots" and i: "i < length slots" "occupied (slots ! i)"
    and call: "string_map_overwrite M h i v = (M', h')"
  shows "sm_ok M' \<and> sm_map M' = (sm_map M)(sv_bytes (slot_key (slots ! i)) \<mapsto> v) \<and> map_allocator M' = map_allocator M"
proof -
  note D = sm_okD [OF ok slots]
  have M': "M' = M\<lparr>map_slots := Some (slots[i := (slots ! i)\<lparr>slot_value := v\<rparr>])\<rparr>"
    using call slots by (simp add: string_map_overwrite_def map_slot_update_def map_slot_def Let_def case_prod_beta)
  note O = overwrite_slot [OF D [THEN conjunct2, THEN conjunct2, THEN conjunct1] i, of v]
  show ?thesis using O D ok slots unfolding M'
    by (simp add: sm_ok_def sm_map_def string_map_initialized_def)
qed

lemma copy_key_spec:
  assumes "string_map_key_valid key" "string_map_copy_key M h key = (Some stored, h')"
  shows "string_map_key_valid stored" "sv_bytes stored = sv_bytes key"
  using assms valid_length [OF assms(1)]
  by (cases key; auto simp: string_map_copy_key_def string_map_copy_bytes_def view_memory_def view_of_copy_def
      string_map_key_valid_def mem_write_def split: if_splits prod.splits option.splits)+

lemma set_spec:
  assumes ok: "sm_ok M"
  shows "\<exists>b M' h'. string_map_set_internal M h key v copy_key = Some (b, M', h') \<and> sm_ok M' \<and>
    map_allocator M' = map_allocator M \<and>
    sm_map M' = (if b then (sm_map M)(sv_bytes key \<mapsto> v) else sm_map M)"
proof -
  have init: "string_map_initialized M" using ok by (simp add: sm_ok_def)
  show ?thesis
  proof (cases "\<not> string_map_key_valid key \<or> map_value_rejected v")
    case True
    then show ?thesis using ok by (auto simp: string_map_set_internal_def)
  next
    case False
    then have key: "string_map_key_valid key" and acc: "\<not> map_value_rejected v" by auto
    let ?hash = "stringv_hash key"
    note unfold = string_map_set_internal_def [of M h key v copy_key]
    show ?thesis
    proof (cases "fst (string_map_find_index M key ?hash)")
      case (Some i)
      then obtain slots where slots: "map_slots M = Some slots"
        by (auto simp: string_map_find_index_def split: if_splits)
      obtain t where p: "string_map_probe (length slots) slots (length slots) key ?hash
          (hash_index ?hash (length slots)) None = (Some i, t)"
        using Some find_index_probe [OF ok slots key] by (metis prod.collapse)
      have sok: "slots_ok slots" using sm_okD [OF ok slots] by simp
      note F = find_Some [OF sok key p]
      obtain M1 h1 where o: "string_map_overwrite M h i v = (M1, h1)" by fastforce
      show ?thesis
        using overwrite_spec [OF ok slots F(1,2) o] F(3) init key acc Some o
        unfolding unfold by (auto simp: Let_def)
    next
      case None
      obtain sk h1 where sk: "(if copy_key then string_map_copy_key M h key else (Some key, h)) = (sk, h1)"
        by fastforce
      show ?thesis
      proof (cases sk)
        case None': None
        then show ?thesis unfolding unfold using init key acc None sk ok by (auto simp: Let_def)
      next
        case (Some stored)
        have stored: "string_map_key_valid stored" "sv_bytes stored = sv_bytes key"
          using sk Some key copy_key_spec [OF key] by (auto split: if_splits)
        have hash: "?hash = stringv_hash stored" using valid_hash key stored by simp
        define owns where "owns = (copy_key \<and> sv_length stored > 0)"
        obtain b M2 h2 where P: "string_map_prepare_capacity M h1 = Some (b, M2, h2)" "sm_ok M2"
          "sm_map M2 = sm_map M" "map_allocator M2 = map_allocator M" "\<not> b \<longrightarrow> M2 = M"
          "b \<longrightarrow> map_slots M2 \<noteq> None \<and> map_length M2 + map_tombstone_count M2 + 1 < map_capacity M2"
          using prepare_spec [OF ok, of h1] by blast
        show ?thesis
        proof (cases b)
          case False
          then show ?thesis unfolding unfold using init key acc None sk Some P by (auto simp: Let_def)
        next
          case True
          then obtain slots where slots: "map_slots M2 = Some slots" using P(6) by auto
          note D = sm_okD [OF P(2) slots]
          have sok: "slots_ok slots" and pow: "power_of_two (length slots)" using D by (simp_all add: slots_ok_def)
          have absent: "sm_map M (sv_bytes key) = None"
          proof (cases "map_slots M")
            case S: (Some slots0)
            then have s0: "slots_ok slots0" using sm_okD [OF ok S] by simp
            obtain t where "string_map_probe (length slots0) slots0 (length slots0) key ?hash
                (hash_index ?hash (length slots0)) None = (None, t)"
              using None find_index_probe [OF ok S key] by (metis prod.collapse)
            from find_None [OF s0 key this] S show ?thesis by (simp add: sm_map_def)
          qed (simp add: sm_map_def)
          then have absent2: "slots_map slots (sv_bytes key) = None" using P(3) slots by (simp add: sm_map_def)
          obtain r t where p: "string_map_probe (length slots) slots (length slots) key ?hash
              (hash_index ?hash (length slots)) None = (r, t)" by fastforce
          have r: "r = None"
          proof (cases r)
            case R: (Some i)
            from find_Some [OF sok key p [unfolded R]] absent2 show ?thesis
              unfolding slots_map_None by blast
          qed
          have start: "hash_index ?hash (length slots) < length slots" by (rule hash_index_less [OF pow])
          let ?st = "hash_index ?hash (length slots)"
          have p0: "probe slots key ?hash ?st (length slots) 0 None = (None, t)" using p r start by simp
          have place: "\<exists>i. insert_place slots ?hash i \<and>
            (case t of Some u \<Rightarrow> Some (u, M2\<lparr>map_tombstone_count := sz_sub (map_tombstone_count M2) 1\<rparr>)
             | None \<Rightarrow> map_option (\<lambda>i. (i, M2)) (string_map_skip_occupied (map_capacity M2) (the (map_slots M2))
                                  (map_capacity M2) (hash_index ?hash (map_capacity M2)))) =
            Some (i, M2\<lparr>map_tombstone_count := map_tombstone_count M2 - of_bool (tombstone (slots ! i))\<rparr>)"
          proof (cases t)
            case T: None
            obtain d where d: "d < length slots" "slot_free (slot_at slots ?st d)" "path_full slots ?st 0 d"
              "string_map_skip_occupied (length slots) slots (length slots) ?st = Some (probe_pos (length slots) ?st d)"
              using first_unoccupied [OF pow exists_free _ start] probe_no_tombstone [OF pow p0 [unfolded T]] D
              by auto
            show ?thesis using d D T power_of_two_pos [OF pow] slots
              by (intro exI [of _ "probe_pos (length slots) ?st d"]) (auto simp: insert_place_def)
          next
            case T: (Some u)
            obtain d where d: "d < length slots" "u = probe_pos (length slots) ?st d" "tombstone (slots ! u)"
              "path_full slots ?st 0 d"
              using probe_tombstone [OF pow, of "length slots" key ?hash ?st 0 u] p0 T by auto
            have "0 < tomb_count slots"
              using d power_of_two_pos [OF pow] by (auto simp: tomb_count_def filter_empty_conv intro: nth_mem)
            moreover have "tomb_count slots \<le> SIZE_MAX" using D by (auto simp: sizeof_StringMapSlot_def SIZE_MAX_def)
            ultimately have "sz_sub (map_tombstone_count M2) 1 = map_tombstone_count M2 - 1"
              using D by (intro sz_sub_exact) auto
            then show ?thesis using d T power_of_two_pos [OF pow]
              by (intro exI [of _ u]) (auto simp: insert_place_def)
          qed
          then obtain i M3 where i: "insert_place slots ?hash i"
            "(case t of Some u \<Rightarrow> Some (u, M2\<lparr>map_tombstone_count := sz_sub (map_tombstone_count M2) 1\<rparr>)
             | None \<Rightarrow> map_option (\<lambda>i. (i, M2)) (string_map_skip_occupied (map_capacity M2) (the (map_slots M2))
                                  (map_capacity M2) (hash_index ?hash (map_capacity M2)))) = Some (i, M3)"
            and M3: "M3 = M2\<lparr>map_tombstone_count := map_tombstone_count M2 - of_bool (tombstone (slots ! i))\<rparr>"
            by blast
          define new where "new = \<lparr>slot_hash = ?hash, slot_key = stored, slot_value = v,
            slot_state = STRING_MAP_SLOT_OCCUPIED, slot_owns_key = owns\<rparr>"
          define M4 where "M4 = M2\<lparr>map_slots := Some (slots[i := new]),
            map_tombstone_count := map_tombstone_count M2 - of_bool (tombstone (slots ! i)),
            map_length := map_length M2 + 1\<rparr>"
          have find2: "string_map_find_index M2 key ?hash = (None, t)"
            using find_index_probe [OF P(2) slots key] p r by simp
          have tests: "(\<not> string_map_initialized M \<or> \<not> string_map_key_valid key \<or> map_value_rejected v) = False"
            using init key acc by simp
          have M4': "M4 = (map_slot_update M3 i new)\<lparr>map_length := map_length (map_slot_update M3 i new) + 1\<rparr>"
            using slots by (simp add: M4_def M3 map_slot_update_def)
          have prep: "string_map_prepare_capacity M h1 = Some (True, M2, h2)" using P(1) True by simp
          have res: "string_map_set_internal M h key v copy_key = Some (True, M4, h2)"
            unfolding unfold tests if_False Let_def None option.case sk Some prod.case prep bool.case find2 i(2)
            by (simp add: M4' new_def owns_def)
          note I = insert_slot [OF sok, of new i]
          have I': "slots_ok (slots[i := new])" "slots_map (slots[i := new]) = (slots_map slots)(sv_bytes key \<mapsto> v)"
            "occ_count (slots[i := new]) = occ_count slots + 1"
            "tomb_count (slots[i := new]) = tomb_count slots - of_bool (tombstone (slots ! i))"
            using I i(1) hash stored absent2 by (simp_all add: new_def)
          have "sm_ok M4" using I' D P(2,6) True slots
            by (simp add: M4_def sm_ok_def string_map_initialized_def)
          moreover have "sm_map M4 = (sm_map M)(sv_bytes key \<mapsto> v)"
            using I'(2) P(3) slots by (simp add: M4_def sm_map_def)
          ultimately show ?thesis using res P(4) by (auto simp: M4_def)
        qed
      qed
    qed
  qed
qed

lemma sm_remove_spec:
  assumes ok: "sm_ok M" and key: "string_map_key_valid key" and call: "sm_remove M h key = (b, M', h')"
  shows "sm_ok M' \<and> sm_map M' = (sm_map M)(sv_bytes key := None) \<and> map_allocator M' = map_allocator M \<and>
    (b \<longleftrightarrow> sv_bytes key \<in> dom (sm_map M)) \<and> map_length M' = map_length M - of_bool b"
proof (cases "map_slots M")
  case None
  then show ?thesis using call ok by (auto simp: sm_remove_def sm_map_def)
next
  case (Some slots)
  note D = sm_okD [OF ok Some]
  have sok: "slots_ok slots" using D by simp
  obtain r t where p: "string_map_probe (length slots) slots (length slots) key (stringv_hash key)
      (hash_index (stringv_hash key) (length slots)) None = (r, t)" by fastforce
  have find: "string_map_find_index M key (stringv_hash key) = (r, t)"
    using find_index_probe [OF ok Some key] p by simp
  show ?thesis
  proof (cases r)
    case None
    then have "sm_map M (sv_bytes key) = None" using find_None [OF sok key] p Some by (simp add: sm_map_def)
    moreover have "b = False" "M' = M" using call find None key Some by (auto simp: sm_remove_def)
    ultimately show ?thesis using ok by (auto simp: fun_eq_iff)
  next
    case R: (Some i)
    note F = find_Some [OF sok key p [unfolded R]]
    let ?new = "slot_zero\<lparr>slot_state := STRING_MAP_SLOT_TOMBSTONE\<rparr>"
    have M': "b = True" "M' = M\<lparr>map_slots := Some (slots[i := ?new]), map_length := map_length M - 1,
        map_tombstone_count := map_tombstone_count M + 1\<rparr>"
      using call find R key Some
      by (auto simp: sm_remove_def map_slot_update_def string_map_slot_release_def Let_def case_prod_beta)
    note X = remove_slot [OF sok F(1,2), of ?new]
    have "sm_map M (sv_bytes key) \<noteq> None"
      using slots_map_Some [OF sok] F Some by (auto simp: sm_map_def)
    then show ?thesis using X D F(3) M' ok Some
      by (auto simp: sm_ok_def sm_map_def string_map_initialized_def)
  qed
qed

lemma clear_spec:
  assumes "sm_ok M" "sm_clear M h = (M', h')"
  shows "sm_ok M' \<and> sm_map M' = Map.empty \<and> sm_length M' = 0"
proof (cases "map_slots M")
  case None
  then show ?thesis using assms by (auto simp: sm_clear_def sm_ok_def sm_map_def sm_length_def)
next
  case (Some slots)
  note D = sm_okD [OF assms(1) Some]
  then have pow: "power_of_two (length slots)" by (simp add: slots_ok_def)
  have M': "M' = M\<lparr>map_slots := Some (replicate (length slots) slot_zero), map_length := 0, map_tombstone_count := 0\<rparr>"
    using assms Some D by (auto simp: sm_clear_def sm_ok_def)
  show ?thesis using empty_slots [OF pow] D assms(1) unfolding M'
    by (auto simp: sm_ok_def sm_map_def sm_length_def string_map_initialized_def)
qed

lemma init_spec: "sm_init M a = (True, M') \<Longrightarrow> sm_ok M' \<and> sm_map M' = Map.empty \<and> map_allocator M' = a"
  by (auto simp: sm_init_def sm_ok_def sm_map_def map_zero_def string_map_initialized_def split: if_splits)

lemma length_spec: "sm_ok M \<Longrightarrow> sm_length M = card (dom (sm_map M))"
proof (cases "map_slots M")
  case (Some slots)
  assume ok: "sm_ok M"
  note D = sm_okD [OF ok Some]
  then have "distinct (occ_keys slots)" by (simp add: slots_ok_def)
  then have "card (set (occ_keys slots)) = occ_count slots"
    using distinct_card [of "occ_keys slots"] by (simp add: occ_count_def occ_pairs_def)
  then show ?thesis using D Some by (simp add: sm_length_def sm_map_def slots_map_def dom_map_of_conv_image_fst)
qed (simp add: sm_length_def sm_ok_def sm_map_def)

section \<open>Iteration\<close>

text \<open>The keys and values a client sees that calls \<open>sm_next\<close> until it returns \<open>false\<close>.\<close>

fun sm_iterate :: "nat \<Rightarrow> 'h StringMap \<Rightarrow> size_t \<Rightarrow> (char list \<times> StringMapValue) list" where
  "sm_iterate 0 M index = []"
| "sm_iterate (Suc n) M index =
     (case sm_next_const M index of
        None \<Rightarrow> []
      | Some (index', k, v) \<Rightarrow> (sv_bytes k, v) # sm_iterate n M index')"

lemma next_from_spec:
  "case sm_next_from slots i of
     None \<Rightarrow> occ_pairs slots = []
   | Some (i', k, v) \<Rightarrow> i < i' \<and> i' \<le> i + length slots \<and>
       occ_pairs slots = (sv_bytes k, v) # occ_pairs (drop (i' - i) slots)"
proof (induction slots arbitrary: i)
  case (Cons s slots)
  show ?case
  proof (cases "occupied s")
    case True
    then show ?thesis by (simp add: slot_pair_def)
  next
    case False
    have "drop (j - i) (s # slots) = drop (j - Suc i) slots" if "Suc i < j" for j
    proof -
      have "j - i = Suc (j - Suc i)" using that by linarith
      then show ?thesis by simp
    qed
    then show ?thesis using Cons.IH [of "i + 1"] False
      by (auto split: option.splits)
  qed
qed simp

lemma iterate_spec:
  assumes slots: "map_slots M = Some slots" "map_capacity M = length slots"
  shows "length slots - i < n \<Longrightarrow> i \<le> length slots \<Longrightarrow> sm_iterate n M i = occ_pairs (drop i slots)"
proof (induction n arbitrary: i)
  case (Suc n)
  have nx: "sm_next_const M i = sm_next_from (drop i slots) i" using slots by (simp add: sm_next_const_def)
  show ?case
  proof (cases "sm_next_from (drop i slots) i")
    case None
    then show ?thesis using next_from_spec [of "drop i slots" i] nx by simp
  next
    case (Some r)
    obtain i' k v where r: "r = (i', k, v)" by (cases r)
    then have R: "i < i'" "i' \<le> length slots" "occ_pairs (drop i slots) = (sv_bytes k, v) # occ_pairs (drop (i' - i) (drop i slots))"
      using next_from_spec [of "drop i slots" i] Some Suc.prems by auto
    then have "sm_iterate n M i' = occ_pairs (drop i' slots)" using Suc by auto
    then show ?thesis using nx Some r R by simp
  qed
qed simp

section \<open>The interface of a table\<close>

text \<open>
  What the components that store values by name rely on: lookups agree with a finite map, setting
  either updates the map or leaves it alone, removing deletes the key.
\<close>

locale name_table =
  fixes tok :: "'m \<Rightarrow> bool" and view :: "'m \<Rightarrow> char list \<Rightarrow> 'v option"
    and get :: "'m \<Rightarrow> StringView \<Rightarrow> 'v option"
    and set :: "'m \<Rightarrow> 'h \<Rightarrow> StringView \<Rightarrow> 'v \<Rightarrow> (bool \<times> 'm \<times> 'h) option"
    and remove :: "'m \<Rightarrow> 'h \<Rightarrow> StringView \<Rightarrow> bool \<times> 'm \<times> 'h"
  assumes get_view: "tok m \<Longrightarrow> string_map_key_valid k \<Longrightarrow> get m k = view m (sv_bytes k)"
    and set_view: "tok m \<Longrightarrow> \<exists>b m' h'. set m h k v = Some (b, m', h') \<and> tok m' \<and>
      view m' = (if b then (view m)(sv_bytes k \<mapsto> v) else view m)"
    and remove_view: "tok m \<Longrightarrow> string_map_key_valid k \<Longrightarrow> remove m h k = (b, m', h') \<Longrightarrow>
      tok m' \<and> view m' = (view m)(sv_bytes k := None) \<and> (b \<longleftrightarrow> sv_bytes k \<in> dom (view m))"
begin

lemma set_ok: "tok m \<Longrightarrow> set m h k v = Some (b, m', h') \<Longrightarrow>
    tok m' \<and> view m' = (if b then (view m)(sv_bytes k \<mapsto> v) else view m)"
  using set_view [of m h k v] by auto

lemma get_after_set:
  "tok m \<Longrightarrow> string_map_key_valid k' \<Longrightarrow> set m h k v = Some (b, m', h') \<Longrightarrow>
   get m' k' = (if b \<and> sv_bytes k' = sv_bytes k then Some v else get m k')"
  using set_ok [of m h k v b m' h'] get_view [of m k'] get_view [of m' k'] by simp

lemma get_after_remove:
  "tok m \<Longrightarrow> string_map_key_valid k \<Longrightarrow> string_map_key_valid k' \<Longrightarrow> remove m h k = (b, m', h') \<Longrightarrow>
   get m' k' = (if sv_bytes k' = sv_bytes k then None else get m k') \<and> (b \<longleftrightarrow> get m k \<noteq> None)"
  using remove_view [of m k h b m' h'] get_view [of m k] get_view [of m k'] get_view [of m' k'] by auto

end

interpretation string_table: name_table sm_ok sm_map sm_get_const sm_set_value sm_remove
proof (unfold_locales, goal_cases)
  case (1 m k)
  then show ?case by (rule get_spec)
next
  case (2 m h k v)
  then show ?case using set_spec [of m h k v True] unfolding sm_set_value_def by blast
next
  case (3 m k h b m' h')
  then show ?case using sm_remove_spec [of m k h b m' h'] by simp
qed

section \<open>Properties\<close>

definition demo_map :: "unit StringMap" where
  "demo_map = snd (sm_init map_zero (allocator_heap demo_heap))"

lemma pow16: "power_of_two 16"
  by (auto simp: power_of_two_def intro!: exI [of _ 4])

lemma demo_map_ok: "sm_ok demo_map"
proof -
  have "sm_init map_zero (allocator_heap demo_heap) = (True, demo_map)"
    by (simp add: demo_map_def sm_init_def string_map_initialized_def map_zero_def allocator_zero_def allocator_heap_def)
  then show ?thesis using init_spec by blast
qed

lemma demo_set: "fst (the (sm_set_value demo_map () (View [c]) (sm_int i)))"
proof -
  have h: "hash_index w 16 < 16" for w using hash_index_less [OF pow16] by simp
  have probe: "string_map_probe (Suc n) (replicate 16 slot_zero) 16 key w (hash_index w 16) None = (None, None)" for n key w
    using h [of w] by (simp add: string_map_probe.simps(2) slot_zero_def Let_def)
  have skip: "string_map_skip_occupied n (replicate 16 slot_zero) 16 (hash_index w 16) = Some (hash_index w 16)" for n w
    using h [of w] by (subst string_map_skip_occupied.simps) (simp add: slot_zero_def)
  have m: "map_slots demo_map = None" "map_length demo_map = 0" "map_allocator demo_map = allocator_heap demo_heap"
    "string_map_initialized demo_map" "map_capacity demo_map = 0"
    using demo_map_ok by (simp_all add: demo_map_def sm_init_def map_zero_def string_map_initialized_def
        allocator_zero_def allocator_heap_def)
  have alloc: "\<exists>b. map_alloc demo_map () n = (Some b, ())" for n
    by (simp add: map_alloc_def m allocator_heap_def heap_alloc_def demo_heap_def)
  obtain b1 where b1: "map_alloc demo_map () 1 = (Some b1, ())" using alloc by blast
  obtain b2 where b2: "map_alloc demo_map () (16 * sizeof_StringMapSlot) = (Some b2, ())" using alloc by blast
  have rehash: "string_map_prepare_capacity demo_map () = Some (True, demo_map\<lparr>map_slots := Some (replicate 16 slot_zero),
      map_capacity := 16, map_tombstone_count := 0\<rparr>, ())"
    using b2 m by (simp add: string_map_prepare_capacity_def string_map_rehash_def STRING_MAP_INITIAL_CAPACITY_def
        string_map_slot_bytes_def sizeof_StringMapSlot_def SIZE_MAX_def)
  have key: "string_map_copy_key demo_map () (View [c]) = (Some (View [c]), ())"
    using b1 by (simp add: string_map_copy_key_def string_map_copy_bytes_def view_memory_def view_of_copy_def mem_write_def)
  have find: "string_map_find_index (demo_map\<lparr>map_slots := Some (replicate 16 slot_zero), map_capacity := 16,
      map_tombstone_count := 0\<rparr>) (View [c]) w = (None, None)" for w
    using probe [of 15 "View [c]" w] m(4)
    by (simp add: string_map_find_index_def string_map_initialized_def string_map_key_valid_def)
  have find1: "string_map_find_index demo_map k w = (None, None)" for k w
    by (simp add: string_map_find_index_def m)
  show ?thesis
    unfolding sm_set_value_def string_map_set_internal_def
    by (simp add: m find1 string_map_key_valid_def map_value_rejected_def sm_int_def key rehash Let_def find skip)
qed

text \<open>C15: Setting a key. On every well-formed map \<open>sm_set_value\<close> returns (the probing loops end: the load
  limit keeps a slot free) and keeps the map well formed; success makes exactly this key read back
  the new value, also when the table had to be rehashed or a tombstone was reused, and failure leaves
  every lookup as it was.\<close>

theorem sm_set_value_refines:
  assumes "sm_ok M"
  shows "\<exists>b M' h'. sm_set_value M h key v = Some (b, M', h') \<and> sm_ok M' \<and>
    (\<forall>k. string_map_key_valid k \<longrightarrow>
       sm_get_const M' k = (if b \<and> sv_bytes k = sv_bytes key then Some v else sm_get_const M k))"
proof -
  obtain b M' h' where s: "sm_set_value M h key v = Some (b, M', h')" "sm_ok M'"
    using string_table.set_view [OF assms, of h key v] by auto
  then show ?thesis using string_table.get_after_set [OF assms _ s(1)] by blast
qed

theorem sm_set_value_refines_witness:
  "\<exists>M' h'. sm_set_value demo_map () (View ''a'') (sm_int 7) = Some (True, M', h') \<and> sm_ok M' \<and>
     sm_get_const M' (View ''a'') = Some (sm_int 7)"
proof -
  obtain b M' h' where S: "sm_set_value demo_map () (View ''a'') (sm_int 7) = Some (b, M', h')" "sm_ok M'"
    "\<forall>k. string_map_key_valid k \<longrightarrow> sm_get_const M' k =
       (if b \<and> sv_bytes k = sv_bytes (View ''a'') then Some (sm_int 7) else sm_get_const demo_map k)"
    using sm_set_value_refines [OF demo_map_ok, of "()" "View ''a''" "sm_int 7"] by blast
  then show ?thesis using demo_set [of "CHR ''a''" 7] by (simp add: string_map_key_valid_def)
qed

text \<open>C16: Removing a key. \<open>sm_remove\<close> reports whether the key was present, afterwards exactly this key is
  absent, the length counts the remaining keys, and the map stays well formed.\<close>

theorem sm_remove_refines:
  assumes "sm_ok M" "string_map_key_valid key" "sm_remove M h key = (b, M', h')"
  shows "sm_ok M' \<and> (b \<longleftrightarrow> sm_contains M key) \<and> sm_length M' = sm_length M - of_bool b \<and>
    (\<forall>k. string_map_key_valid k \<longrightarrow>
       sm_get_const M' k = (if sv_bytes k = sv_bytes key then None else sm_get_const M k))"
  using string_table.get_after_remove [OF assms(1,2) _ assms(3)] sm_remove_spec [OF assms] assms(2)
  by (auto simp: sm_contains_def sm_length_def)

theorem sm_remove_refines_witness:
  "\<exists>(M :: unit StringMap) h M' h'. sm_ok M \<and> sm_remove M h (View ''a'') = (True, M', h') \<and> \<not> sm_contains M' (View ''a'')"
proof -
  obtain b M h where S: "sm_set_value demo_map () (View ''a'') (sm_int 7) = Some (b, M, h)" "sm_ok M"
    using string_table.set_view [OF demo_map_ok, of "()" "View ''a''" "sm_int 7"] by auto
  have key: "string_map_key_valid (View ''a'')" by (simp add: string_map_key_valid_def)
  have b using demo_set [of "CHR ''a''" 7] S(1) by simp
  then have "sm_contains M (View ''a'')"
    using string_table.get_after_set [OF demo_map_ok key S(1)] by (simp add: sm_contains_def)
  moreover obtain r M' h' where R: "sm_remove M h (View ''a'') = (r, M', h')" by (metis prod_cases3)
  ultimately have "r" "\<not> sm_contains M' (View ''a'')"
    using sm_remove_refines [OF S(2) key R] key by (simp_all add: sm_contains_def)
  then show ?thesis using S(2) R by (intro exI [of _ M] exI [of _ h] exI [of _ M'] exI [of _ h']) simp
qed

text \<open>C17: Iterating. Calling \<open>sm_next\<close> until it returns \<open>false\<close> visits every key of the map exactly
  once, with the value a lookup returns; there are \<open>sm_length\<close> of them.\<close>

theorem sm_iterator_complete:
  assumes "sm_ok M"
  shows "let visited = sm_iterate (map_capacity M + 1) M sm_iterator
    in distinct (map fst visited) \<and> length visited = sm_length M \<and>
       (\<forall>k. string_map_key_valid k \<longrightarrow> sm_get_const M k = map_of visited (sv_bytes k))"
proof (cases "map_slots M")
  case None
  then have it: "sm_iterate (map_capacity M + 1) M sm_iterator = []" by (simp add: sm_next_const_def)
  show ?thesis unfolding it Let_def using assms None get_spec [OF assms]
    by (simp add: sm_length_def sm_ok_def sm_map_def)
next
  case (Some slots)
  note D = sm_okD [OF assms Some]
  have it: "sm_iterate (map_capacity M + 1) M sm_iterator = occ_pairs slots"
    using iterate_spec [OF Some, of 0 "map_capacity M + 1"] D by (simp add: sm_iterator_def)
  show ?thesis unfolding it Let_def using D Some get_spec [OF assms]
    by (simp add: slots_ok_def sm_length_def occ_count_def occ_pairs_def sm_map_def slots_map_def)
qed

theorem sm_iterator_complete_witness:
  "length (sm_iterate (map_capacity demo_map + 1) demo_map sm_iterator) = sm_length demo_map"
  using sm_iterator_complete [OF demo_map_ok] by (simp only: Let_def)

end
