(* ===== verification/Request.thy ===== *)
theory Request
  imports StringParse
begin

text \<open>
  The HTTP request parser of \<open>src/src/http/request.c\<close>: the request line, the header lines up to the
  first empty line, the length limits, and the body.

  The parsed fields are views into the raw bytes. The position \<open>remaining.data - raw.data\<close> of a view
  that is a suffix of the raw bytes is the difference of the lengths.
\<close>

definition CEASY_MAX_HEADER_BYTES :: size_t where
  "CEASY_MAX_HEADER_BYTES = 16 * 1024"

definition CEASY_MAX_REQUEST_BODY :: size_t where
  "CEASY_MAX_REQUEST_BODY = 1024 * 1024"

definition CEASY_MAX_HEADERS :: size_t where
  "CEASY_MAX_HEADERS = 64"

datatype HttpMethod =
    HTTP_METHOD_UNKNOWN | HTTP_METHOD_GET | HTTP_METHOD_POST | HTTP_METHOD_PATCH | HTTP_METHOD_PUT
  | HTTP_METHOD_DELETE

record RequestHeader =
  header_name :: StringView
  header_value :: StringView

record Request =
  req_method :: HttpMethod
  req_path :: StringView
  req_query_string :: StringView
  req_body :: StringView
  req_content_type :: StringView
  req_content_length :: size_t
  req_headers :: "RequestHeader list"

datatype RequestParseResult =
    REQUEST_PARSE_OK | REQUEST_PARSE_INCOMPLETE | REQUEST_PARSE_BAD_REQUEST
  | REQUEST_PARSE_PAYLOAD_TOO_LARGE | REQUEST_PARSE_UNSUPPORTED

definition request_zero :: Request where
  "request_zero = \<lparr>req_method = HTTP_METHOD_UNKNOWN, req_path = sv_zero, req_query_string = sv_zero,
     req_body = sv_zero, req_content_type = sv_zero, req_content_length = 0, req_headers = []\<rparr>"

definition CRLF :: string where
  "CRLF = [CHR 0x0D, CHR 0x0A]"

definition request_find_bytes :: "StringView \<Rightarrow> char list \<Rightarrow> size_t option" where
  "request_find_bytes v bytes =
     (if length bytes = 0 \<or> sv_length v < length bytes then None
      else first_index (\<lambda>position. memcmp (drop position (sv_bytes v)) bytes (length bytes) = 0)
             (sv_length v - length bytes + 1))"

definition request_has_header :: "Request \<Rightarrow> StringView \<Rightarrow> bool" where
  "request_has_header r name \<longleftrightarrow>
     List.find (\<lambda>h. stringv_equal_ignore_case (header_name h) name) (req_headers r) \<noteq> None"

definition request_header :: "Request \<Rightarrow> StringView \<Rightarrow> StringView" where
  "request_header r name =
     (case List.find (\<lambda>h. stringv_equal_ignore_case (header_name h) name) (req_headers r) of
        None \<Rightarrow> sv_zero | Some h \<Rightarrow> header_value h)"

text \<open>
  The step the list loops of the code share: the text before the next separator and the rest behind
  it, or everything and an empty view.
\<close>

definition view_next_token :: "StringView \<Rightarrow> char \<Rightarrow> StringView \<times> StringView" where
  "view_next_token remaining separator =
     (case stringv_split_once_char remaining separator of
        Some (token, rest) \<Rightarrow> (token, rest)
      | None \<Rightarrow> (remaining, sv_zero))"

lemma sv_length_from: "sv_length (stringv_from v n) \<le> sv_length v - n"
  by (cases v) (auto simp: stringv_from_def stringv_slice_def sv_zero_def stringv_valid_def)

lemma view_next_token_shrinks:
  "0 < sv_length v \<Longrightarrow> sv_length (snd (view_next_token v c)) < sv_length v"
  using sv_length_from [of v]
  by (auto simp: view_next_token_def stringv_split_once_char_def sv_zero_def split: option.splits)
     (metis Suc_diff_Suc diff_less_Suc le_neq_implies_less less_Suc_eq order_le_less_trans diff_Suc_less diff_less lessI zero_less_Suc)

function request_transfer_is_chunked :: "StringView \<Rightarrow> bool" where
  "request_transfer_is_chunked remaining =
     (if \<not> sv_length remaining > 0 then False
      else let (token, rest) = view_next_token remaining (CHR '','')
           in if stringv_equal_ignore_case (stringv_trim token) (sv ''chunked'') then True
              else request_transfer_is_chunked rest)"
  by auto
termination
  by (relation "measure sv_length") (auto dest: view_next_token_shrinks [of _ "CHR '',''"] simp: prod_eq_iff)

declare request_transfer_is_chunked.simps [simp del]

definition http_method_parse_view :: "StringView \<Rightarrow> HttpMethod" where
  "http_method_parse_view v =
     (if stringv_equal v (sv ''GET'') then HTTP_METHOD_GET
      else if stringv_equal v (sv ''POST'') then HTTP_METHOD_POST
      else if stringv_equal v (sv ''PATCH'') then HTTP_METHOD_PATCH
      else if stringv_equal v (sv ''PUT'') then HTTP_METHOD_PUT
      else if stringv_equal v (sv ''DELETE'') then HTTP_METHOD_DELETE
      else HTTP_METHOD_UNKNOWN)"

definition http_method_parse :: "char list option \<Rightarrow> HttpMethod" where
  "http_method_parse p = http_method_parse_view (stringv_from_cstr p)"

definition http_method_parse_cstr :: "char list option \<Rightarrow> HttpMethod" where
  "http_method_parse_cstr p = http_method_parse p"

section \<open>Header lines\<close>

text \<open>The loop over the header lines; \<open>Inl\<close> is an early return, \<open>Inr\<close> the request after the loop.\<close>

function request_parse_lines ::
    "size_t \<Rightarrow> size_t \<Rightarrow> Request \<Rightarrow> StringView \<Rightarrow> (RequestParseResult \<times> Request) + Request" where
  "request_parse_lines raw_length header_end r remaining =
     (if \<not> (sv_length remaining > 0 \<and> raw_length - sv_length remaining < header_end) then Inr r
      else case stringv_find remaining (sv CRLF) of
        None \<Rightarrow> Inl (REQUEST_PARSE_BAD_REQUEST, r)
      | Some relative_end \<Rightarrow>
          (let absolute_end = raw_length - sv_length remaining + relative_end
           in if absolute_end > header_end then Inl (REQUEST_PARSE_BAD_REQUEST, r)
              else
                (let line = stringv_slice remaining 0 relative_end;
                     remaining' = stringv_from remaining (relative_end + 2)
                 in if sv_length line = 0 then Inr r
                    else if length (req_headers r) \<ge> CEASY_MAX_HEADERS
                    then Inl (REQUEST_PARSE_BAD_REQUEST, r)
                    else case stringv_split_once_char line (CHR '':'') of
                      None \<Rightarrow> Inl (REQUEST_PARSE_BAD_REQUEST, r)
                    | Some (name, val) \<Rightarrow>
                        (let name' = stringv_trim name; val' = stringv_trim val
                         in if sv_length name' = 0 then Inl (REQUEST_PARSE_BAD_REQUEST, r)
                            else request_parse_lines raw_length header_end
                                   (r\<lparr>req_headers := req_headers r @
                                        [\<lparr>header_name = name', header_value = val'\<rparr>]\<rparr>)
                                   remaining'))))"
  by auto
termination
proof (relation "measure (\<lambda>(_, _, _, remaining). sv_length remaining)", goal_cases)
  case (2 raw_length header_end r remaining relative_end absolute_end line remaining' p name val name' val')
  then have pos: "0 < sv_length remaining" and rest: "remaining' = stringv_from remaining (relative_end + 2)"
    by blast+
  have "sv_length remaining' < sv_length remaining"
    unfolding rest using sv_length_from [of remaining "relative_end + 2"] pos by linarith
  then show ?case by simp
qed simp

declare request_parse_lines.simps [simp del]

definition request_parse_headers :: "Request \<Rightarrow> StringView \<Rightarrow> size_t \<Rightarrow> RequestParseResult \<times> Request" where
  "request_parse_headers r raw header_end =
     (case stringv_find raw (sv CRLF) of
        None \<Rightarrow> (REQUEST_PARSE_INCOMPLETE, r)
      | Some line_end \<Rightarrow>
          (let line = stringv_slice raw 0 line_end
           in case stringv_split_once_char line (CHR '' '') of
                None \<Rightarrow> (REQUEST_PARSE_BAD_REQUEST, r)
              | Some (method, request_line_rest) \<Rightarrow>
                  (case stringv_split_once_char request_line_rest (CHR '' '') of
                     None \<Rightarrow> (REQUEST_PARSE_BAD_REQUEST, r)
                   | Some (target, version) \<Rightarrow>
                       if \<not> stringv_equal version (sv ''HTTP/1.1'') \<or> sv_length target = 0 \<or>
                          sv_bytes target ! 0 \<noteq> CHR ''/''
                       then (REQUEST_PARSE_BAD_REQUEST, r)
                       else
                         (let remaining = stringv_from raw (line_end + 2);
                              r1 = r\<lparr>req_method := http_method_parse_view method, req_path := target\<rparr>;
                              r2 = (case stringv_find_char (req_path r1) (CHR ''?'') of
                                      None \<Rightarrow> r1
                                    | Some query_index \<Rightarrow>
                                        r1\<lparr>req_query_string := stringv_from (req_path r1) (query_index + 1),
                                           req_path := stringv_slice (req_path r1) 0 query_index\<rparr>)
                          in if sv_length (req_path r2) = 0 then (REQUEST_PARSE_BAD_REQUEST, r2)
                             else case request_parse_lines (sv_length raw) header_end r2 remaining of
                               Inl early \<Rightarrow> early
                             | Inr r3 \<Rightarrow>
                                 (let r4 = r3\<lparr>req_content_type := request_header r3 (sv ''Content-Type'')\<rparr>
                                  in if request_transfer_is_chunked
                                          (request_header r4 (sv ''Transfer-Encoding''))
                                     then (REQUEST_PARSE_UNSUPPORTED, r4)
                                     else if request_has_header r4 (sv ''Content-Length'')
                                     then (case stringv_parse_size (request_header r4 (sv ''Content-Length'')) of
                                             None \<Rightarrow> (REQUEST_PARSE_BAD_REQUEST, r4)
                                           | Some n \<Rightarrow>
                                               (let r5 = r4\<lparr>req_content_length := n\<rparr>
                                                in if n > CEASY_MAX_REQUEST_BODY
                                                   then (REQUEST_PARSE_PAYLOAD_TOO_LARGE, r5)
                                                   else (REQUEST_PARSE_OK, r5)))
                                     else (REQUEST_PARSE_OK, r4))))))"

definition request_parse :: "Request \<Rightarrow> StringView \<Rightarrow> RequestParseResult \<times> Request" where
  "request_parse r raw =
     (if \<not> sv_has_data raw then (REQUEST_PARSE_BAD_REQUEST, r)
      else case request_find_bytes raw (CRLF @ CRLF) of
        None \<Rightarrow>
          (if sv_length raw \<ge> CEASY_MAX_HEADER_BYTES then REQUEST_PARSE_BAD_REQUEST
           else REQUEST_PARSE_INCOMPLETE, request_zero)
      | Some header_end \<Rightarrow>
          if header_end + 4 > CEASY_MAX_HEADER_BYTES then (REQUEST_PARSE_BAD_REQUEST, request_zero)
          else
            (let (result, r1) = request_parse_headers request_zero raw header_end
             in if result \<noteq> REQUEST_PARSE_OK then (result, r1)
                else if sv_length raw < header_end + 4 + req_content_length r1
                then (REQUEST_PARSE_INCOMPLETE, r1)
                else (REQUEST_PARSE_OK,
                      r1\<lparr>req_body := stringv_slice raw (header_end + 4) (req_content_length r1)\<rparr>)))"

end
