(* ===== verification/RequestLaws.thy ===== *)
theory RequestLaws
  imports Request
begin

text \<open>
  The request parser seen through the lines of the header block: a head that ends with an empty
  line is a list of lines, the parser's result depends on these lines only, and a request written
  in the usual form is read back.
\<close>

section \<open>Lines\<close>

definition no_crlf :: "char list \<Rightarrow> bool" where
  "no_crlf l \<longleftrightarrow> (\<forall>i. \<not> occurs_at CRLF l i)"

abbreviation lines_text :: "char list list \<Rightarrow> char list" where
  "lines_text ls \<equiv> concat (map (\<lambda>l. l @ CRLF) ls)"

lemma CRLF_simps [simp]: "length CRLF = 2" "CRLF ! 0 = CHR 0x0D" "CRLF ! Suc 0 = CHR 0x0A" "CRLF \<noteq> []"
  by (simp_all add: CRLF_def)

lemma occurs_crlf_nth:
  "occurs_at CRLF v i \<longleftrightarrow> i + 1 < length v \<and> v ! i = CHR 0x0D \<and> v ! (i + 1) = CHR 0x0A"
proof
  assume "occurs_at CRLF v i"
  then obtain l r where "v = l @ CRLF @ r" "length l = i" by (auto simp: occurs_at_iff)
  then show "i + 1 < length v \<and> v ! i = CHR 0x0D \<and> v ! (i + 1) = CHR 0x0A"
    by (auto simp: CRLF_def nth_append)
next
  assume a: "i + 1 < length v \<and> v ! i = CHR 0x0D \<and> v ! (i + 1) = CHR 0x0A"
  then have "drop i v = v ! i # v ! (i + 1) # drop (i + 2) v"
    using Cons_nth_drop_Suc [of i v] Cons_nth_drop_Suc [of "i + 1" v] by simp
  then show "occurs_at CRLF v i" using a by (simp add: occurs_at_def CRLF_def)
qed

lemma occurs_double:
  "occurs_at (CRLF @ CRLF) v i \<longleftrightarrow> occurs_at CRLF v i \<and> occurs_at CRLF v (i + 2)"
proof
  assume "occurs_at (CRLF @ CRLF) v i"
  then obtain l r where v: "v = l @ CRLF @ CRLF @ r" "length l = i" by (auto simp: occurs_at_iff)
  have "occurs_at CRLF v (length l)" unfolding v(1) occurs_at_iff by blast
  moreover have "occurs_at CRLF v (length (l @ CRLF))" unfolding occurs_at_iff
    by (intro exI [of _ "l @ CRLF"] exI [of _ r]) (simp add: v)
  ultimately show "occurs_at CRLF v i \<and> occurs_at CRLF v (i + 2)" using v(2) by simp
next
  assume a: "occurs_at CRLF v i \<and> occurs_at CRLF v (i + 2)"
  then obtain r where r: "drop i v = CRLF @ r" by (auto simp: occurs_at_def prefix_def)
  have "drop (i + 2) v = drop 2 (drop i v)" by (simp add: add.commute)
  also have "\<dots> = r" unfolding r by (simp add: CRLF_def)
  finally have "drop (i + 2) v = r" .
  then show "occurs_at (CRLF @ CRLF) v i" using a r by (auto simp: occurs_at_def)
qed

lemma occurs_crlf_line:
  assumes "no_crlf l"
  shows "occurs_at CRLF (l @ CRLF @ t) i \<longleftrightarrow>
    i = length l \<or> (length l + 2 \<le> i \<and> occurs_at CRLF t (i - (length l + 2)))"
proof -
  consider "i + 1 < length l" | "i + 1 = length l" | "i = length l" | "i = length l + 1" | "length l + 2 \<le> i"
    by linarith
  then show ?thesis
  proof cases
    case 1
    then have "occurs_at CRLF (l @ CRLF @ t) i \<longleftrightarrow> occurs_at CRLF l i"
      by (simp add: occurs_crlf_nth nth_append)
    then show ?thesis using 1 assms by (simp add: no_crlf_def)
  next
    case 5
    then obtain k where "i = length l + 2 + k" by (metis le_Suc_ex)
    then have "occurs_at CRLF (l @ CRLF @ t) i \<longleftrightarrow> occurs_at CRLF t k"
      by (simp add: occurs_crlf_nth nth_append Suc_diff_le)
    then show ?thesis using 5 \<open>i = length l + 2 + k\<close> by simp
  qed (auto simp: occurs_crlf_nth nth_append)
qed

lemma find_crlf_line:
  "no_crlf l \<Longrightarrow> stringv_find (View (l @ CRLF @ t)) (View CRLF) = Some (length l)"
  unfolding view_find_Some by (auto simp: occurs_crlf_line)

text \<open>The first empty line ends the head.\<close>

lemma first_blank_line:
  assumes "no_crlf l" "\<forall>l\<in>set ls. no_crlf l \<and> l \<noteq> []"
  shows "stringv_find (View (l @ CRLF @ lines_text ls @ CRLF @ rest)) (View (CRLF @ CRLF)) =
    Some (length (l @ CRLF @ lines_text ls) - 2)"
  using assms
proof (induction ls arbitrary: l)
  case Nil
  have "occurs_at CRLF (CRLF @ rest) 0" by (simp add: occurs_at_def)
  then show ?case using Nil(1)
    unfolding view_find_Some occurs_double
    by (auto simp: occurs_crlf_line [of l "CRLF @ rest"])
next
  case (Cons l' ls)
  let ?t = "lines_text (l' # ls) @ CRLF @ rest"
  have t: "?t = l' @ CRLF @ lines_text ls @ CRLF @ rest" by simp
  have l': "no_crlf l'" "l' \<noteq> []" using Cons.prems by auto
  have IH: "stringv_find (View ?t) (View (CRLF @ CRLF)) = Some (length (l' @ CRLF @ lines_text ls) - 2)"
    unfolding t using Cons.IH [OF l'(1)] Cons.prems by simp
  have zero: "\<not> occurs_at CRLF ?t 0" unfolding t using l' by (simp add: occurs_crlf_line)
  have shift: "occurs_at (CRLF @ CRLF) (l @ CRLF @ ?t) i \<longleftrightarrow>
      length l + 2 \<le> i \<and> occurs_at (CRLF @ CRLF) ?t (i - (length l + 2))" for i
  proof -
    have "i + 2 - (length l + 2) = i - (length l + 2) + 2" if "length l + 2 \<le> i" using that by linarith
    then show ?thesis
      unfolding occurs_double occurs_crlf_line [OF Cons.prems(1)] using zero by auto
  qed
  from IH have first: "occurs_at (CRLF @ CRLF) ?t (length (l' @ CRLF @ lines_text ls) - 2)"
    "\<forall>j<length (l' @ CRLF @ lines_text ls) - 2. \<not> occurs_at (CRLF @ CRLF) ?t j"
    unfolding view_find_Some by auto
  have len: "2 \<le> length (l' @ CRLF @ lines_text ls)" by simp
  show ?case unfolding view_find_Some
  proof (intro conjI allI impI)
    show "occurs_at (CRLF @ CRLF) (l @ CRLF @ lines_text (l' # ls) @ CRLF @ rest)
      (length (l @ CRLF @ lines_text (l' # ls)) - 2)"
      using shift [of "length (l @ CRLF @ lines_text (l' # ls)) - 2"] first(1) len
      by simp
    show "\<not> occurs_at (CRLF @ CRLF) (l @ CRLF @ lines_text (l' # ls) @ CRLF @ rest) j"
      if "j < length (l @ CRLF @ lines_text (l' # ls)) - 2" for j
      using shift [of j] first(2) that by simp
  qed
qed

text \<open>Every text is a list of lines.\<close>

lemma lines_exist: "\<exists>l ls. v @ CRLF = l @ CRLF @ lines_text ls \<and> no_crlf l \<and> (\<forall>l\<in>set ls. no_crlf l)"
proof (induction "length v" arbitrary: v rule: less_induct)
  case less
  show ?case
  proof (cases "no_crlf v")
    case True
    then show ?thesis by (intro exI [of _ v] exI [of _ "[]"]) simp
  next
    case False
    then obtain i where i: "occurs_at CRLF v i" "\<forall>j<i. \<not> occurs_at CRLF v j"
      unfolding no_crlf_def using exists_least_iff [of "occurs_at CRLF v"] by blast
    then obtain l r where v: "v = l @ CRLF @ r" "length l = i" by (auto simp: occurs_at_iff)
    have "no_crlf l" unfolding no_crlf_def
    proof (intro allI notI)
      fix j assume "occurs_at CRLF l j"
      then have "occurs_at CRLF v j" "j < i" using v by (auto simp: occurs_crlf_nth nth_append)
      then show False using i(2) by blast
    qed
    moreover obtain l' ls where "r @ CRLF = l' @ CRLF @ lines_text ls" "no_crlf l'" "\<forall>l\<in>set ls. no_crlf l"
    proof -
      have "length r < length v" using v by simp
      from less [OF this] show thesis using that by blast
    qed
    ultimately show ?thesis
      by (intro exI [of _ l] exI [of _ "l' # ls"]) (simp add: v)
  qed
qed

section \<open>The parser as a function of the lines\<close>

text \<open>One header line: its trimmed name and value, when there is a colon and a name.\<close>

definition header_of_line :: "char list \<Rightarrow> (char list \<times> char list) option" where
  "header_of_line line =
     (if CHR '':'' \<notin> set line then None
      else let name = rev (dropWhile stringv_ascii_space (rev (dropWhile stringv_ascii_space
                        (takeWhile (\<lambda>c. c \<noteq> CHR '':'') line))));
               val = rev (dropWhile stringv_ascii_space (rev (dropWhile stringv_ascii_space
                        (tl (dropWhile (\<lambda>c. c \<noteq> CHR '':'') line)))))
           in if name = [] then None else Some (name, val))"

fun headers_of_lines :: "Request \<Rightarrow> char list list \<Rightarrow> (RequestParseResult \<times> Request) + Request" where
  "headers_of_lines r [] = Inr r"
| "headers_of_lines r (line # ls) =
     (if length (req_headers r) \<ge> CEASY_MAX_HEADERS then Inl (REQUEST_PARSE_BAD_REQUEST, r)
      else case header_of_line line of
        None \<Rightarrow> Inl (REQUEST_PARSE_BAD_REQUEST, r)
      | Some (name, val) \<Rightarrow>
          headers_of_lines (r\<lparr>req_headers := req_headers r @
             [\<lparr>header_name = View name, header_value = View val\<rparr>]\<rparr>) ls)"

text \<open>The line loop as it runs on the bytes between the current position and the end of the head.\<close>

lemma parse_lines_spec:
  assumes "\<forall>l\<in>set ls. no_crlf l \<and> l \<noteq> []"
    and "raw_length = pos + length (lines_text ls @ CRLF @ rest)"
    and "header_end + 2 = pos + length (lines_text ls)"
  shows "request_parse_lines raw_length header_end r (View (lines_text ls @ CRLF @ rest)) = headers_of_lines r ls"
  using assms
proof (induction ls arbitrary: r pos)
  case Nil
  then have "\<not> raw_length - length (CRLF @ rest) < header_end" by simp
  then show ?case by (subst request_parse_lines.simps) simp
next
  case (Cons l ls)
  let ?rem = "l @ CRLF @ lines_text ls @ CRLF @ rest"
  have rem: "lines_text (l # ls) @ CRLF @ rest = ?rem" by simp
  have l: "no_crlf l" "l \<noteq> []" using Cons.prems(1) by auto
  have pos: "raw_length - length ?rem = pos" using Cons.prems(2) unfolding rem by simp
  have "pos < header_end" "pos + length l \<le> header_end"
    using Cons.prems(3) l(2) by (auto simp: neq_Nil_conv)
  have find: "stringv_find (View ?rem) (sv CRLF) = Some (length l)"
    using find_crlf_line [OF l(1)] by (simp add: sv_def)
  have slice: "stringv_slice (View ?rem) 0 (length l) = View l" by (simp add: view_slice)
  have from': "stringv_from (View ?rem) (length l + 2) = View (lines_text ls @ CRLF @ rest)"
    by (simp add: view_from)
  have IH: "request_parse_lines raw_length header_end r' (View (lines_text ls @ CRLF @ rest)) = headers_of_lines r' ls" for r'
    by (rule Cons.IH [of "pos + length l + 2"]) (use Cons.prems in auto)
  have len: "sv_length (View ?rem) > 0 \<and> raw_length - sv_length (View ?rem) < header_end"
    using pos \<open>pos < header_end\<close> l(2) by simp
  have cond: "\<not> (pos + length l > header_end)" using \<open>pos + length l \<le> header_end\<close> by simp
  have unfold: "request_parse_lines raw_length header_end r (View ?rem) =
    (if length (req_headers r) \<ge> CEASY_MAX_HEADERS then Inl (REQUEST_PARSE_BAD_REQUEST, r)
     else case stringv_split_once_char (View l) (CHR '':'') of
       None \<Rightarrow> Inl (REQUEST_PARSE_BAD_REQUEST, r)
     | Some (name, val) \<Rightarrow>
         if sv_length (stringv_trim name) = 0 then Inl (REQUEST_PARSE_BAD_REQUEST, r)
         else request_parse_lines raw_length header_end
                (r\<lparr>req_headers := req_headers r @ [\<lparr>header_name = stringv_trim name, header_value = stringv_trim val\<rparr>]\<rparr>)
                (View (lines_text ls @ CRLF @ rest)))"
    by (subst request_parse_lines.simps,
        simp only: len find option.case Let_def slice from' sv_length.simps pos cond not_True_eq_False if_False simp_thms
        length_0_conv) (use l(2) \<open>pos < header_end\<close> in simp)
  show ?case unfolding rem unfold IH headers_of_lines.simps header_of_line_def Let_def
    by (simp add: view_split_once_char trim_view)
qed

text \<open>The request line and the headers.\<close>

definition head_of_lines :: "char list \<Rightarrow> char list list \<Rightarrow> Request \<Rightarrow> RequestParseResult \<times> Request" where
  "head_of_lines line ls r =
     request_parse_headers r (View (lines_text (line # ls) @ CRLF)) (length (lines_text (line # ls)) - 2)"

lemma parse_headers_rest:
  assumes "no_crlf line" "\<forall>l\<in>set ls. no_crlf l \<and> l \<noteq> []"
  shows "request_parse_headers r (View (lines_text (line # ls) @ CRLF @ rest)) (length (lines_text (line # ls)) - 2)
    = head_of_lines line ls r"
proof -
  have find: "stringv_find (View (lines_text (line # ls) @ CRLF @ t)) (sv CRLF) = Some (length line)" for t
    using find_crlf_line [OF assms(1), of "lines_text ls @ CRLF @ t"] by (simp add: sv_def)
  have slice: "stringv_slice (View (lines_text (line # ls) @ CRLF @ t)) 0 (length line) = View line" for t
    by (simp add: view_slice)
  have from': "stringv_from (View (lines_text (line # ls) @ CRLF @ t)) (length line + 2) =
      View (lines_text ls @ CRLF @ t)" for t by (simp add: view_from)
  have lines: "request_parse_lines (sv_length (View (lines_text (line # ls) @ CRLF @ t)))
      (length (lines_text (line # ls)) - 2) r' (View (lines_text ls @ CRLF @ t)) = headers_of_lines r' ls" for t r'
    by (rule parse_lines_spec [OF assms(2), of _ "length line + 2"]) auto
  have "request_parse_headers r (View (lines_text (line # ls) @ CRLF @ t)) (length (lines_text (line # ls)) - 2) =
      request_parse_headers r (View (lines_text (line # ls) @ CRLF @ u)) (length (lines_text (line # ls)) - 2)" for t u
    unfolding request_parse_headers_def find option.case Let_def slice from' lines ..
  from this [of rest "[]"] show ?thesis by (simp add: head_of_lines_def)
qed

text \<open>Every input with a complete head has this form.\<close>

lemma find_bytes_find: "request_find_bytes (View v) bytes = (if bytes = [] then None else stringv_find (View v) (View bytes))"
  by (simp add: request_find_bytes_def stringv_find_def view_simps)

lemma head_lines:
  assumes "request_find_bytes (View v) (CRLF @ CRLF) = Some e"
  obtains line ls rest where "v = lines_text (line # ls) @ CRLF @ rest" "no_crlf line"
    "\<forall>l\<in>set ls. no_crlf l \<and> l \<noteq> []" "e = length (lines_text (line # ls)) - 2" "rest = drop (e + 4) v"
proof -
  have "stringv_find (View v) (View (CRLF @ CRLF)) = Some e" using assms by (simp add: find_bytes_find)
  then have e: "occurs_at (CRLF @ CRLF) v e" "\<forall>j<e. \<not> occurs_at (CRLF @ CRLF) v j"
    unfolding view_find_Some by auto
  then obtain h rest where v: "v = h @ (CRLF @ CRLF) @ rest" "length h = e" by (auto simp: occurs_at_iff)
  obtain line ls where L: "h @ CRLF = line @ CRLF @ lines_text ls" "no_crlf line" "\<forall>l\<in>set ls. no_crlf l"
    using lines_exist [of h] by blast
  have "l \<noteq> []" if l: "l \<in> set ls" for l
  proof
    assume "l = []"
    then obtain a b where ls: "ls = a @ [] # b" using l by (metis split_list)
    let ?p = "line @ CRLF @ lines_text a"
    have "\<exists>q. ?p = q @ CRLF"
    proof (cases a rule: rev_cases)
      case (snoc a' l')
      then show ?thesis by (intro exI [of _ "line @ CRLF @ lines_text a' @ l'"]) simp
    qed (intro exI [of _ line], simp)
    then obtain q where q: "?p = q @ CRLF" by blast
    have eq: "h @ CRLF = q @ CRLF @ CRLF @ lines_text b" using L(1) q unfolding ls by (simp flip: append_assoc)
    then have "v = q @ (CRLF @ CRLF) @ lines_text b @ CRLF @ rest" unfolding v(1) by (metis append_assoc)
    then have "occurs_at (CRLF @ CRLF) v (length q)" unfolding occurs_at_iff by blast
    moreover have "length q < e" using arg_cong [OF eq, of length] v(2) by simp
    ultimately show False using e(2) by blast
  qed
  moreover have "v = lines_text (line # ls) @ CRLF @ rest" unfolding v(1) using L(1) by (metis append_assoc concat.simps(2) list.map(2))
  moreover have "e = length (lines_text (line # ls)) - 2" using arg_cong [OF L(1), of length] v(2) by simp
  moreover have "rest = drop (e + 4) v" unfolding v using v(2) by simp
  ultimately show thesis using that L(2,3) by blast
qed

lemma parse_spec:
  assumes "no_crlf line" "\<forall>l\<in>set ls. no_crlf l \<and> l \<noteq> []"
  shows "request_parse r (View (lines_text (line # ls) @ CRLF @ rest)) =
    (if length (lines_text (line # ls)) + 2 > CEASY_MAX_HEADER_BYTES then (REQUEST_PARSE_BAD_REQUEST, request_zero)
     else let (result, q) = head_of_lines line ls request_zero
          in if result \<noteq> REQUEST_PARSE_OK then (result, q)
             else if length rest < req_content_length q then (REQUEST_PARSE_INCOMPLETE, q)
             else (REQUEST_PARSE_OK, q\<lparr>req_body := View (take (req_content_length q) rest)\<rparr>))"
proof -
  let ?v = "lines_text (line # ls) @ CRLF @ rest" and ?e = "length (lines_text (line # ls)) - 2"
  have v: "?v = line @ CRLF @ lines_text ls @ CRLF @ rest" by simp
  have find: "request_find_bytes (View ?v) (CRLF @ CRLF) = Some ?e"
    using first_blank_line [OF assms, of rest] unfolding v find_bytes_find by simp
  have e: "?e + 4 = length (lines_text (line # ls)) + 2" by simp
  have body: "stringv_slice (View ?v) (length (lines_text (line # ls)) + 2) n = View (take n rest)" for n
    by (simp add: view_slice)
  have len: "sv_length (View ?v) < length (lines_text (line # ls)) + 2 + n \<longleftrightarrow> length rest < n" for n by simp
  show ?thesis
    unfolding request_parse_def find option.case parse_headers_rest [OF assms] e body len
    by simp
qed

section \<open>What an accepted head contains\<close>

definition header_record :: "char list \<times> char list \<Rightarrow> RequestHeader" where
  "header_record h = \<lparr>header_name = View (fst h), header_value = View (snd h)\<rparr>"

lemma headers_of_lines_Inr:
  "headers_of_lines r ls = Inr q \<longleftrightarrow>
   (\<exists>hs. map header_of_line ls = map Some hs \<and> (ls = [] \<or> length (req_headers r) + length ls \<le> CEASY_MAX_HEADERS) \<and>
      q = r\<lparr>req_headers := req_headers r @ map header_record hs\<rparr>)"
proof (induction ls arbitrary: r)
  case Nil
  then show ?case by auto
next
  case (Cons l ls)
  show ?case
  proof (cases "CEASY_MAX_HEADERS \<le> length (req_headers r)")
    case True
    then show ?thesis by auto
  next
    case False
    show ?thesis
    proof (cases "header_of_line l")
      case None
      then show ?thesis using False by (auto simp: map_eq_Cons_conv)
    next
      case (Some h)
      let ?r = "r\<lparr>req_headers := req_headers r @ [header_record h]\<rparr>"
      have "headers_of_lines r (l # ls) = headers_of_lines ?r ls"
        using Some False by (simp add: header_record_def case_prod_beta)
      also have "\<dots> = Inr q \<longleftrightarrow> (\<exists>hs. map header_of_line ls = map Some hs \<and>
          (ls = [] \<or> length (req_headers ?r) + length ls \<le> CEASY_MAX_HEADERS) \<and>
          q = ?r\<lparr>req_headers := req_headers ?r @ map header_record hs\<rparr>)"
        by (rule Cons.IH)
      also have "\<dots> \<longleftrightarrow> (\<exists>hs. map header_of_line (l # ls) = map Some (h # hs) \<and>
          length (req_headers r) + length (l # ls) \<le> CEASY_MAX_HEADERS \<and>
          q = r\<lparr>req_headers := req_headers r @ map header_record (h # hs)\<rparr>)"
        using Some False by (auto simp: Suc_le_eq)
      also have "\<dots> \<longleftrightarrow> (\<exists>hs. map header_of_line (l # ls) = map Some hs \<and>
          length (req_headers r) + length (l # ls) \<le> CEASY_MAX_HEADERS \<and>
          q = r\<lparr>req_headers := req_headers r @ map header_record hs\<rparr>)" (is "?L \<longleftrightarrow> ?R")
      proof
        assume ?R
        then obtain hs where hs: "map header_of_line (l # ls) = map Some hs"
          "length (req_headers r) + length (l # ls) \<le> CEASY_MAX_HEADERS"
          "q = r\<lparr>req_headers := req_headers r @ map header_record hs\<rparr>" by blast
        then obtain hs' where "hs = h # hs'" using Some by (cases hs) auto
        then show ?L using hs by blast
      qed blast
      finally show ?thesis by simp
    qed
  qed
qed

lemma header_of_line_name: "header_of_line l = Some (n, v) \<Longrightarrow> n \<noteq> []"
  by (auto simp: header_of_line_def Let_def split: if_splits)

lemma head_of_lines_eq:
  assumes "no_crlf line" "\<forall>l\<in>set ls. no_crlf l \<and> l \<noteq> []"
  shows "head_of_lines line ls r =
    (case stringv_split_once_char (View line) (CHR '' '') of
       None \<Rightarrow> (REQUEST_PARSE_BAD_REQUEST, r)
     | Some (method, request_line_rest) \<Rightarrow>
         (case stringv_split_once_char request_line_rest (CHR '' '') of
            None \<Rightarrow> (REQUEST_PARSE_BAD_REQUEST, r)
          | Some (target, version) \<Rightarrow>
              if \<not> stringv_equal version (sv ''HTTP/1.1'') \<or> sv_length target = 0 \<or>
                 sv_bytes target ! 0 \<noteq> CHR ''/''
              then (REQUEST_PARSE_BAD_REQUEST, r)
              else
                (let r1 = r\<lparr>req_method := http_method_parse_view method, req_path := target\<rparr>;
                     r2 = (case stringv_find_char (req_path r1) (CHR ''?'') of
                             None \<Rightarrow> r1
                           | Some query_index \<Rightarrow>
                               r1\<lparr>req_query_string := stringv_from (req_path r1) (query_index + 1),
                                  req_path := stringv_slice (req_path r1) 0 query_index\<rparr>)
                 in if sv_length (req_path r2) = 0 then (REQUEST_PARSE_BAD_REQUEST, r2)
                    else case headers_of_lines r2 ls of
                      Inl early \<Rightarrow> early
                    | Inr r3 \<Rightarrow>
                        (let r4 = r3\<lparr>req_content_type := request_header r3 (sv ''Content-Type'')\<rparr>
                         in if request_transfer_is_chunked (request_header r4 (sv ''Transfer-Encoding''))
                            then (REQUEST_PARSE_UNSUPPORTED, r4)
                            else if request_has_header r4 (sv ''Content-Length'')
                            then (case stringv_parse_size (request_header r4 (sv ''Content-Length'')) of
                                    None \<Rightarrow> (REQUEST_PARSE_BAD_REQUEST, r4)
                                  | Some n \<Rightarrow>
                                      (let r5 = r4\<lparr>req_content_length := n\<rparr>
                                       in if n > CEASY_MAX_REQUEST_BODY
                                          then (REQUEST_PARSE_PAYLOAD_TOO_LARGE, r5)
                                          else (REQUEST_PARSE_OK, r5)))
                            else (REQUEST_PARSE_OK, r4)))))"
proof -
  have find: "stringv_find (View (lines_text (line # ls) @ CRLF)) (sv CRLF) = Some (length line)"
    using find_crlf_line [OF assms(1), of "lines_text ls @ CRLF"] by (simp add: sv_def)
  have slice: "stringv_slice (View (lines_text (line # ls) @ CRLF)) 0 (length line) = View line"
    by (simp add: view_slice)
  have from': "stringv_from (View (lines_text (line # ls) @ CRLF)) (length line + 2) =
      View (lines_text ls @ CRLF @ [])" by (simp add: view_from)
  have lines: "request_parse_lines (sv_length (View (lines_text (line # ls) @ CRLF)))
      (length (lines_text (line # ls)) - 2) r' (View (lines_text ls @ CRLF @ [])) = headers_of_lines r' ls" for r'
    by (rule parse_lines_spec [OF assms(2), of _ "length line + 2"]) auto
  show ?thesis
    unfolding head_of_lines_def request_parse_headers_def find option.case Let_def slice from' lines ..
qed

lemma head_request_line:
  assumes split: "CHR '' '' \<notin> set meth" "CHR '' '' \<notin> set target"
    and lines: "no_crlf (meth @ '' '' @ target @ '' HTTP/1.1'')" "\<forall>l\<in>set ls. no_crlf l \<and> l \<noteq> []"
    and target: "target = CHR ''/'' # t"
  shows "head_of_lines (meth @ '' '' @ target @ '' HTTP/1.1'') ls r =
    (let r2 = r\<lparr>req_method := http_method_parse_view (View meth),
                req_path := View (takeWhile (\<lambda>c. c \<noteq> CHR ''?'') target),
                req_query_string := (if CHR ''?'' \<in> set target
                  then View (tl (dropWhile (\<lambda>c. c \<noteq> CHR ''?'') target)) else req_query_string r)\<rparr>
     in case headers_of_lines r2 ls of
          Inl early \<Rightarrow> early
        | Inr r3 \<Rightarrow>
            (let r4 = r3\<lparr>req_content_type := request_header r3 (sv ''Content-Type'')\<rparr>
             in if request_transfer_is_chunked (request_header r4 (sv ''Transfer-Encoding''))
                then (REQUEST_PARSE_UNSUPPORTED, r4)
                else if request_has_header r4 (sv ''Content-Length'')
                then (case stringv_parse_size (request_header r4 (sv ''Content-Length'')) of
                        None \<Rightarrow> (REQUEST_PARSE_BAD_REQUEST, r4)
                      | Some n \<Rightarrow>
                          (let r5 = r4\<lparr>req_content_length := n\<rparr>
                           in if n > CEASY_MAX_REQUEST_BODY then (REQUEST_PARSE_PAYLOAD_TOO_LARGE, r5)
                              else (REQUEST_PARSE_OK, r5)))
                else (REQUEST_PARSE_OK, r4)))"
proof -
  have first: "stringv_split_once_char (View (meth @ '' '' @ target @ '' HTTP/1.1'')) (CHR '' '') =
      Some (View meth, View (target @ '' HTTP/1.1''))"
    using split by (simp add: view_split_once_char)
  have second: "stringv_split_once_char (View (target @ '' HTTP/1.1'')) (CHR '' '') = Some (View target, View ''HTTP/1.1'')"
    using split by (simp add: view_split_once_char)
  have tests: "(\<not> stringv_equal (View ''HTTP/1.1'') (sv ''HTTP/1.1'') \<or> sv_length (View target) = 0 \<or>
      sv_bytes (View target) ! 0 \<noteq> CHR ''/'') = False"
    by (simp add: target view_equal sv_def)
  let ?r1 = "r\<lparr>req_method := http_method_parse_view (View meth), req_path := View target\<rparr>"
  let ?r2 = "r\<lparr>req_method := http_method_parse_view (View meth),
                req_path := View (takeWhile (\<lambda>c. c \<noteq> CHR ''?'') target),
                req_query_string := (if CHR ''?'' \<in> set target
                  then View (tl (dropWhile (\<lambda>c. c \<noteq> CHR ''?'') target)) else req_query_string r)\<rparr>"
  have r2: "(case stringv_find_char (req_path ?r1) (CHR ''?'') of
       None \<Rightarrow> ?r1
     | Some query_index \<Rightarrow>
         ?r1\<lparr>req_query_string := stringv_from (req_path ?r1) (query_index + 1),
            req_path := stringv_slice (req_path ?r1) 0 query_index\<rparr>) = ?r2"
  proof (cases "CHR ''?'' \<in> set target")
    case True
    then obtain a b where ab: "target = a @ CHR ''?'' # b" "CHR ''?'' \<notin> set a" by (meson split_list_first)
    then have "stringv_find_char (View target) (CHR ''?'') = Some (length a)" by (auto simp: view_find_char_Some)
    then show ?thesis using ab by (simp add: view_slice view_from)
  next
    case False
    then have none: "stringv_find_char (View target) (CHR ''?'') = None" by (simp add: view_find_char_None)
    have all: "takeWhile (\<lambda>c. c \<noteq> CHR ''?'') target = target"
      unfolding takeWhile_eq_all_conv using False by blast
    have eq: "?r1 = ?r2" unfolding all if_not_P [OF False] by (cases r) simp
    have p1: "req_path ?r1 = View target" by simp
    show ?thesis unfolding p1 none option.case by (rule eq)
  qed
  have path: "(sv_length (req_path ?r2) = 0) = False" by (simp add: target)
  show ?thesis
    unfolding head_of_lines_eq [OF lines] first option.case prod.case second tests if_False
    unfolding Let_def r2 path if_False ..
qed

lemma split_once_char_inv:
  assumes "stringv_split_once_char (View v) c = Some (View a, View b)"
  shows "v = a @ c # b \<and> c \<notin> set a"
proof -
  have "c \<in> set v" using assms by (auto simp: view_split_once_char split: if_splits)
  then obtain l r where v: "v = l @ c # r" "c \<notin> set l" by (meson split_list_first)
  then show ?thesis using assms by (simp add: view_split_once_char)
qed

text \<open>The fields after a head that was accepted.\<close>

lemma accepted_head:
  assumes lines: "no_crlf line" "\<forall>l\<in>set ls. no_crlf l \<and> l \<noteq> []"
    and ok: "head_of_lines line ls request_zero = (REQUEST_PARSE_OK, q)"
  shows "length (req_headers q) \<le> CEASY_MAX_HEADERS" "req_content_length q \<le> CEASY_MAX_REQUEST_BODY"
    "\<forall>h\<in>set (req_headers q). sv_length (header_name h) \<noteq> 0"
    "\<exists>p. req_path q = View (CHR ''/'' # p) \<and> CHR ''?'' \<notin> set p"
proof -
  obtain meth line' where s1: "stringv_split_once_char (View line) (CHR '' '') = Some (View meth, View line')"
    using ok unfolding head_of_lines_eq [OF lines] by (auto simp: view_split_once_char split: if_splits)
  obtain target version where s2: "stringv_split_once_char (View line') (CHR '' '') = Some (View target, View version)"
    using ok unfolding head_of_lines_eq [OF lines] s1 by (auto simp: view_split_once_char split: if_splits)
  have tests: "stringv_equal (View version) (sv ''HTTP/1.1'')" "target \<noteq> []" "target ! 0 = CHR ''/''"
    using ok unfolding head_of_lines_eq [OF lines] s1 by (simp_all add: s2 split: if_splits)
  obtain t where target: "target = CHR ''/'' # t" using tests by (cases target) auto
  have line: "line = meth @ '' '' @ target @ '' HTTP/1.1''" and nosp: "CHR '' '' \<notin> set meth" "CHR '' '' \<notin> set target"
  proof -
    have l1: "line = meth @ CHR '' '' # line'" "CHR '' '' \<notin> set meth"
      using split_once_char_inv [OF s1] by auto
    have l2: "line' = target @ CHR '' '' # version" "CHR '' '' \<notin> set target"
      using split_once_char_inv [OF s2] by auto
    show "line = meth @ '' '' @ target @ '' HTTP/1.1''" using l1 l2 tests(1) by (simp add: view_equal sv_def)
    show "CHR '' '' \<notin> set meth" "CHR '' '' \<notin> set target" using l1 l2 by auto
  qed
  note H = head_request_line [OF nosp lines(1) [unfolded line] lines(2) target, of request_zero]
  obtain r2 where r2: "req_headers r2 = []" "req_content_length r2 = 0" "req_path r2 = View (takeWhile (\<lambda>c. c \<noteq> CHR ''?'') target)"
    "(case headers_of_lines r2 ls of
          Inl early \<Rightarrow> early
        | Inr r3 \<Rightarrow>
            (let r4 = r3\<lparr>req_content_type := request_header r3 (sv ''Content-Type'')\<rparr>
             in if request_transfer_is_chunked (request_header r4 (sv ''Transfer-Encoding''))
                then (REQUEST_PARSE_UNSUPPORTED, r4)
                else if request_has_header r4 (sv ''Content-Length'')
                then (case stringv_parse_size (request_header r4 (sv ''Content-Length'')) of
                        None \<Rightarrow> (REQUEST_PARSE_BAD_REQUEST, r4)
                      | Some n \<Rightarrow>
                          (let r5 = r4\<lparr>req_content_length := n\<rparr>
                           in if n > CEASY_MAX_REQUEST_BODY then (REQUEST_PARSE_PAYLOAD_TOO_LARGE, r5)
                              else (REQUEST_PARSE_OK, r5)))
                else (REQUEST_PARSE_OK, r4))) = (REQUEST_PARSE_OK, q)"
    using ok unfolding line H by (intro that [of "request_zero\<lparr>req_method := http_method_parse_view (View meth),
                req_path := View (takeWhile (\<lambda>c. c \<noteq> CHR ''?'') target),
                req_query_string := (if CHR ''?'' \<in> set target
                  then View (tl (dropWhile (\<lambda>c. c \<noteq> CHR ''?'') target)) else req_query_string request_zero)\<rparr>"])
       (simp_all add: request_zero_def Let_def)
  have bad: "headers_of_lines r ls = Inl (a, b) \<Longrightarrow> a \<noteq> REQUEST_PARSE_OK" for r a b
    by (induction ls arbitrary: r) (auto split: if_splits option.splits)
  obtain r3 where r3: "headers_of_lines r2 ls = Inr r3"
    using r2(4) bad by (cases "headers_of_lines r2 ls") auto
  then obtain hs where hs: "map header_of_line ls = map Some hs"
    "ls = [] \<or> length ls \<le> CEASY_MAX_HEADERS" "r3 = r2\<lparr>req_headers := map header_record hs\<rparr>"
    using r2(1) by (auto simp: headers_of_lines_Inr)
  have lenhs: "length hs = length ls" using hs(1) by (metis length_map)
  have q: "req_headers q = map header_record hs" "req_path q = req_path r2" "req_content_length q \<le> CEASY_MAX_REQUEST_BODY"
    using r2(2,4) hs(3) unfolding r3 by (auto simp: Let_def split: if_splits option.splits)
  show "length (req_headers q) \<le> CEASY_MAX_HEADERS" using q(1) hs(2) lenhs by auto
  show "req_content_length q \<le> CEASY_MAX_REQUEST_BODY" by (rule q(3))
  show "\<forall>h\<in>set (req_headers q). sv_length (header_name h) \<noteq> 0"
  proof
    fix h assume "h \<in> set (req_headers q)"
    then obtain x where x: "x \<in> set hs" "h = header_record x" using q(1) by auto
    then have "Some x \<in> set (map header_of_line ls)" using hs(1) by simp
    then obtain l where "header_of_line l = Some x" by auto
    then show "sv_length (header_name h) \<noteq> 0"
      using header_of_line_name [of l "fst x" "snd x"] x by (simp add: header_record_def)
  qed
  show "\<exists>p. req_path q = View (CHR ''/'' # p) \<and> CHR ''?'' \<notin> set p"
    using q(2) r2(3) target by (auto dest: set_takeWhileD)
qed

section \<open>Requests in the usual form\<close>

definition wire_header :: "char list \<times> char list \<Rightarrow> char list" where
  "wire_header h = fst h @ '': '' @ snd h"

definition wire_request :: "char list \<Rightarrow> char list \<Rightarrow> (char list \<times> char list) list \<Rightarrow> char list \<Rightarrow> char list" where
  "wire_request meth target hs body =
     lines_text ((meth @ '' '' @ target @ '' HTTP/1.1'') # map wire_header hs) @ CRLF @ body"

definition trimmed :: "char list \<Rightarrow> bool" where
  "trimmed v \<longleftrightarrow> v = [] \<or> \<not> stringv_ascii_space (hd v) \<and> \<not> stringv_ascii_space (last v)"

definition wire_header_ok :: "char list \<times> char list \<Rightarrow> bool" where
  "wire_header_ok h \<longleftrightarrow> no_crlf (wire_header h) \<and> CHR '':'' \<notin> set (fst h) \<and> fst h \<noteq> [] \<and>
     trimmed (fst h) \<and> trimmed (snd h)"

lemma trim_trimmed:
  "trimmed v \<Longrightarrow> rev (dropWhile stringv_ascii_space (rev (dropWhile stringv_ascii_space v))) = v"
  by (cases "v = []") (auto simp: trimmed_def dropWhile_eq_self_iff [THEN iffD2] hd_rev)

lemma header_of_wire:
  assumes "wire_header_ok h"
  shows "header_of_line (wire_header h) = Some h"
proof -
  obtain n v where h: "h = (n, v)" by (cases h)
  have n: "CHR '':'' \<notin> set n" "n \<noteq> []" "trimmed n" "trimmed v" using assms by (auto simp: h wire_header_ok_def)
  have "wire_header h = n @ CHR '':'' # CHR '' '' # v" by (simp add: h wire_header_def)
  moreover have "dropWhile stringv_ascii_space (CHR '' '' # v) = dropWhile stringv_ascii_space v"
    by (simp add: stringv_ascii_space_def)
  ultimately show ?thesis using n trim_trimmed [OF n(3)] trim_trimmed [OF n(4)]
    by (simp add: header_of_line_def h Let_def)
qed

text \<open>The value of the first header with a name, compared without case.\<close>

definition header_lookup :: "(char list \<times> char list) list \<Rightarrow> char list \<Rightarrow> char list option" where
  "header_lookup hs name =
     map_option snd (List.find (\<lambda>h. map stringv_ascii_lower (fst h) = map stringv_ascii_lower name) hs)"

lemma request_header_lookup:
  assumes "req_headers r = map header_record hs"
  shows "request_header r (sv name) = (case header_lookup hs name of None \<Rightarrow> sv_zero | Some v \<Rightarrow> View v)"
    and "request_has_header r (sv name) \<longleftrightarrow> header_lookup hs name \<noteq> None"
proof -
  have "List.find (\<lambda>h. stringv_equal_ignore_case (header_name h) (View name)) (map header_record hs) =
    map_option header_record (List.find (\<lambda>h. map stringv_ascii_lower (fst h) = map stringv_ascii_lower name) hs)"
    by (induction hs) (auto simp: header_record_def view_equal_ignore_case)
  then show "request_header r (sv name) = (case header_lookup hs name of None \<Rightarrow> sv_zero | Some v \<Rightarrow> View v)"
    and "request_has_header r (sv name) \<longleftrightarrow> header_lookup hs name \<noteq> None"
    using assms
    by (auto simp: request_header_def request_has_header_def header_lookup_def sv_def header_record_def split: option.splits)
qed

lemma not_chunked_zero: "\<not> request_transfer_is_chunked sv_zero"
  by (subst request_transfer_is_chunked.simps) (simp add: sv_zero_def)

lemma wire_roundtrip:
  assumes split: "CHR '' '' \<notin> set meth" "CHR '' '' \<notin> set target"
    and line: "no_crlf (meth @ '' '' @ target @ '' HTTP/1.1'')" and target: "target = CHR ''/'' # t"
    and hs: "\<forall>h\<in>set hs. wire_header_ok h" "length hs \<le> 64"
    and te: "header_lookup hs ''Transfer-Encoding'' = None"
    and cl: "header_lookup hs ''Content-Length'' = (if body = [] then None else Some (show_nat (length body)))"
    and size: "length (wire_request meth target hs []) \<le> 16384" "length body \<le> 1048576"
  shows "request_parse r (View (wire_request meth target hs body)) =
    (REQUEST_PARSE_OK,
     \<lparr>req_method = http_method_parse_view (View meth), req_path = View (takeWhile (\<lambda>c. c \<noteq> CHR ''?'') target),
      req_query_string = (if CHR ''?'' \<in> set target then View (tl (dropWhile (\<lambda>c. c \<noteq> CHR ''?'') target)) else sv_zero),
      req_body = View body,
      req_content_type = (case header_lookup hs ''Content-Type'' of None \<Rightarrow> sv_zero | Some v \<Rightarrow> View v),
      req_content_length = length body, req_headers = map header_record hs\<rparr>)"
proof -
  let ?line = "meth @ '' '' @ target @ '' HTTP/1.1''" and ?ls = "map wire_header hs"
  have ls: "\<forall>l\<in>set ?ls. no_crlf l \<and> l \<noteq> []"
    using hs(1) by (auto simp: wire_header_ok_def wire_header_def)
  let ?r2 = "request_zero\<lparr>req_method := http_method_parse_view (View meth),
                req_path := View (takeWhile (\<lambda>c. c \<noteq> CHR ''?'') target),
                req_query_string := (if CHR ''?'' \<in> set target
                  then View (tl (dropWhile (\<lambda>c. c \<noteq> CHR ''?'') target)) else req_query_string request_zero)\<rparr>"
  let ?r3 = "?r2\<lparr>req_headers := map header_record hs\<rparr>"
  have "map header_of_line ?ls = map Some hs" using hs(1) header_of_wire by simp
  then have lines: "headers_of_lines ?r2 ?ls = Inr ?r3" unfolding headers_of_lines_Inr
    using hs(2) by (intro exI [of _ hs]) (auto simp: request_zero_def CEASY_MAX_HEADERS_def)
  let ?r4 = "?r3\<lparr>req_content_type := request_header ?r3 (sv ''Content-Type'')\<rparr>"
  have h3: "req_headers ?r3 = map header_record hs" and h4: "req_headers ?r4 = map header_record hs" by simp_all
  have te4: "request_header ?r4 (sv ''Transfer-Encoding'') = sv_zero"
    unfolding request_header_lookup(1) [OF h4] te by simp
  have ct: "request_header ?r3 (sv ''Content-Type'') = (case header_lookup hs ''Content-Type'' of None \<Rightarrow> sv_zero | Some v \<Rightarrow> View v)"
    by (rule request_header_lookup(1) [OF h3])
  have head: "head_of_lines ?line ?ls request_zero = (REQUEST_PARSE_OK, ?r4\<lparr>req_content_length := length body\<rparr>)"
  proof (cases "body = []")
    case True
    then have "\<not> request_has_header ?r4 (sv ''Content-Length'')"
      unfolding request_header_lookup(2) [OF h4] cl by simp
    then show ?thesis
      unfolding head_request_line [OF split line ls target] Let_def lines sum.case te4
      using not_chunked_zero True by (simp add: request_zero_def)
  next
    case False
    then have len: "request_header ?r4 (sv ''Content-Length'') = View (show_nat (length body))"
      "request_has_header ?r4 (sv ''Content-Length'')"
      unfolding request_header_lookup [OF h4] cl by simp_all
    have "stringv_parse_size (View (show_nat (length body))) = Some (length body)"
      using size(2) by (simp add: parse_size_iff numeral_show_nat SIZE_MAX_def)
    then show ?thesis
      unfolding head_request_line [OF split line ls target] Let_def lines sum.case te4 len(1)
      using not_chunked_zero len(2) size(2) by (simp add: CEASY_MAX_REQUEST_BODY_def)
  qed
  have "\<not> length (lines_text (?line # ?ls)) + 2 > CEASY_MAX_HEADER_BYTES"
    using size(1) by (simp add: wire_request_def CEASY_MAX_HEADER_BYTES_def)
  then show ?thesis
    unfolding wire_request_def parse_spec [OF line ls] head
    by (simp add: request_zero_def request_header_lookup(1) [where hs = hs])
qed

definition demo_request :: "char list" where
  "demo_request = wire_request ''POST'' ''/posts?page=2'' [(''Host'', ''a''), (''content-length'', ''5'')] ''hello''"

lemma crlf_free: "CHR 0x0D \<notin> set l \<Longrightarrow> no_crlf l"
  unfolding no_crlf_def occurs_crlf_nth by (metis add_lessD1 nth_mem)

lemma demo_request_parse:
  "request_parse r (View demo_request) =
    (REQUEST_PARSE_OK,
     \<lparr>req_method = HTTP_METHOD_POST, req_path = View ''/posts'', req_query_string = View ''page=2'',
      req_body = View ''hello'', req_content_type = sv_zero, req_content_length = 5,
      req_headers = [\<lparr>header_name = View ''Host'', header_value = View ''a''\<rparr>,
        \<lparr>header_name = View ''content-length'', header_value = View ''5''\<rparr>]\<rparr>)"
proof -
  let ?hs = "[(''Host'', ''a''), (''content-length'', ''5'')]"
  have five: "show_nat (length ''hello'') = ''5''" by code_simp
  have look: "header_lookup ?hs ''Content-Length'' = Some ''5''" "header_lookup ?hs ''Transfer-Encoding'' = None"
    "header_lookup ?hs ''Content-Type'' = None"
    by code_simp+
  have hs: "\<forall>h\<in>set ?hs. wire_header_ok h"
    by (auto simp: crlf_free wire_header_ok_def wire_header_def trimmed_def stringv_ascii_space_def)
  have "request_parse r (View (wire_request ''POST'' ''/posts?page=2'' ?hs ''hello'')) =
    (REQUEST_PARSE_OK,
     \<lparr>req_method = http_method_parse_view (View ''POST''),
      req_path = View (takeWhile (\<lambda>c. c \<noteq> CHR ''?'') ''/posts?page=2''),
      req_query_string = (if CHR ''?'' \<in> set ''/posts?page=2''
        then View (tl (dropWhile (\<lambda>c. c \<noteq> CHR ''?'') ''/posts?page=2'')) else sv_zero),
      req_body = View ''hello'',
      req_content_type = (case header_lookup ?hs ''Content-Type'' of None \<Rightarrow> sv_zero | Some v \<Rightarrow> View v),
      req_content_length = length ''hello'', req_headers = map header_record ?hs\<rparr>)"
  proof (rule wire_roundtrip)
    show "header_lookup ?hs ''Content-Length'' = (if ''hello'' = [] then None else Some (show_nat (length ''hello'')))"
      unfolding five look by simp
    show "''/posts?page=2'' = CHR ''/'' # ''posts?page=2''" by simp
  qed (use hs look in \<open>simp_all add: crlf_free wire_request_def wire_header_def\<close>)
  then show ?thesis unfolding demo_request_def look
    by (simp add: http_method_parse_view_def view_equal sv_def header_record_def)
qed

section \<open>Properties\<close>

text \<open>C18: What \<open>request_parse\<close> accepts. An accepted input has a blank line that ends the head within
  the first 16 KiB; at most 64 headers, all with a name; a path that starts with a slash and holds no
  query; a content length of at most 1 MiB, with that many bytes present behind the blank line, and
  exactly these are the body.\<close>

theorem request_parse_accepts:
  assumes "request_parse r (View v) = (REQUEST_PARSE_OK, q)"
  shows "length (req_headers q) \<le> 64 \<and> (\<forall>h\<in>set (req_headers q). sv_length (header_name h) \<noteq> 0) \<and>
    (\<exists>p. req_path q = View (CHR ''/'' # p) \<and> CHR ''?'' \<notin> set p) \<and>
    req_content_length q \<le> 1048576 \<and>
    (\<exists>head rest. v = head @ CRLF @ CRLF @ rest \<and> length head + 4 \<le> 16384 \<and>
       req_content_length q \<le> length rest \<and> req_body q = View (take (req_content_length q) rest))"
proof -
  obtain e where e: "request_find_bytes (View v) (CRLF @ CRLF) = Some e"
    using assms by (auto simp: request_parse_def split: option.splits if_splits)
  obtain line ls rest where L: "v = lines_text (line # ls) @ CRLF @ rest" "no_crlf line"
    "\<forall>l\<in>set ls. no_crlf l \<and> l \<noteq> []" using head_lines [OF e] by metis
  note P = assms [unfolded L(1) parse_spec [OF L(2,3)]]
  obtain result q0 where H: "head_of_lines line ls request_zero = (result, q0)" by fastforce
  have small: "length (lines_text (line # ls)) + 2 \<le> CEASY_MAX_HEADER_BYTES" and ok: "result = REQUEST_PARSE_OK"
    and body: "req_content_length q0 \<le> length rest" "q = q0\<lparr>req_body := View (take (req_content_length q0) rest)\<rparr>"
    using P H by (auto simp: Let_def split: if_splits)
  note A = accepted_head [OF L(2,3) H [unfolded ok]]
  obtain head where head: "lines_text (line # ls) = head @ CRLF"
  proof (cases ls rule: rev_cases)
    case Nil
    then show thesis using that [of line] by simp
  next
    case (snoc ls' l')
    then show thesis using that [of "lines_text (line # ls') @ l'"] by simp
  qed
  have "v = head @ CRLF @ CRLF @ rest" using L(1) unfolding head by simp
  moreover have "length head + 4 \<le> 16384" using small unfolding head by (simp add: CEASY_MAX_HEADER_BYTES_def)
  ultimately show ?thesis using A body by (auto simp: CEASY_MAX_HEADERS_def CEASY_MAX_REQUEST_BODY_def)
qed

theorem request_parse_accepts_witness:
  "\<exists>q. request_parse request_zero (View demo_request) = (REQUEST_PARSE_OK, q) \<and> length (req_headers q) = 2 \<and>
     req_content_length q \<le> 1048576"
  using request_parse_accepts [OF demo_request_parse [of request_zero]] demo_request_parse [of request_zero]
  by auto



text \<open>C20: A request written in the usual form is read back: method, path, query, the headers in order
  with their trimmed values, and a body of the announced length. The method and target hold no
  space, no header line holds a CRLF, the names hold no colon, the head fits 16 KiB and the body
  1 MiB, and the body's length is announced by \<open>Content-Length\<close>.\<close>

theorem request_parse_wire:
  assumes "CHR '' '' \<notin> set meth" "CHR '' '' \<notin> set target"
    and "no_crlf (meth @ '' '' @ target @ '' HTTP/1.1'')" "target = CHR ''/'' # t"
    and "\<forall>h\<in>set hs. wire_header_ok h" "length hs \<le> 64"
    and "header_lookup hs ''Transfer-Encoding'' = None"
    and "header_lookup hs ''Content-Length'' = (if body = [] then None else Some (show_nat (length body)))"
    and "length (wire_request meth target hs []) \<le> 16384" "length body \<le> 1048576"
  shows "request_parse r (View (wire_request meth target hs body)) =
    (REQUEST_PARSE_OK,
     \<lparr>req_method = http_method_parse_view (View meth), req_path = View (takeWhile (\<lambda>c. c \<noteq> CHR ''?'') target),
      req_query_string = (if CHR ''?'' \<in> set target then View (tl (dropWhile (\<lambda>c. c \<noteq> CHR ''?'') target)) else sv_zero),
      req_body = View body,
      req_content_type = (case header_lookup hs ''Content-Type'' of None \<Rightarrow> sv_zero | Some v \<Rightarrow> View v),
      req_content_length = length body, req_headers = map header_record hs\<rparr>)"
  using assms by (rule wire_roundtrip)

theorem request_parse_wire_witness:
  "request_parse request_zero (View (wire_request ''GET'' ''/'' [] [])) =
    (REQUEST_PARSE_OK, request_zero\<lparr>req_method := HTTP_METHOD_GET, req_path := View ''/'', req_body := View []\<rparr>)"
  by (subst request_parse_wire [of _ _ "[]"])
     (auto simp: crlf_free header_lookup_def wire_request_def http_method_parse_view_def view_equal sv_def request_zero_def)

end
