(* ===== verification/World.thy ===== *)
theory World
  imports Allocator StringView
begin

text \<open>
  What lies outside the repository: SQLite, libsodium, the clock, sockets and the C heap. Each
  function the code calls is a field of \<open>env\<close>; \<open>'w\<close> is the state of the outside, passed explicitly.
  Nothing is known about a field except what a theorem names as a hypothesis. A C string argument is
  given without its NUL; connections and statements are handles, \<open>None\<close> being \<open>NULL\<close>.
\<close>

datatype SqliteStep = SQLITE_ROW | SQLITE_DONE | SQLITE_FAILED

record 'w env =
  env_heap :: "'w heap_functions"
  sqlite3_open :: "'w \<Rightarrow> char list \<Rightarrow> bool \<times> nat option \<times> 'w"
  sqlite3_close :: "'w \<Rightarrow> nat \<Rightarrow> bool \<times> 'w"
  sqlite3_busy_timeout :: "'w \<Rightarrow> nat \<Rightarrow> nat \<Rightarrow> bool \<times> 'w"
  sqlite3_exec :: "'w \<Rightarrow> nat \<Rightarrow> char list \<Rightarrow> bool \<times> char list option \<times> 'w"
  sqlite3_errmsg :: "'w \<Rightarrow> nat \<Rightarrow> char list"
  sqlite3_prepare_v2 :: "'w \<Rightarrow> nat \<Rightarrow> char list \<Rightarrow> bool \<times> nat option \<times> 'w"
  sqlite3_bind_text :: "'w \<Rightarrow> nat \<Rightarrow> nat \<Rightarrow> char list \<Rightarrow> bool \<times> 'w"
  sqlite3_bind_int64 :: "'w \<Rightarrow> nat \<Rightarrow> nat \<Rightarrow> int \<Rightarrow> bool \<times> 'w"
  sqlite3_bind_blob :: "'w \<Rightarrow> nat \<Rightarrow> nat \<Rightarrow> char list option \<Rightarrow> nat \<Rightarrow> bool \<times> 'w"
  sqlite3_step :: "'w \<Rightarrow> nat \<Rightarrow> SqliteStep \<times> 'w"
  sqlite3_column_count :: "'w \<Rightarrow> nat \<Rightarrow> nat"
  sqlite3_column_name :: "'w \<Rightarrow> nat \<Rightarrow> nat \<Rightarrow> char list option"
  sqlite3_column_int64 :: "'w \<Rightarrow> nat \<Rightarrow> nat \<Rightarrow> int"
  sqlite3_column_text :: "'w \<Rightarrow> nat \<Rightarrow> nat \<Rightarrow> char list option"
  sqlite3_column_blob :: "'w \<Rightarrow> nat \<Rightarrow> nat \<Rightarrow> char list option"
  sqlite3_column_bytes :: "'w \<Rightarrow> nat \<Rightarrow> nat \<Rightarrow> nat"
  sqlite3_finalize :: "'w \<Rightarrow> nat \<Rightarrow> 'w"
  sqlite3_last_insert_rowid :: "'w \<Rightarrow> nat \<Rightarrow> int"
  sqlite3_changes :: "'w \<Rightarrow> nat \<Rightarrow> int"
  sodium_init :: "'w \<Rightarrow> bool \<times> 'w"
  crypto_generichash :: "char list \<Rightarrow> char list option"
  randombytes_buf :: "'w \<Rightarrow> nat \<Rightarrow> char list \<times> 'w"
  sodium_bin2base64 :: "char list \<Rightarrow> char list"
  sodium_memcmp :: "char list \<Rightarrow> char list \<Rightarrow> bool"
  clock :: "'w \<Rightarrow> int \<times> 'w"
  sock_send :: "'w \<Rightarrow> int \<Rightarrow> char list \<Rightarrow> int \<times> bool \<times> 'w"
  sock_recv :: "'w \<Rightarrow> int \<Rightarrow> nat \<Rightarrow> char list option \<times> 'w"
  sock_close :: "'w \<Rightarrow> int \<Rightarrow> 'w"

text \<open>A C string held in a buffer, up to its NUL.\<close>

definition c_string :: "buffer \<Rightarrow> char list" where
  "c_string b = take (strlen b) b"

lemma c_string_NUL [simp]: "CHR 0x00 \<notin> set s \<Longrightarrow> c_string (s @ CHR 0x00 # r) = s"
  unfolding c_string_def strlen_def takeWhile_first [of "CHR 0x00" s r] by simp

text \<open>An outside in which memory is plenty and everything else fails, to build concrete cases from.\<close>

definition plenty :: "'w heap_functions" where
  "plenty = \<lparr>c_malloc = (\<lambda>w n. (Some (replicate n (CHR 0x00)), w)),
     c_realloc = (\<lambda>w mem n. (Some (case mem of None \<Rightarrow> replicate n (CHR 0x00)
        | Some old \<Rightarrow> take n old @ replicate (n - length old) (CHR 0x00)), w)),
     c_free = (\<lambda>w mem. w)\<rparr>"

definition null_env :: "'w env" where
  "null_env = \<lparr>env_heap = plenty,
     sqlite3_open = (\<lambda>w path. (False, None, w)), sqlite3_close = (\<lambda>w c. (True, w)),
     sqlite3_busy_timeout = (\<lambda>w c n. (True, w)), sqlite3_exec = (\<lambda>w c sql. (False, None, w)),
     sqlite3_errmsg = (\<lambda>w c. ''error''), sqlite3_prepare_v2 = (\<lambda>w c sql. (False, None, w)),
     sqlite3_bind_text = (\<lambda>w s i t. (False, w)), sqlite3_bind_int64 = (\<lambda>w s i n. (False, w)),
     sqlite3_bind_blob = (\<lambda>w s i d n. (False, w)), sqlite3_step = (\<lambda>w s. (SQLITE_FAILED, w)),
     sqlite3_column_count = (\<lambda>w s. 0), sqlite3_column_name = (\<lambda>w s i. None),
     sqlite3_column_int64 = (\<lambda>w s i. 0), sqlite3_column_text = (\<lambda>w s i. None),
     sqlite3_column_blob = (\<lambda>w s i. None), sqlite3_column_bytes = (\<lambda>w s i. 0),
     sqlite3_finalize = (\<lambda>w s. w), sqlite3_last_insert_rowid = (\<lambda>w c. 0),
     sqlite3_changes = (\<lambda>w c. 0), sodium_init = (\<lambda>w. (False, w)), crypto_generichash = (\<lambda>t. None),
     randombytes_buf = (\<lambda>w n. (replicate n (CHR 0x00), w)), sodium_bin2base64 = (\<lambda>t. t),
     sodium_memcmp = (\<lambda>a b. a = b), clock = (\<lambda>w. (0, w)), sock_send = (\<lambda>w fd bytes. (-1, False, w)),
     sock_recv = (\<lambda>w fd n. (None, w)), sock_close = (\<lambda>w fd. w)\<rparr>"

end
