(* ===== verification/Database.thy ===== *)
theory Database
  imports World
begin

text \<open>
  The database layer of \<open>src/src/database/database.c\<close>: a connection with a queue of writes that is
  executed in one transaction before anything else touches the connection, explicit transactions,
  prepared statements, and reading of whole result sets.

  SQLite and the C heap are fields of the environment \<open>E\<close>. A statement carries the database by being
  passed along with it, so only its handle is stored; \<open>statement->database\<close> is never \<open>NULL\<close> when the
  handle is not. The bytes of the queue's array are not modelled, only its capacity and the texts.
\<close>

record Database =
  db_connection :: "nat option"
  db_writes :: "buffer list"
  db_write_capacity :: size_t
  db_in_transaction :: bool
  db_error :: "char list"

record DatabaseRows =
  rows_column_names :: "buffer list"
  rows_rows :: "buffer option list list"
  rows_allocated :: nat

type_synonym DatabaseStatement = "nat option"

datatype DatabaseStepResult = DATABASE_STEP_ERROR | DATABASE_STEP_DONE | DATABASE_STEP_ROW

definition database_zero :: Database where
  "database_zero = \<lparr>db_connection = None, db_writes = [], db_write_capacity = 0,
     db_in_transaction = False, db_error = []\<rparr>"

definition rows_zero :: DatabaseRows where
  "rows_zero = \<lparr>rows_column_names = [], rows_rows = [], rows_allocated = 0\<rparr>"

text \<open>\<open>vsnprintf\<close> into the 256 bytes of the error text.\<close>

definition database_set_error :: "Database \<Rightarrow> char list \<Rightarrow> Database" where
  "database_set_error db message = db\<lparr>db_error := take 255 message\<rparr>"

text \<open>The message SQLite handed out, or its last error.\<close>

definition database_set_sqlite_error :: "'w env \<Rightarrow> 'w \<Rightarrow> nat \<Rightarrow> char list option \<Rightarrow> Database \<Rightarrow> Database" where
  "database_set_sqlite_error E w c message db =
     database_set_error db (case message of None \<Rightarrow> sqlite3_errmsg E w c | Some t \<Rightarrow> t)"

definition database_copy_text :: "'w env \<Rightarrow> 'w \<Rightarrow> char list \<Rightarrow> buffer option \<times> 'w" where
  "database_copy_text E w t =
     (case c_malloc (env_heap E) w (length t + 1) of
        (None, w1) \<Rightarrow> (None, w1)
      | (Some copy, w1) \<Rightarrow> (Some (mem_write copy 0 (t @ [CHR 0x00])), w1))"

text \<open>The queue's array as a block of memory: \<open>NULL\<close> before the first write.\<close>

definition sizeof_pointer :: size_t where
  "sizeof_pointer = 8"

definition writes_memory :: "size_t \<Rightarrow> buffer option" where
  "writes_memory capacity =
     (if capacity = 0 then None else Some (replicate (capacity * sizeof_pointer) (CHR 0x00)))"

definition env_free :: "'w env \<Rightarrow> 'w \<Rightarrow> buffer option \<Rightarrow> 'w" where
  "env_free E w memory = (case memory of None \<Rightarrow> w | Some b \<Rightarrow> c_free (env_heap E) w b)"

definition database_clear_writes :: "'w env \<Rightarrow> 'w \<Rightarrow> Database \<Rightarrow> Database \<times> 'w" where
  "database_clear_writes E w db =
     (db\<lparr>db_writes := [], db_write_capacity := 0\<rparr>,
      env_free E (foldl (\<lambda>w1 sql. env_free E w1 (Some sql)) w (db_writes db))
        (writes_memory (db_write_capacity db)))"

section \<open>Opening and the queue of writes\<close>

definition database_open :: "'w env \<Rightarrow> 'w \<Rightarrow> char list \<Rightarrow> bool \<times> Database \<times> 'w" where
  "database_open E w path =
     (case sqlite3_open E w path of
        (False, None, w1) \<Rightarrow> (False, database_set_error database_zero ''could not open database'', w1)
      | (False, Some c, w1) \<Rightarrow>
          (False, database_set_error database_zero (sqlite3_errmsg E w1 c), snd (sqlite3_close E w1 c))
      | (True, None, w1) \<Rightarrow> (False, database_zero, w1)
      | (True, Some c, w1) \<Rightarrow>
          (let db = database_zero\<lparr>db_connection := Some c\<rparr>;
               fail = (\<lambda>w2 message.
                 (False, (database_set_sqlite_error E w2 c message db)\<lparr>db_connection := None\<rparr>,
                  snd (sqlite3_close E w2 c)))
           in case sqlite3_busy_timeout E w1 c 5000 of
                (False, w2) \<Rightarrow> fail w2 None
              | (True, w2) \<Rightarrow>
                  (case sqlite3_exec E w2 c ''PRAGMA foreign_keys = ON'' of
                     (False, message, w3) \<Rightarrow> fail w3 message
                   | (True, _, w3) \<Rightarrow>
                       if path = '':memory:'' then (True, db, w3)
                       else (case sqlite3_exec E w3 c ''PRAGMA journal_mode = WAL'' of
                               (False, message, w4) \<Rightarrow> fail w4 message
                             | (True, _, w4) \<Rightarrow> (True, db, w4)))))"

definition database_write :: "'w env \<Rightarrow> 'w \<Rightarrow> Database \<Rightarrow> char list \<Rightarrow> bool \<times> Database \<times> 'w" where
  "database_write E w db sql =
     (if db_connection db = None then (False, db, w)
      else
        (let (grown, w1) =
           (if length (db_writes db) = db_write_capacity db
            then (let new_capacity = (if db_write_capacity db = 0 then 8 else sz_mul (db_write_capacity db) 2)
                  in case c_realloc (env_heap E) w (writes_memory (db_write_capacity db))
                            (sz_mul new_capacity sizeof_pointer) of
                       (None, w1) \<Rightarrow> (None, w1)
                     | (Some _, w1) \<Rightarrow> (Some (db\<lparr>db_write_capacity := new_capacity\<rparr>), w1))
            else (Some db, w))
         in case grown of
              None \<Rightarrow> (False, database_set_error db ''out of memory'', w1)
            | Some db1 \<Rightarrow>
                (case database_copy_text E w1 sql of
                   (None, w2) \<Rightarrow> (False, database_set_error db1 ''out of memory'', w2)
                 | (Some sql_copy, w2) \<Rightarrow> (True, db1\<lparr>db_writes := db_writes db1 @ [sql_copy]\<rparr>, w2))))"

text \<open>The loop that executes the queue; it stops at the first statement that fails, with its message.\<close>

fun database_run_writes :: "'w env \<Rightarrow> 'w \<Rightarrow> nat \<Rightarrow> buffer list \<Rightarrow> bool \<times> char list option \<times> 'w" where
  "database_run_writes E w c [] = (True, None, w)"
| "database_run_writes E w c (sql # writes) =
     (case sqlite3_exec E w c (c_string sql) of
        (False, message, w1) \<Rightarrow> (False, message, w1)
      | (True, _, w1) \<Rightarrow> database_run_writes E w1 c writes)"

definition database_flush :: "'w env \<Rightarrow> 'w \<Rightarrow> Database \<Rightarrow> bool \<times> Database \<times> 'w" where
  "database_flush E w db =
     (case db_connection db of
        None \<Rightarrow> (False, db, w)
      | Some c \<Rightarrow>
          if db_writes db = [] then (True, db, w)
          else
            (let own_transaction = (\<not> db_in_transaction db);
                 (begun, message, w1) =
                   (if own_transaction then sqlite3_exec E w c ''BEGIN'' else (True, None, w))
             in if \<not> begun then (False, database_set_sqlite_error E w1 c message db, w1)
                else case database_run_writes E w1 c (db_writes db) of
                  (False, message, w2) \<Rightarrow>
                    (False, database_set_sqlite_error E w2 c message db,
                     if own_transaction then snd (snd (sqlite3_exec E w2 c ''ROLLBACK'')) else w2)
                | (True, _, w2) \<Rightarrow>
                    (let (committed, message, w3) =
                       (if own_transaction then sqlite3_exec E w2 c ''COMMIT'' else (True, None, w2))
                     in if \<not> committed
                        then (False, database_set_sqlite_error E w3 c message db,
                              snd (snd (sqlite3_exec E w3 c ''ROLLBACK'')))
                        else (let (db1, w4) = database_clear_writes E w3 db in (True, db1, w4)))))"

definition database_pending_writes :: "Database \<Rightarrow> size_t" where
  "database_pending_writes db = length (db_writes db)"

definition database_close :: "'w env \<Rightarrow> 'w \<Rightarrow> Database \<Rightarrow> bool \<times> Database \<times> 'w" where
  "database_close E w db =
     (let (success, db2, w2) =
        (case db_connection db of
           None \<Rightarrow> (True, db, w)
         | Some c \<Rightarrow>
             (let (flushed, db1, w1) = database_flush E w db;
                  (closed, w2) = sqlite3_close E w1 c
              in if \<not> closed then (False, database_set_error db1 (sqlite3_errmsg E w2 c), w2)
                 else (flushed, db1, w2)));
          (db3, w3) = database_clear_writes E w2 db2
      in (success, db3\<lparr>db_connection := None\<rparr>, w3))"

section \<open>Immediate execution and transactions\<close>

definition database_execute_sql :: "'w env \<Rightarrow> 'w \<Rightarrow> Database \<Rightarrow> StringView \<Rightarrow> bool \<times> Database \<times> 'w" where
  "database_execute_sql E w db sql =
     (if \<not> sv_has_data sql \<or> sv_length sql = SIZE_MAX then (False, db, w)
      else case db_connection db of
        None \<Rightarrow> (False, db, w)
      | Some c \<Rightarrow>
          (case database_flush E w db of
             (False, db1, w1) \<Rightarrow> (False, db1, w1)
           | (True, db1, w1) \<Rightarrow>
               if sv_length sql > SIZE_MAX - 1 then (False, db1, w1)
               else case c_malloc (env_heap E) w1 (sv_length sql + 1) of
                 (None, w2) \<Rightarrow> (False, database_set_error db1 ''out of memory'', w2)
               | (Some copy, w2) \<Rightarrow>
                   (let sql_copy = mem_write copy 0 (sv_bytes sql @ [CHR 0x00]);
                        (ok, message, w3) = sqlite3_exec E w2 c (c_string sql_copy);
                        w4 = env_free E w3 (Some sql_copy)
                    in if \<not> ok then (False, database_set_sqlite_error E w4 c message db1, w4)
                       else (True, db1, w4))))"

definition database_transaction_sql ::
    "'w env \<Rightarrow> 'w \<Rightarrow> Database \<Rightarrow> char list \<Rightarrow> bool \<Rightarrow> bool \<times> Database \<times> 'w" where
  "database_transaction_sql E w db sql expected_state =
     (if (if expected_state then db_in_transaction db else \<not> db_in_transaction db) then (False, db, w)
      else
        (let failed = (\<lambda>message db1 w1. (False, database_set_error db1
               (case message of None \<Rightarrow> ''transaction error'' | Some t \<Rightarrow> t), w1))
         in case db_connection db of
              None \<Rightarrow> failed None db w
            | Some c \<Rightarrow>
                (case database_flush E w db of
                   (False, db1, w1) \<Rightarrow> failed None db1 w1
                 | (True, db1, w1) \<Rightarrow>
                     (case sqlite3_exec E w1 c sql of
                        (False, message, w2) \<Rightarrow> failed message db1 w2
                      | (True, _, w2) \<Rightarrow> (True, db1\<lparr>db_in_transaction := expected_state\<rparr>, w2)))))"

definition database_begin :: "'w env \<Rightarrow> 'w \<Rightarrow> Database \<Rightarrow> bool \<times> Database \<times> 'w" where
  "database_begin E w db = database_transaction_sql E w db ''BEGIN'' True"

definition database_commit :: "'w env \<Rightarrow> 'w \<Rightarrow> Database \<Rightarrow> bool \<times> Database \<times> 'w" where
  "database_commit E w db = database_transaction_sql E w db ''COMMIT'' False"

definition database_rollback :: "'w env \<Rightarrow> 'w \<Rightarrow> Database \<Rightarrow> bool \<times> Database \<times> 'w" where
  "database_rollback E w db = database_transaction_sql E w db ''ROLLBACK'' False"

section \<open>Statements\<close>

definition database_prepare ::
    "'w env \<Rightarrow> 'w \<Rightarrow> Database \<Rightarrow> StringView \<Rightarrow> (bool \<times> DatabaseStatement) \<times> Database \<times> 'w" where
  "database_prepare E w db sql =
     (if \<not> sv_has_data sql \<or> sv_length sql > INT_MAX then ((False, None), db, w)
      else case db_connection db of
        None \<Rightarrow> ((False, None), db, w)
      | Some c \<Rightarrow>
          (case database_flush E w db of
             (False, db1, w1) \<Rightarrow> ((False, None), db1, w1)
           | (True, db1, w1) \<Rightarrow>
               (case sqlite3_prepare_v2 E w1 c (sv_bytes sql) of
                  (False, _, w2) \<Rightarrow> ((False, None), database_set_error db1 (sqlite3_errmsg E w2 c), w2)
                | (True, handle, w2) \<Rightarrow> ((True, handle), db1, w2))))"

text \<open>What the binding operations do with SQLite's answer.\<close>

definition database_bound :: "'w env \<Rightarrow> Database \<Rightarrow> bool \<times> 'w \<Rightarrow> bool \<times> Database \<times> 'w" where
  "database_bound E db result =
     (let (ok, w1) = result
      in (ok, if ok then db
              else (case db_connection db of
                      None \<Rightarrow> db | Some c \<Rightarrow> database_set_error db (sqlite3_errmsg E w1 c)), w1))"

definition database_bind_text ::
    "'w env \<Rightarrow> 'w \<Rightarrow> Database \<Rightarrow> DatabaseStatement \<Rightarrow> nat \<Rightarrow> StringView \<Rightarrow> bool \<times> Database \<times> 'w" where
  "database_bind_text E w db statement index v =
     (case statement of
        None \<Rightarrow> (False, db, w)
      | Some handle \<Rightarrow>
          if (\<not> sv_has_data v \<and> sv_length v > 0) \<or> sv_length v > INT_MAX then (False, db, w)
          else database_bound E db (sqlite3_bind_text E w handle index (sv_bytes v)))"

definition database_bind_int64 ::
    "'w env \<Rightarrow> 'w \<Rightarrow> Database \<Rightarrow> DatabaseStatement \<Rightarrow> nat \<Rightarrow> int \<Rightarrow> bool \<times> Database \<times> 'w" where
  "database_bind_int64 E w db statement index i =
     (case statement of
        None \<Rightarrow> (False, db, w)
      | Some handle \<Rightarrow> database_bound E db (sqlite3_bind_int64 E w handle index i))"

definition database_bind_blob ::
    "'w env \<Rightarrow> 'w \<Rightarrow> Database \<Rightarrow> DatabaseStatement \<Rightarrow> nat \<Rightarrow> char list option \<Rightarrow> size_t \<Rightarrow>
     bool \<times> Database \<times> 'w" where
  "database_bind_blob E w db statement index data len =
     (case statement of
        None \<Rightarrow> (False, db, w)
      | Some handle \<Rightarrow>
          if (data = None \<and> len > 0) \<or> len > INT_MAX then (False, db, w)
          else database_bound E db (sqlite3_bind_blob E w handle index (map_option (take len) data) len))"

definition database_step ::
    "'w env \<Rightarrow> 'w \<Rightarrow> Database \<Rightarrow> DatabaseStatement \<Rightarrow> DatabaseStepResult \<times> Database \<times> 'w" where
  "database_step E w db statement =
     (case statement of
        None \<Rightarrow> (DATABASE_STEP_ERROR, db, w)
      | Some handle \<Rightarrow>
          (case sqlite3_step E w handle of
             (SQLITE_ROW, w1) \<Rightarrow> (DATABASE_STEP_ROW, db, w1)
           | (SQLITE_DONE, w1) \<Rightarrow> (DATABASE_STEP_DONE, db, w1)
           | (SQLITE_FAILED, w1) \<Rightarrow>
               (DATABASE_STEP_ERROR,
                case db_connection db of
                  None \<Rightarrow> db | Some c \<Rightarrow> database_set_error db (sqlite3_errmsg E w1 c), w1)))"

definition database_execute ::
    "'w env \<Rightarrow> 'w \<Rightarrow> Database \<Rightarrow> DatabaseStatement \<Rightarrow> bool \<times> Database \<times> 'w" where
  "database_execute E w db statement =
     (let (result, db1, w1) = database_step E w db statement in (result = DATABASE_STEP_DONE, db1, w1))"

definition database_column_int64 :: "'w env \<Rightarrow> 'w \<Rightarrow> DatabaseStatement \<Rightarrow> nat \<Rightarrow> int" where
  "database_column_int64 E w statement column =
     (case statement of None \<Rightarrow> 0 | Some handle \<Rightarrow> sqlite3_column_int64 E w handle column)"

definition database_column_text :: "'w env \<Rightarrow> 'w \<Rightarrow> DatabaseStatement \<Rightarrow> nat \<Rightarrow> StringView" where
  "database_column_text E w statement column =
     (case statement of
        None \<Rightarrow> sv_zero
      | Some handle \<Rightarrow>
          (case sqlite3_column_text E w handle column of
             None \<Rightarrow> sv_zero
           | Some text_value \<Rightarrow> View (take (sqlite3_column_bytes E w handle column) text_value)))"

definition database_column_blob :: "'w env \<Rightarrow> 'w \<Rightarrow> DatabaseStatement \<Rightarrow> nat \<Rightarrow> char list option \<times> size_t" where
  "database_column_blob E w statement column =
     (case statement of
        None \<Rightarrow> (None, 0)
      | Some handle \<Rightarrow> (sqlite3_column_blob E w handle column, sqlite3_column_bytes E w handle column))"

definition database_column_count :: "'w env \<Rightarrow> 'w \<Rightarrow> DatabaseStatement \<Rightarrow> nat" where
  "database_column_count E w statement =
     (case statement of None \<Rightarrow> 0 | Some handle \<Rightarrow> sqlite3_column_count E w handle)"

definition database_column_name :: "'w env \<Rightarrow> 'w \<Rightarrow> DatabaseStatement \<Rightarrow> nat \<Rightarrow> StringView" where
  "database_column_name E w statement column =
     (case statement of
        None \<Rightarrow> sv_zero
      | Some handle \<Rightarrow> stringv_from_cstr (sqlite3_column_name E w handle column))"

definition database_last_insert_id :: "'w env \<Rightarrow> 'w \<Rightarrow> Database \<Rightarrow> int" where
  "database_last_insert_id E w db =
     (case db_connection db of None \<Rightarrow> 0 | Some c \<Rightarrow> sqlite3_last_insert_rowid E w c)"

definition database_changes :: "'w env \<Rightarrow> 'w \<Rightarrow> Database \<Rightarrow> int" where
  "database_changes E w db = (case db_connection db of None \<Rightarrow> 0 | Some c \<Rightarrow> sqlite3_changes E w c)"

definition database_statement_destroy :: "'w env \<Rightarrow> 'w \<Rightarrow> DatabaseStatement \<Rightarrow> 'w" where
  "database_statement_destroy E w statement =
     (case statement of None \<Rightarrow> w | Some handle \<Rightarrow> sqlite3_finalize E w handle)"

section \<open>Reading a whole result set\<close>

text \<open>
  The result set on the heap: its texts, the array of each row, the arrays of rows and of names.
  \<open>rows_allocated\<close> is the number of entries the array of rows has room for, 0 when it is \<open>NULL\<close>.
  \<open>calloc\<close> is \<open>malloc\<close> of the product; the zero bytes of a pointer array are its \<open>NULL\<close> entries. In this
  section \<open>None\<close> is a call that does not return: it dereferences \<open>NULL\<close>, or the statement never ends.
\<close>

definition pointer_array :: "size_t \<Rightarrow> buffer" where
  "pointer_array n = replicate (n * sizeof_pointer) (CHR 0x00)"

definition database_rows_free :: "'w env \<Rightarrow> 'w \<Rightarrow> nat \<Rightarrow> DatabaseRows \<Rightarrow> DatabaseRows \<times> 'w" where
  "database_rows_free E w columns rows =
     (rows_zero,
      let w1 = foldl (\<lambda>w1 row. env_free E (foldl (env_free E) w1 row) (Some (pointer_array columns))) w
                 (rows_rows rows);
          w2 = foldl (\<lambda>w2 name. env_free E w2 (Some name)) w1 (rows_column_names rows);
          w3 = env_free E w2 (if rows_allocated rows = 0 then None
                              else Some (pointer_array (rows_allocated rows)))
      in env_free E w3 (if columns = 0 then None else Some (pointer_array columns)))"

text \<open>
  Copies of the names and of the texts of a list of columns; \<open>None\<close> entries of a row are SQL \<open>NULL\<close>.
  Without memory for the array of names, the clean-up walks that array, which is \<open>NULL\<close>.
\<close>

fun database_copy_names ::
    "'w env \<Rightarrow> 'w \<Rightarrow> nat \<Rightarrow> nat list \<Rightarrow> buffer list \<Rightarrow> (bool \<times> buffer list \<times> 'w) option" where
  "database_copy_names E w handle [] names = Some (True, names, w)"
| "database_copy_names E w handle (column # columns) names =
     (case sqlite3_column_name E w handle column of
        None \<Rightarrow> None
      | Some name \<Rightarrow>
          (case database_copy_text E w name of
             (None, w1) \<Rightarrow> Some (False, names, w1)
           | (Some copy, w1) \<Rightarrow> database_copy_names E w1 handle columns (names @ [copy])))"

fun database_copy_row ::
    "'w env \<Rightarrow> 'w \<Rightarrow> nat \<Rightarrow> nat list \<Rightarrow> buffer option list \<Rightarrow> bool \<times> buffer option list \<times> 'w" where
  "database_copy_row E w handle [] row = (True, row, w)"
| "database_copy_row E w handle (column # columns) row =
     (case sqlite3_column_text E w handle column of
        None \<Rightarrow> database_copy_row E w handle columns (row @ [None])
      | Some t \<Rightarrow>
          (case database_copy_text E w (take (sqlite3_column_bytes E w handle column) t) of
             (None, w1) \<Rightarrow> (False, row, w1)
           | (Some copy, w1) \<Rightarrow> database_copy_row E w1 handle columns (row @ [Some copy])))"

text \<open>
  One round of the loop over the rows: the row of the present step is added, or memory is out. A row
  whose texts could not all be copied is not counted, so it is not freed later.
\<close>

definition database_add_row ::
    "'w env \<Rightarrow> 'w \<Rightarrow> nat \<Rightarrow> nat \<Rightarrow> DatabaseRows \<Rightarrow> bool \<times> DatabaseRows \<times> 'w" where
  "database_add_row E w handle columns rows =
     (let n = length (rows_rows rows)
      in case c_realloc (env_heap E) w
                (if rows_allocated rows = 0 then None else Some (pointer_array (rows_allocated rows)))
                ((n + 1) * sizeof_pointer) of
           (None, w1) \<Rightarrow> (False, rows, w1)
         | (Some _, w1) \<Rightarrow>
             (case c_malloc (env_heap E) w1 (columns * sizeof_pointer) of
                (memory, w2) \<Rightarrow>
                  let rows1 = rows\<lparr>rows_allocated := n + 1\<rparr>
                  in if columns > 0 \<and> memory = None then (False, rows1, w2)
                     else (let (ok, row, w3) = database_copy_row E w2 handle [0..<columns] []
                           in (ok, if ok then rows1\<lparr>rows_rows := rows_rows rows1 @ [row]\<rparr> else rows1, w3))))"

text \<open>The loop itself: whether the statement was done, or else whether it was the statement that failed.\<close>

partial_function (option) database_read_rows ::
    "'w env \<Rightarrow> 'w \<Rightarrow> nat \<Rightarrow> nat \<Rightarrow> DatabaseRows \<Rightarrow> ((bool \<times> bool) \<times> DatabaseRows \<times> 'w) option" where
  "database_read_rows E w handle columns rows =
     (let (result, w1) = sqlite3_step E w handle
      in if result \<noteq> SQLITE_ROW then Some ((result = SQLITE_DONE, True), rows, w1)
         else (let (ok, rows1, w2) = database_add_row E w1 handle columns rows
               in if ok then database_read_rows E w2 handle columns rows1
                  else Some ((False, False), rows1, w2)))"

definition database_read ::
    "'w env \<Rightarrow> 'w \<Rightarrow> Database \<Rightarrow> char list \<Rightarrow> (bool \<times> DatabaseRows \<times> Database \<times> 'w) option" where
  "database_read E w db sql =
     (case db_connection db of
        None \<Rightarrow> Some (False, rows_zero, db, w)
      | Some c \<Rightarrow>
          (case database_flush E w db of
             (False, db1, w1) \<Rightarrow> Some (False, rows_zero, db1, w1)
           | (True, db1, w1) \<Rightarrow>
               (case sqlite3_prepare_v2 E w1 c sql of
                  (False, _, w2) \<Rightarrow>
                    Some (False, rows_zero, database_set_error db1 (sqlite3_errmsg E w2 c), w2)
                | (True, None, w2) \<Rightarrow>
                    Some (False, rows_zero, database_set_error db1 (sqlite3_errmsg E w2 c), w2)
                | (True, Some handle, w2) \<Rightarrow>
                    (let columns = sqlite3_column_count E w2 handle;
                         failed = (\<lambda>message rows w9.
                           (let (rows', w10) = database_rows_free E (sqlite3_finalize E w9 handle) columns rows
                            in Some (False, rows', database_set_error db1 message, w10)))
                     in case c_malloc (env_heap E) w2 (columns * sizeof_pointer) of
                          (memory, w3) \<Rightarrow>
                            if columns > 0 \<and> memory = None then None
                            else case database_copy_names E w3 handle [0..<columns] [] of
                              None \<Rightarrow> None
                            | Some (False, names, w4) \<Rightarrow>
                                failed ''out of memory'' (rows_zero\<lparr>rows_column_names := names\<rparr>) w4
                            | Some (True, names, w4) \<Rightarrow>
                                (case database_read_rows E w4 handle columns
                                        (rows_zero\<lparr>rows_column_names := names\<rparr>) of
                                   None \<Rightarrow> None
                                 | Some ((True, _), rows, w5) \<Rightarrow>
                                     Some (True, rows, db1, sqlite3_finalize E w5 handle)
                                 | Some ((False, True), rows, w5) \<Rightarrow>
                                     failed (sqlite3_errmsg E w5 c) rows w5
                                 | Some ((False, False), rows, w5) \<Rightarrow>
                                     failed ''out of memory'' rows w5)))))"

end
