(* ===== verification/DatabaseLaws.thy ===== *)
theory DatabaseLaws
  imports Database
begin

text \<open>
  The queue of writes against a store with transactions. \<open>sqlite_store\<close> collects what the code relies
  on of SQLite: \<open>content\<close> is what a reader of the connection sees, \<open>saved\<close> the content at the start of
  the open transaction, if one is open, and \<open>effect\<close> what a statement that succeeds may do. The laws
  are those of SQLite's transaction documentation, including the errors that roll back by themselves.
\<close>

record ('w, 's) store =
  content :: "'w \<Rightarrow> 's"
  saved :: "'w \<Rightarrow> 's option"
  effect :: "char list \<Rightarrow> 's \<Rightarrow> 's \<Rightarrow> bool"
  plain :: "char list \<Rightarrow> bool"

definition exec_law ::
    "'w env \<Rightarrow> nat \<Rightarrow> ('w, 's) store \<Rightarrow> char list \<Rightarrow> ('w \<Rightarrow> bool \<Rightarrow> 'w \<Rightarrow> bool) \<Rightarrow> bool" where
  "exec_law E c S sql P \<longleftrightarrow> (\<forall>w ok message w'. sqlite3_exec E w c sql = (ok, message, w') \<longrightarrow> P w ok w')"

definition undone :: "('w, 's) store \<Rightarrow> 's \<Rightarrow> 'w \<Rightarrow> bool" where
  "undone S s w \<longleftrightarrow> saved S w = Some s \<or> (saved S w = None \<and> content S w = s)"

definition sqlite_store :: "'w env \<Rightarrow> nat \<Rightarrow> ('w, 's) store \<Rightarrow> bool" where
  "sqlite_store E c S \<longleftrightarrow>
     exec_law E c S ''BEGIN'' (\<lambda>w ok w'. saved S w = None \<longrightarrow>
       content S w' = content S w \<and> saved S w' = (if ok then Some (content S w) else None)) \<and>
     exec_law E c S ''COMMIT'' (\<lambda>w ok w'. \<forall>s. saved S w = Some s \<longrightarrow>
       (if ok then content S w' = content S w \<and> saved S w' = None else undone S s w')) \<and>
     exec_law E c S ''ROLLBACK'' (\<lambda>w ok w'. saved S w' = None \<and>
       content S w' = (case saved S w of None \<Rightarrow> content S w | Some s \<Rightarrow> s)) \<and>
     (\<forall>sql. plain S sql \<longrightarrow> exec_law E c S sql (\<lambda>w ok w'.
       (ok \<longrightarrow> effect S sql (content S w) (content S w') \<and> saved S w' = saved S w) \<and>
       (\<forall>s. \<not> ok \<longrightarrow> saved S w = Some s \<longrightarrow> undone S s w'))) \<and>
     (\<forall>w b. content S (c_free (env_heap E) w b) = content S w \<and>
            saved S (c_free (env_heap E) w b) = saved S w)"

text \<open>A list of statements, each with its effect, one after the other.\<close>

primrec effects :: "('w, 's) store \<Rightarrow> char list list \<Rightarrow> 's \<Rightarrow> 's \<Rightarrow> bool" where
  "effects S [] s t \<longleftrightarrow> s = t"
| "effects S (sql # sqls) s t \<longleftrightarrow> (\<exists>u. effect S sql s u \<and> effects S sqls u t)"

lemma sqlite_storeD:
  assumes "sqlite_store E c S" "sqlite3_exec E w c sql = (ok, message, w')"
  shows "sql = ''BEGIN'' \<Longrightarrow> saved S w = None \<Longrightarrow>
      content S w' = content S w \<and> saved S w' = (if ok then Some (content S w) else None)"
    and "sql = ''COMMIT'' \<Longrightarrow> saved S w = Some s \<Longrightarrow>
      (if ok then content S w' = content S w \<and> saved S w' = None else undone S s w')"
    and "sql = ''ROLLBACK'' \<Longrightarrow> saved S w' = None \<and>
      content S w' = (case saved S w of None \<Rightarrow> content S w | Some s \<Rightarrow> s)"
    and "plain S sql \<Longrightarrow> ok \<Longrightarrow> effect S sql (content S w) (content S w') \<and> saved S w' = saved S w"
    and "plain S sql \<Longrightarrow> \<not> ok \<Longrightarrow> saved S w = Some s \<Longrightarrow> undone S s w'"
proof -
  note laws = assms(1) [unfolded sqlite_store_def exec_law_def]
  show "content S w' = content S w \<and> saved S w' = (if ok then Some (content S w) else None)"
    if "sql = ''BEGIN''" "saved S w = None"
    using laws [THEN conjunct1, rule_format, OF assms(2) [unfolded that(1)]] that(2) by blast
  show "if ok then content S w' = content S w \<and> saved S w' = None else undone S s w'"
    if "sql = ''COMMIT''" "saved S w = Some s"
    using laws [THEN conjunct2, THEN conjunct1, rule_format, OF assms(2) [unfolded that(1)] that(2)] .
  show "saved S w' = None \<and> content S w' = (case saved S w of None \<Rightarrow> content S w | Some s \<Rightarrow> s)"
    if "sql = ''ROLLBACK''"
    using laws [THEN conjunct2, THEN conjunct2, THEN conjunct1, rule_format, OF assms(2) [unfolded that]] .
  note plain = laws [THEN conjunct2, THEN conjunct2, THEN conjunct2, THEN conjunct1, rule_format, OF _ assms(2)]
  show "effect S sql (content S w) (content S w') \<and> saved S w' = saved S w" if "plain S sql" ok
    using plain [OF that(1)] that(2) by blast
  show "undone S s w'" if "plain S sql" "\<not> ok" "saved S w = Some s"
    using plain [OF that(1)] that(2,3) by blast
qed

lemma rollback_undone:
  assumes "sqlite_store E c S" "undone S s w" "sqlite3_exec E w c ''ROLLBACK'' = (ok, message, w')"
  shows "content S w' = s \<and> saved S w' = None"
  using sqlite_storeD(3) [OF assms(1,3) refl] assms(2) by (auto simp: undone_def)

lemma free_keeps:
  assumes "sqlite_store E c S"
  shows "content S (env_free E w b) = content S w \<and> saved S (env_free E w b) = saved S w"
  using assms unfolding sqlite_store_def env_free_def by (cases b) auto

lemma frees_keep:
  assumes "sqlite_store E c S"
  shows "content S (foldl (\<lambda>w1 sql. env_free E w1 (Some sql)) w bs) = content S w \<and>
    saved S (foldl (\<lambda>w1 sql. env_free E w1 (Some sql)) w bs) = saved S w"
  by (induction bs arbitrary: w) (simp_all add: free_keeps [OF assms])

lemma clear_writes_keeps:
  assumes "sqlite_store E c S" "database_clear_writes E w db = (db', w')"
  shows "content S w' = content S w \<and> saved S w' = saved S w \<and> db_writes db' = [] \<and>
    db_connection db' = db_connection db \<and> db_in_transaction db' = db_in_transaction db"
  using assms(2) free_keeps [OF assms(1)] frees_keep [OF assms(1)]
  by (auto simp: database_clear_writes_def)

lemma run_writes_spec:
  assumes "sqlite_store E c S" "\<forall>q\<in>set qs. plain S (c_string q)" "saved S w = saved0"
    and "database_run_writes E w c qs = (ok, message, w')"
  shows "(ok \<longrightarrow> effects S (map c_string qs) (content S w) (content S w') \<and> saved S w' = saved0) \<and>
    (\<forall>s. \<not> ok \<longrightarrow> saved0 = Some s \<longrightarrow> undone S s w')"
  using assms(2-)
proof (induction qs arbitrary: w)
  case (Cons q qs)
  obtain ok1 message1 w1 where r: "sqlite3_exec E w c (c_string q) = (ok1, message1, w1)" by (metis prod_cases3)
  note D = sqlite_storeD(4,5) [OF assms(1) r]
  have q: "plain S (c_string q)" using Cons.prems(1) by simp
  show ?case
  proof (cases ok1)
    case True
    then have "effect S (c_string q) (content S w) (content S w1)" "saved S w1 = saved0"
      using D(1) q Cons.prems(2) by auto
    moreover have "database_run_writes E w1 c qs = (ok, message, w')" using Cons.prems(3) r True by simp
    ultimately show ?thesis using Cons.IH [of w1] Cons.prems(1) by auto
  next
    case False
    then show ?thesis using Cons.prems(2,3) r D(2) q by auto
  qed
qed simp

section \<open>Flushing\<close>

text \<open>The two ways \<open>database_flush\<close> handles a queue that is not empty.\<close>

lemma flush_outside:
  assumes store: "sqlite_store E c S" and db: "db_connection db = Some c" "\<not> db_in_transaction db"
    and plain: "\<forall>q\<in>set (db_writes db). plain S (c_string q)" and w: "saved S w = None"
    and call: "database_flush E w db = (ok, db', w')"
  shows "saved S w' = None \<and> db_connection db' = Some c \<and> \<not> db_in_transaction db' \<and>
    (if ok then db_writes db' = [] \<and> effects S (map c_string (db_writes db)) (content S w) (content S w')
     else db_writes db' = db_writes db \<and> content S w' = content S w)"
proof (cases "db_writes db = []")
  case True
  then show ?thesis using assms by (auto simp: database_flush_def)
next
  case False
  obtain b message1 w1 where bgn: "sqlite3_exec E w c ''BEGIN'' = (b, message1, w1)" by (metis prod_cases3)
  note B = sqlite_storeD(1) [OF store bgn refl w]
  note flush = call [unfolded database_flush_def, simplified db option.case False bgn, simplified]
  have err: "db_writes (database_set_sqlite_error E u c t db) = db_writes db"
    "db_connection (database_set_sqlite_error E u c t db) = db_connection db"
    "db_in_transaction (database_set_sqlite_error E u c t db) = db_in_transaction db" for u t
    by (simp_all add: database_set_sqlite_error_def database_set_error_def)
  show ?thesis
  proof (cases b)
    case False
    then show ?thesis using flush B db err by auto
  next
    case True
    obtain r message2 w2 where run: "database_run_writes E w1 c (db_writes db) = (r, message2, w2)"
      by (metis prod_cases3)
    have s1: "saved S w1 = Some (content S w)" using B True by simp
    note R = run_writes_spec [OF store plain s1 run]
    show ?thesis
    proof (cases r)
      case False
      obtain x message3 w3 where roll: "sqlite3_exec E w2 c ''ROLLBACK'' = (x, message3, w3)" by (metis prod_cases3)
      have "undone S (content S w) w2" using R False by blast
      then show ?thesis using flush True run False roll rollback_undone [OF store _ roll] db err by auto
    next
      case r: True
      obtain k message3 w3 where commit: "sqlite3_exec E w2 c ''COMMIT'' = (k, message3, w3)" by (metis prod_cases3)
      have s2: "saved S w2 = Some (content S w)" and eff: "effects S (map c_string (db_writes db)) (content S w1) (content S w2)"
        using R r by auto
      note C = sqlite_storeD(2) [OF store commit refl s2]
      show ?thesis
      proof (cases k)
        case False
        obtain x message4 w4 where roll: "sqlite3_exec E w3 c ''ROLLBACK'' = (x, message4, w4)" by (metis prod_cases3)
        have "undone S (content S w) w3" using C False by simp
        then show ?thesis using flush True run r commit False roll rollback_undone [OF store _ roll] db err by auto
      next
        case k: True
        obtain db5 w5 where clear: "database_clear_writes E w3 db = (db5, w5)" by fastforce
        have "ok \<and> db' = db5 \<and> w' = w5" using flush True run r commit k clear by simp
        then show ?thesis using clear_writes_keeps [OF store clear] C k eff B db by simp
      qed
    qed
  qed
qed

lemma flush_inside:
  assumes store: "sqlite_store E c S" and db: "db_connection db = Some c" "db_in_transaction db"
    and plain: "\<forall>q\<in>set (db_writes db). plain S (c_string q)" and w: "saved S w = Some s"
    and call: "database_flush E w db = (ok, db', w')"
  shows "db_connection db' = Some c \<and> db_in_transaction db' \<and>
    (if ok then db_writes db' = [] \<and> saved S w' = Some s \<and>
                effects S (map c_string (db_writes db)) (content S w) (content S w')
     else db_writes db' = db_writes db \<and> undone S s w')"
proof (cases "db_writes db = []")
  case True
  then show ?thesis using assms by (auto simp: database_flush_def)
next
  case False
  obtain r message2 w2 where run: "database_run_writes E w c (db_writes db) = (r, message2, w2)"
    by (metis prod_cases3)
  note R = run_writes_spec [OF store plain w run]
  note flush = call [unfolded database_flush_def, simplified db option.case False, simplified, unfolded run, simplified]
  have err: "db_writes (database_set_sqlite_error E u c t db) = db_writes db"
    "db_connection (database_set_sqlite_error E u c t db) = db_connection db"
    "db_in_transaction (database_set_sqlite_error E u c t db) = db_in_transaction db" for u t
    by (simp_all add: database_set_sqlite_error_def database_set_error_def)
  show ?thesis
  proof (cases r)
    case False
    then show ?thesis using flush R db err by auto
  next
    case True
    obtain db5 w5 where clear: "database_clear_writes E w2 db = (db5, w5)" by fastforce
    have "ok \<and> db' = db5 \<and> w' = w5" using flush True clear by simp
    then show ?thesis using clear_writes_keeps [OF store clear] R True db by simp
  qed
qed

text \<open>What a flush that reports failure has run: the writes before the failing one, and that one.\<close>

lemma flush_fails_inside:
  assumes "db_connection db = Some c" "db_in_transaction db" "db_writes db \<noteq> []"
    and "database_run_writes E w c (db_writes db) = (False, message, w1)"
  shows "database_flush E w db = (False, database_set_sqlite_error E w1 c message db, w1)"
  using assms by (simp add: database_flush_def)

section \<open>The properties\<close>

text \<open>A store that keeps the list of the statements it has run, refusing the statement \<open>bad\<close>.\<close>

type_synonym demo_world = "char list list \<times> char list list option"

definition demo_exec :: "demo_world \<Rightarrow> nat \<Rightarrow> char list \<Rightarrow> bool \<times> char list option \<times> demo_world" where
  "demo_exec w c sql =
     (let (now, before) = w
      in if sql = ''BEGIN'' then (before = None, None, (now, if before = None then Some now else before))
         else if sql = ''COMMIT'' then (before \<noteq> None, None, (now, None))
         else if sql = ''ROLLBACK''
         then (before \<noteq> None, None, (case before of None \<Rightarrow> now | Some s \<Rightarrow> s, None))
         else if sql = ''bad'' then (False, Some ''bad'', w)
         else (True, None, (now @ [sql], before)))"

definition demo_env :: "demo_world env" where
  "demo_env = null_env\<lparr>sqlite3_exec := demo_exec\<rparr>"

definition demo_store :: "(demo_world, char list list) store" where
  "demo_store = \<lparr>content = fst, saved = snd, effect = (\<lambda>sql s t. t = s @ [sql]),
     plain = (\<lambda>sql. sql \<notin> {''BEGIN'', ''COMMIT'', ''ROLLBACK''})\<rparr>"

lemma demo_sqlite_store: "sqlite_store demo_env 1 demo_store"
proof -
  have "exec_law demo_env 1 demo_store sql P \<longleftrightarrow>
      (\<forall>now before. case demo_exec (now, before) 1 sql of (ok, message, w') \<Rightarrow> P (now, before) ok w')" for sql P
    by (auto simp: exec_law_def demo_env_def null_env_def split: prod.splits)
  then show ?thesis
    by (auto simp: sqlite_store_def demo_exec_def demo_store_def undone_def demo_env_def null_env_def plenty_def
        split: option.splits)
qed

definition demo_db :: "bool \<Rightarrow> char list list \<Rightarrow> Database" where
  "demo_db inside queue = database_zero\<lparr>db_connection := Some 1,
     db_writes := map (\<lambda>q. q @ [CHR 0x00]) queue, db_write_capacity := 8, db_in_transaction := inside\<rparr>"

lemmas database_eval = database_flush_def database_transaction_sql_def database_clear_writes_def
  database_set_sqlite_error_def database_set_error_def demo_db_def database_zero_def demo_env_def
  null_env_def plenty_def demo_exec_def env_free_def writes_memory_def sizeof_pointer_def

text \<open>C21: flushing is all or nothing. Outside a transaction, when \<open>database_flush\<close> succeeds the queue is
  empty and its writes have taken effect in the order they were queued; when it fails, at whatever
  statement, the content is what it was before and the queue is kept. No transaction is left open.\<close>

theorem database_flush_atomic:
  assumes "sqlite_store E c S" "db_connection db = Some c" "\<not> db_in_transaction db" "saved S w = None"
    and "\<forall>q\<in>set (db_writes db). plain S (c_string q)"
    and "database_flush E w db = (ok, db', w')"
  shows "saved S w' = None \<and>
    (if ok then db_writes db' = [] \<and> effects S (map c_string (db_writes db)) (content S w) (content S w')
     else db_writes db' = db_writes db \<and> content S w' = content S w)"
  using flush_outside [OF assms(1,2,3,5,4,6)] by auto

theorem database_flush_atomic_witness:
  "fst (database_flush demo_env ([], None) (demo_db False [''a'', ''bad'', ''b''])) = False \<and>
   content demo_store (snd (snd (database_flush demo_env ([], None) (demo_db False [''a'', ''bad'', ''b''])))) = []"
proof -
  obtain db' w' where r: "database_flush demo_env ([], None) (demo_db False [''a'', ''bad'', ''b'']) = (False, db', w')"
    by (simp add: database_eval c_string_def strlen_def)
  show ?thesis
    using database_flush_atomic [OF demo_sqlite_store _ _ _ _ r] r
    by (simp add: demo_db_def demo_store_def c_string_def strlen_def)
qed

text \<open>C22: explicit transactions. \<open>database_begin\<close>, \<open>database_commit\<close> and \<open>database_rollback\<close> succeed only in
  the right state; the writes queued so far take effect first; \<open>begin\<close> opens a transaction at that
  content, \<open>commit\<close> closes it and keeps the content, \<open>rollback\<close> closes it and brings back the content
  at its start.\<close>

theorem database_transactions:
  assumes "sqlite_store E c S" "db_connection db = Some c"
    and "\<forall>q\<in>set (db_writes db). plain S (c_string q)"
    and "saved S w = (if db_in_transaction db then Some s else None)"
  shows "(database_begin E w db = (True, db1, w1) \<longrightarrow>
      \<not> db_in_transaction db \<and> db_in_transaction db1 \<and> saved S w1 = Some (content S w1) \<and>
      effects S (map c_string (db_writes db)) (content S w) (content S w1)) \<and>
    (database_commit E w db = (True, db2, w2) \<longrightarrow>
      db_in_transaction db \<and> \<not> db_in_transaction db2 \<and> saved S w2 = None \<and>
      effects S (map c_string (db_writes db)) (content S w) (content S w2)) \<and>
    (database_rollback E w db = (True, db3, w3) \<longrightarrow>
      db_in_transaction db \<and> \<not> db_in_transaction db3 \<and> saved S w3 = None \<and> content S w3 = s)"
proof -
  obtain ok0 db0 w0 where f: "database_flush E w db = (ok0, db0, w0)" by (metis prod_cases3)
  have out: "saved S w0 = None \<and> effects S (map c_string (db_writes db)) (content S w) (content S w0)"
    if "\<not> db_in_transaction db" ok0
    using flush_outside [OF assms(1,2) that(1) assms(3) _ f] assms(4) that by auto
  have inn: "saved S w0 = Some s \<and> effects S (map c_string (db_writes db)) (content S w) (content S w0)"
    if "db_in_transaction db" ok0
    using flush_inside [OF assms(1,2) that(1) assms(3) _ f] assms(4) that by auto
  note D = sqlite_storeD [OF assms(1)]
  show ?thesis
  proof (intro conjI impI)
    assume "database_begin E w db = (True, db1, w1)"
    then obtain t where "\<not> db_in_transaction db" ok0 "sqlite3_exec E w0 c ''BEGIN'' = (True, t, w1)"
      "db1 = db0\<lparr>db_in_transaction := True\<rparr>"
      using f assms(2) by (auto simp: database_begin_def database_transaction_sql_def
          split: if_splits prod.splits bool.splits)
    then show "\<not> db_in_transaction db" "db_in_transaction db1" "saved S w1 = Some (content S w1)"
      "effects S (map c_string (db_writes db)) (content S w) (content S w1)"
      using out D(1) [of w0 "''BEGIN''" True t w1] by auto
  next
    assume "database_commit E w db = (True, db2, w2)"
    then obtain t where "db_in_transaction db" ok0 "sqlite3_exec E w0 c ''COMMIT'' = (True, t, w2)"
      "db2 = db0\<lparr>db_in_transaction := False\<rparr>"
      using f assms(2) by (auto simp: database_commit_def database_transaction_sql_def
          split: if_splits prod.splits bool.splits)
    then show "db_in_transaction db" "\<not> db_in_transaction db2" "saved S w2 = None"
      "effects S (map c_string (db_writes db)) (content S w) (content S w2)"
      using inn D(2) [of w0 "''COMMIT''" True t w2 s] by auto
  next
    assume "database_rollback E w db = (True, db3, w3)"
    then obtain t where "db_in_transaction db" ok0 "sqlite3_exec E w0 c ''ROLLBACK'' = (True, t, w3)"
      "db3 = db0\<lparr>db_in_transaction := False\<rparr>"
      using f assms(2) by (auto simp: database_rollback_def database_transaction_sql_def
          split: if_splits prod.splits bool.splits)
    then show "db_in_transaction db" "\<not> db_in_transaction db3" "saved S w3 = None" "content S w3 = s"
      using inn D(3) [of w0 "''ROLLBACK''" True t w3] by auto
  qed
qed

theorem database_transactions_witness:
  "\<exists>db' w'. database_rollback demo_env ([''a'', ''b''], Some [''a'']) (demo_db True [''c'']) = (True, db', w') \<and>
     content demo_store w' = [''a'']"
proof -
  obtain db' w' where r: "database_rollback demo_env ([''a'', ''b''], Some [''a'']) (demo_db True [''c'']) = (True, db', w')"
    by (simp add: database_rollback_def database_eval c_string_def strlen_def)
  show ?thesis
    using database_transactions [OF demo_sqlite_store, of "demo_db True [''c'']" "([''a'', ''b''], Some [''a''])" "[''a'']"
        db' w' db' w' db' w'] r
    by (simp add: demo_db_def demo_store_def c_string_def strlen_def)
qed

text \<open>C23: a queued write that fails blocks its transaction. Inside an explicit transaction a failing flush
  keeps the whole queue although the writes before the failing one have run (a later flush runs them
  again), and \<open>database_rollback\<close>, which flushes first, then fails without issuing \<open>ROLLBACK\<close>: the
  transaction stays open.\<close>

theorem database_failing_write_blocks:
  assumes "db_connection db = Some c" "db_in_transaction db"
    and "db_writes db = qs @ q # rest"
    and "database_run_writes E w c qs = (True, None, w1)"
    and "sqlite3_exec E w1 c (c_string q) = (False, message, w2)"
  shows "\<exists>db1 db2. database_flush E w db = (False, db1, w2) \<and> db_writes db1 = db_writes db \<and>
      db_in_transaction db1 \<and>
    database_rollback E w db = (False, db2, w2) \<and> db_writes db2 = db_writes db \<and> db_in_transaction db2"
proof -
  have "database_run_writes E w c (qs @ q # rest) = (False, message, w2)"
    using assms(4,5) by (induction qs arbitrary: w) (auto split: prod.splits bool.splits)
  then have "database_flush E w db = (False, database_set_sqlite_error E w2 c message db, w2)"
    using flush_fails_inside [OF assms(1,2)] assms(3) by simp
  then show ?thesis using assms(1,2)
    by (simp add: database_rollback_def database_transaction_sql_def database_set_sqlite_error_def
        database_set_error_def)
qed

theorem database_failing_write_blocks_witness:
  "\<exists>db1 db2. database_flush demo_env ([], Some []) (demo_db True [''a'', ''bad'']) = (False, db1, [''a''], Some []) \<and>
     db_writes db1 = db_writes (demo_db True [''a'', ''bad'']) \<and>
     database_rollback demo_env ([], Some []) (demo_db True [''a'', ''bad'']) = (False, db2, [''a''], Some [])"
proof -
  have "db_connection (demo_db True [''a'', ''bad'']) = Some 1" "db_in_transaction (demo_db True [''a'', ''bad''])"
    "db_writes (demo_db True [''a'', ''bad'']) = [''a'' @ [CHR 0x00]] @ (''bad'' @ [CHR 0x00]) # []"
    "database_run_writes demo_env ([], Some []) 1 [''a'' @ [CHR 0x00]] = (True, None, [''a''], Some [])"
    "sqlite3_exec demo_env ([''a''], Some []) 1 (c_string (''bad'' @ [CHR 0x00])) = (False, Some ''bad'', [''a''], Some [])"
    by (simp_all add: demo_db_def demo_env_def demo_exec_def c_string_def strlen_def)
  from database_failing_write_blocks [OF this] show ?thesis by blast
qed

end
