(* ===== verification/Config.thy ===== *)
theory Config
  imports StringParse
begin

text \<open>
  The configuration of \<open>src/src/config/config.c\<close>, read once from the environment variables. The static
  \<open>config\<close> is a record, \<open>getenv\<close> a function from names to values; a value is a C string, given by its
  characters without the NUL.
\<close>

datatype CeasyEnvironment = CEASY_ENV_DEVELOPMENT | CEASY_ENV_TEST | CEASY_ENV_PRODUCTION

record CeasyConfig =
  config_initialized :: bool
  config_valid :: bool
  config_environment :: CeasyEnvironment
  config_port :: nat
  config_ttl :: int
  config_database_path :: StringView
  config_cookie_name :: StringView
  config_error :: "char list"

definition config_zero :: CeasyConfig where
  "config_zero = \<lparr>config_initialized = False, config_valid = False,
     config_environment = CEASY_ENV_DEVELOPMENT, config_port = 0, config_ttl = 0,
     config_database_path = sv_zero, config_cookie_name = sv_zero, config_error = []\<rparr>"

type_synonym getenv_fn = "char list \<Rightarrow> char list option"

definition config_env :: "getenv_fn \<Rightarrow> char list \<Rightarrow> char list \<Rightarrow> char list" where
  "config_env getenv name fallback =
     (case getenv name of None \<Rightarrow> fallback | Some v \<Rightarrow> if v = [] then fallback else v)"

definition config_parse_environment :: "char list \<Rightarrow> CeasyEnvironment option" where
  "config_parse_environment v =
     (if v = ''development'' then Some CEASY_ENV_DEVELOPMENT
      else if v = ''test'' then Some CEASY_ENV_TEST
      else if v = ''production'' then Some CEASY_ENV_PRODUCTION
      else None)"

text \<open>\<open>snprintf\<close> into the 256 bytes of the error.\<close>

definition config_set_error :: "CeasyConfig \<Rightarrow> char list \<Rightarrow> CeasyConfig" where
  "config_set_error cfg message = cfg\<lparr>config_error := take 255 message\<rparr>"

text \<open>
  \<open>strtoll (value, &end, 10)\<close>: white space, a sign, digits; the value is clamped to the range of
  \<open>long long\<close>. The second component is the position of \<open>end\<close>, 0 when there are no digits.
\<close>

definition strtoll :: "char list \<Rightarrow> int \<times> nat" where
  "strtoll v =
     (let spaces = length (takeWhile stringv_ascii_space v);
          rest = drop spaces v;
          signed = (case rest of [] \<Rightarrow> False | c # _ \<Rightarrow> c = CHR ''-'' \<or> c = CHR ''+'');
          negative = (case rest of [] \<Rightarrow> False | c # _ \<Rightarrow> c = CHR ''-'');
          digits = takeWhile is_digit (drop (of_bool signed) rest);
          value = (if negative then - int (dec digits) else int (dec digits))
      in if digits = [] then (0, 0)
         else (min (int INT64_MAX) (max (- int INT64_MAX - 1) value),
               spaces + of_bool signed + length digits))"

definition config_parse_integer ::
    "CeasyConfig \<Rightarrow> char list \<Rightarrow> char list \<Rightarrow> int \<Rightarrow> int \<Rightarrow> int option \<times> CeasyConfig" where
  "config_parse_integer cfg name v minimum maximum =
     (if v = [] then (None, config_set_error cfg (name @ '' is empty''))
      else
        (let (parsed, end_at) = strtoll v
         in if end_at = 0 \<or> end_at < length v \<or> parsed < minimum \<or> parsed > maximum
            then (None, config_set_error cfg (''invalid '' @ name @ '': '' @ v))
            else (Some parsed, cfg)))"

definition ceasy_config_init :: "getenv_fn \<Rightarrow> bool \<times> CeasyConfig" where
  "ceasy_config_init getenv =
     (let environment = config_env getenv ''CEASY_ENV'' ''development'';
          port = config_env getenv ''CEASY_PORT'' ''3000'';
          database_path = config_env getenv ''CEASY_DATABASE_PATH'' ''db/development.sqlite3'';
          cookie = config_env getenv ''CEASY_SESSION_COOKIE'' ''_ceasy_session'';
          ttl = config_env getenv ''CEASY_SESSION_TTL_SECONDS'' ''604800'';
          cfg = config_zero\<lparr>config_initialized := True\<rparr>;
          failed = (\<lambda>c. (False, if config_error c = []
                                 then config_set_error c (''invalid CEASY_ENV: '' @ environment) else c))
      in case config_parse_environment environment of
           None \<Rightarrow> failed cfg
         | Some e \<Rightarrow>
             (let cfg1 = cfg\<lparr>config_environment := e\<rparr>
              in case config_parse_integer cfg1 ''CEASY_PORT'' port 1 65535 of
                   (None, cfg2) \<Rightarrow> failed cfg2
                 | (Some parsed, cfg2) \<Rightarrow>
                     (let cfg3 = cfg2\<lparr>config_port := nat (parsed mod 65536)\<rparr>
                      in case config_parse_integer cfg3 ''CEASY_SESSION_TTL_SECONDS'' ttl 1 (int INT64_MAX) of
                           (None, cfg4) \<Rightarrow> (False, cfg4)
                         | (Some seconds, cfg4) \<Rightarrow>
                             (let cfg5 = cfg4\<lparr>config_ttl := seconds\<rparr>
                              in if cookie = [] \<or> length cookie > 128 \<or> CHR ''='' \<in> set cookie \<or>
                                    CHR '';'' \<in> set cookie
                                 then (False, config_set_error cfg5 ''invalid CEASY_SESSION_COOKIE'')
                                 else (True, cfg5\<lparr>config_database_path := stringv_from_cstr (Some database_path),
                                               config_cookie_name := stringv_from_cstr (Some cookie),
                                               config_valid := True\<rparr>)))))"

definition ceasy_config_error :: "CeasyConfig \<Rightarrow> char list" where
  "ceasy_config_error cfg = (if config_error cfg = [] then ''invalid configuration'' else config_error cfg)"

definition config_ready :: "CeasyConfig \<Rightarrow> bool" where
  "config_ready cfg \<longleftrightarrow> config_initialized cfg \<and> config_valid cfg"

definition ceasy_environment :: "CeasyConfig \<Rightarrow> CeasyEnvironment" where
  "ceasy_environment cfg = (if config_ready cfg then config_environment cfg else CEASY_ENV_DEVELOPMENT)"

definition ceasy_is_development :: "CeasyConfig \<Rightarrow> bool" where
  "ceasy_is_development cfg \<longleftrightarrow> ceasy_environment cfg = CEASY_ENV_DEVELOPMENT"

definition ceasy_is_test :: "CeasyConfig \<Rightarrow> bool" where
  "ceasy_is_test cfg \<longleftrightarrow> ceasy_environment cfg = CEASY_ENV_TEST"

definition ceasy_is_production :: "CeasyConfig \<Rightarrow> bool" where
  "ceasy_is_production cfg \<longleftrightarrow> ceasy_environment cfg = CEASY_ENV_PRODUCTION"

definition ceasy_database_path :: "CeasyConfig \<Rightarrow> StringView" where
  "ceasy_database_path cfg = (if config_ready cfg then config_database_path cfg else sv ''db/development.sqlite3'')"

definition ceasy_port :: "CeasyConfig \<Rightarrow> nat" where
  "ceasy_port cfg = (if config_ready cfg then config_port cfg else 3000)"

definition ceasy_session_cookie_name :: "CeasyConfig \<Rightarrow> StringView" where
  "ceasy_session_cookie_name cfg = (if config_ready cfg then config_cookie_name cfg else sv ''_ceasy_session'')"

definition ceasy_session_ttl_seconds :: "CeasyConfig \<Rightarrow> int" where
  "ceasy_session_ttl_seconds cfg = (if config_ready cfg then config_ttl cfg else 604800)"

section \<open>The getters after a successful start\<close>

text \<open>The numerals \<open>strtoll\<close> reads to the end, and their values.\<close>

definition long_numeral :: "char list \<Rightarrow> int option" where
  "long_numeral v =
     (let t = dropWhile stringv_ascii_space v;
          ds = (case t of [] \<Rightarrow> [] | c # r \<Rightarrow> if c = CHR ''-'' \<or> c = CHR ''+'' then r else t)
      in if ds = [] \<or> \<not> list_all is_digit ds then None
         else Some (if hd t = CHR ''-'' then - int (dec ds) else int (dec ds)))"

lemma takeWhile_all_length: "length (takeWhile P xs) = length xs \<longleftrightarrow> (\<forall>x\<in>set xs. P x)"
  by (induction xs) auto

lemma strtoll_whole:
  "snd (strtoll v) = length v \<and> v \<noteq> [] \<longleftrightarrow> long_numeral v \<noteq> None"
  "long_numeral v = Some n \<Longrightarrow> fst (strtoll v) = min (int INT64_MAX) (max (- int INT64_MAX - 1) n)"
  "snd (strtoll v) \<le> length v"
proof -
  define a where "a = length (takeWhile stringv_ascii_space v)"
  define t where "t = dropWhile stringv_ascii_space v"
  have dropped: "drop a v = t" by (simp add: a_def t_def dropWhile_eq_drop)
  have len: "length v = a + length t"
    unfolding a_def t_def by (metis length_append takeWhile_dropWhile_id)
  define sg where "sg \<longleftrightarrow> (case t of [] \<Rightarrow> False | c # r \<Rightarrow> c = CHR ''-'' \<or> c = CHR ''+'')"
  define ds where "ds = drop (of_bool sg) t"
  have ds: "(case t of [] \<Rightarrow> [] | c # r \<Rightarrow> if c = CHR ''-'' \<or> c = CHR ''+'' then r else t) = ds"
    by (auto simp: ds_def sg_def split: list.splits)
  have neg: "(case t of [] \<Rightarrow> False | c # _ \<Rightarrow> c = CHR ''-'') \<longleftrightarrow> hd t = CHR ''-''" if "ds \<noteq> []"
    using that by (auto simp: ds_def split: list.splits)
  have len_t: "length t = of_bool sg + length ds"
    unfolding ds_def sg_def by (auto split: list.splits)
  define tw where "tw = takeWhile is_digit ds"
  have str: "strtoll v = (if tw = [] then (0, 0)
      else (min (int INT64_MAX) (max (- int INT64_MAX - 1)
              (if (case t of [] \<Rightarrow> False | c # _ \<Rightarrow> c = CHR ''-'') then - int (dec tw) else int (dec tw))),
            a + of_bool sg + length tw))"
    unfolding strtoll_def Let_def a_def [symmetric] dropped sg_def [symmetric] ds_def [symmetric] tw_def [symmetric] ..
  have num: "long_numeral v = (if ds = [] \<or> \<not> list_all is_digit ds then None
      else Some (if hd t = CHR ''-'' then - int (dec ds) else int (dec ds)))"
    unfolding long_numeral_def Let_def t_def [symmetric] ds ..
  have le: "length tw \<le> length ds" unfolding tw_def by (rule length_takeWhile_le)
  have all: "length tw = length ds \<longleftrightarrow> list_all is_digit ds"
    unfolding tw_def takeWhile_all_length list_all_iff ..
  have whole: "list_all is_digit ds \<Longrightarrow> tw = ds" unfolding tw_def list_all_iff by (simp add: takeWhile_eq_all_conv)
  show "snd (strtoll v) = length v \<and> v \<noteq> [] \<longleftrightarrow> long_numeral v \<noteq> None"
  proof (cases "tw = []")
    case True
    then have "long_numeral v = None" using num whole by auto
    then show ?thesis using True str by auto
  next
    case False
    then have "ds \<noteq> []" by (auto simp: tw_def)
    moreover have "v \<noteq> []" using \<open>ds \<noteq> []\<close> len len_t by auto
    ultimately show ?thesis using False str num all len len_t by auto
  qed
  show "fst (strtoll v) = min (int INT64_MAX) (max (- int INT64_MAX - 1) n)" if "long_numeral v = Some n"
  proof -
    have d: "ds \<noteq> []" "list_all is_digit ds" and n: "n = (if hd t = CHR ''-'' then - int (dec ds) else int (dec ds))"
      using that num by (auto split: if_splits)
    show ?thesis using str whole [OF d(2)] d(1) neg [OF d(1)] n by simp
  qed
  show "snd (strtoll v) \<le> length v" using str le len len_t by auto
qed

lemma parse_integer_spec:
  assumes "- int INT64_MAX - 1 \<le> lo" "hi \<le> int INT64_MAX"
  shows "fst (config_parse_integer cfg name v lo hi) =
    (case long_numeral v of None \<Rightarrow> None
     | Some n \<Rightarrow> (let k = min (int INT64_MAX) (max (- int INT64_MAX - 1) n)
                  in if lo \<le> k \<and> k \<le> hi then Some k else None))"
proof -
  obtain p e where s: "strtoll v = (p, e)" by fastforce
  note W = strtoll_whole [of v, unfolded s fst_conv snd_conv]
  have e0: "e = 0 \<or> e < length v \<longleftrightarrow> long_numeral v = None" if "v \<noteq> []"
    using W(1,3) that by auto
  show "fst (config_parse_integer cfg name v lo hi) =
    (case long_numeral v of None \<Rightarrow> None
     | Some n \<Rightarrow> (let k = min (int INT64_MAX) (max (- int INT64_MAX - 1) n)
                  in if lo \<le> k \<and> k \<le> hi then Some k else None))"
  proof (cases "long_numeral v")
    case None
    then show ?thesis using e0 by (auto simp: config_parse_integer_def s)
  next
    case (Some n)
    then have "v \<noteq> []" using W(1) by auto
    then show ?thesis using Some e0 W(2) [OF Some] by (auto simp: config_parse_integer_def s Let_def)
  qed
qed

lemma parse_integer_keeps: "config_parse_integer cfg name v lo hi = (Some k, cfg') \<Longrightarrow> cfg' = cfg"
  by (auto simp: config_parse_integer_def split: if_splits prod.splits)

lemma stored_value: "CHR 0x00 \<notin> set v \<Longrightarrow> stringv_from_cstr (Some v) = View v"
  proof -
  assume "CHR 0x00 \<notin> set v"
  then have "length (takeWhile (\<lambda>c. c \<noteq> CHR 0x00) v) = length v" by (auto simp: takeWhile_all_length)
  then show ?thesis by (simp add: stringv_from_cstr_def strlen_def)
qed

text \<open>What a valid environment is, and the values it gives.\<close>

definition env_port :: "getenv_fn \<Rightarrow> int option" where
  "env_port getenv = long_numeral (config_env getenv ''CEASY_PORT'' ''3000'')"

definition env_ttl :: "getenv_fn \<Rightarrow> int option" where
  "env_ttl getenv = long_numeral (config_env getenv ''CEASY_SESSION_TTL_SECONDS'' ''604800'')"

definition env_cookie :: "getenv_fn \<Rightarrow> char list" where
  "env_cookie getenv = config_env getenv ''CEASY_SESSION_COOKIE'' ''_ceasy_session''"

definition env_name :: "getenv_fn \<Rightarrow> char list" where
  "env_name getenv = config_env getenv ''CEASY_ENV'' ''development''"

definition env_valid :: "getenv_fn \<Rightarrow> bool" where
  "env_valid getenv \<longleftrightarrow> env_name getenv \<in> {''development'', ''test'', ''production''} \<and>
     (case env_port getenv of None \<Rightarrow> False | Some n \<Rightarrow> 1 \<le> n \<and> n \<le> 65535) \<and>
     (case env_ttl getenv of None \<Rightarrow> False | Some n \<Rightarrow> 1 \<le> n) \<and>
     length (env_cookie getenv) \<le> 128 \<and> CHR ''='' \<notin> set (env_cookie getenv) \<and>
     CHR '';'' \<notin> set (env_cookie getenv)"

lemma config_env_not_Nil: "fallback \<noteq> [] \<Longrightarrow> config_env getenv name fallback \<noteq> []"
  by (auto simp: config_env_def split: option.splits)

lemma config_env_NUL:
  "(\<And>n v. getenv n = Some v \<Longrightarrow> CHR 0x00 \<notin> set v) \<Longrightarrow> CHR 0x00 \<notin> set fallback \<Longrightarrow>
   CHR 0x00 \<notin> set (config_env getenv name fallback)"
  by (auto simp: config_env_def split: option.splits)

lemma parse_environment_iff:
  "(config_parse_environment v \<noteq> None) = (v \<in> {''development'', ''test'', ''production''})"
  "config_parse_environment v = Some e \<Longrightarrow> (e = CEASY_ENV_PRODUCTION) = (v = ''production'')"
  by (auto simp: config_parse_environment_def split: if_splits)

lemma parse_port:
  "fst (config_parse_integer cfg ''CEASY_PORT'' (config_env getenv ''CEASY_PORT'' ''3000'') 1 65535) =
   (case env_port getenv of None \<Rightarrow> None | Some n \<Rightarrow> if 1 \<le> n \<and> n \<le> 65535 then Some n else None)"
  by (subst parse_integer_spec)
     (auto simp: INT64_MAX_def env_port_def Let_def min_def max_def split: option.splits)

lemma parse_ttl:
  "fst (config_parse_integer cfg ''CEASY_SESSION_TTL_SECONDS''
      (config_env getenv ''CEASY_SESSION_TTL_SECONDS'' ''604800'') 1 (int INT64_MAX)) =
   (case env_ttl getenv of None \<Rightarrow> None | Some n \<Rightarrow> if 1 \<le> n then Some (min (int INT64_MAX) n) else None)"
  by (subst parse_integer_spec)
     (auto simp: INT64_MAX_def env_ttl_def Let_def min_def max_def split: option.splits)

lemma init_cases:
  assumes "ceasy_config_init getenv = (ok, cfg)"
  obtains (bad) "\<not> ok" "\<not> env_valid getenv"
    | (good) n k e where "ok" "env_valid getenv" "env_port getenv = Some n" "env_ttl getenv = Some k"
      "config_parse_environment (env_name getenv) = Some e"
      "cfg = config_zero\<lparr>config_initialized := True, config_valid := True, config_environment := e,
         config_port := nat (n mod 65536), config_ttl := min (int INT64_MAX) k,
         config_database_path := stringv_from_cstr (Some (config_env getenv ''CEASY_DATABASE_PATH'' ''db/development.sqlite3'')),
         config_cookie_name := stringv_from_cstr (Some (env_cookie getenv))\<rparr>"
proof (cases "config_parse_environment (env_name getenv)")
  case None
  then have "env_name getenv \<notin> {''development'', ''test'', ''production''}"
    using parse_environment_iff(1) by metis
  then have "\<not> env_valid getenv" unfolding env_valid_def by blast
  then show thesis using assms None bad by (auto simp: ceasy_config_init_def Let_def env_name_def)
next
  case (Some e)
  define cfg1 where "cfg1 = config_zero\<lparr>config_initialized := True, config_environment := e\<rparr>"
  obtain p cfg2 where port: "config_parse_integer cfg1 ''CEASY_PORT'' (config_env getenv ''CEASY_PORT'' ''3000'') 1 65535 = (p, cfg2)"
    by fastforce
  note P = parse_port [of cfg1 getenv, unfolded port fst_conv]
  note init = assms [unfolded ceasy_config_init_def Let_def, folded env_name_def, unfolded Some option.case,
      folded cfg1_def, unfolded port prod.case]
  show thesis
  proof (cases p)
    case None
    then have "\<not> env_valid getenv" using P by (auto simp: env_valid_def split: option.splits if_splits)
    then show thesis using init None bad by auto
  next
    case (Some n)
    then have n: "env_port getenv = Some n" "1 \<le> n" "n \<le> 65535" using P by (auto split: option.splits if_splits)
    have cfg2: "cfg2 = cfg1" using parse_integer_keeps port Some by blast
    define cfg3 where "cfg3 = cfg1\<lparr>config_port := nat (n mod 65536)\<rparr>"
    obtain t cfg4 where ttl: "config_parse_integer cfg3 ''CEASY_SESSION_TTL_SECONDS''
        (config_env getenv ''CEASY_SESSION_TTL_SECONDS'' ''604800'') 1 (int INT64_MAX) = (t, cfg4)" by fastforce
    note T = parse_ttl [of cfg3 getenv, unfolded ttl fst_conv]
    note init = init [unfolded Some option.case cfg2, folded cfg3_def, unfolded ttl prod.case]
    show thesis
    proof (cases t)
      case None
      then have "\<not> env_valid getenv" using T by (auto simp: env_valid_def split: option.splits if_splits)
      then show thesis using init None bad by auto
    next
      case (Some k')
      then obtain k where k: "env_ttl getenv = Some k" "1 \<le> k" "k' = min (int INT64_MAX) k"
        using T by (auto split: option.splits if_splits)
      have cfg4: "cfg4 = cfg3" using parse_integer_keeps ttl Some by blast
      note init = init [unfolded Some option.case cfg4, folded env_cookie_def]
      have ne: "env_cookie getenv \<noteq> []" by (simp add: env_cookie_def config_env_not_Nil)
      have env: "env_name getenv \<in> {''development'', ''test'', ''production''}"
        using parse_environment_iff(1) \<open>config_parse_environment (env_name getenv) = Some e\<close> by blast
      show thesis
      proof (cases "length (env_cookie getenv) > 128 \<or> CHR ''='' \<in> set (env_cookie getenv) \<or> CHR '';'' \<in> set (env_cookie getenv)")
        case True
        then have "\<not> env_valid getenv" by (auto simp: env_valid_def)
        then show thesis using init True bad by auto
      next
        case False
        then have v: "env_valid getenv" using env n k by (auto simp: env_valid_def)
        have "ok" "cfg = config_zero\<lparr>config_initialized := True, config_valid := True, config_environment := e,
         config_port := nat (n mod 65536), config_ttl := min (int INT64_MAX) k,
         config_database_path := stringv_from_cstr (Some (config_env getenv ''CEASY_DATABASE_PATH'' ''db/development.sqlite3'')),
         config_cookie_name := stringv_from_cstr (Some (env_cookie getenv))\<rparr>"
          using init False ne by (auto simp: cfg3_def cfg1_def k(3))
        then show thesis using good [OF _ v n(1) k(1) \<open>config_parse_environment (env_name getenv) = Some e\<close>] by blast
      qed
    qed
  qed
qed

text \<open>C24: starting with an environment. \<open>ceasy_config_init\<close> succeeds exactly when \<open>CEASY_ENV\<close> is one of
  the three names, the port is a numeral from 1 to 65535, the session lifetime a positive numeral,
  and the cookie name has at most 128 characters, none of them \<open>=\<close> or \<open>;\<close>. The getters then return these
  values; a lifetime beyond \<open>int64_t\<close> is accepted and becomes its maximum.\<close>

theorem ceasy_config_init_spec:
  assumes "ceasy_config_init getenv = (ok, cfg)"
    and "\<And>name v. getenv name = Some v \<Longrightarrow> CHR 0x00 \<notin> set v"
  shows "(ok \<longleftrightarrow> env_valid getenv) \<and>
    (ok \<longrightarrow> Some (int (ceasy_port cfg)) = env_port getenv \<and>
      Some (ceasy_session_ttl_seconds cfg) = map_option (min (int INT64_MAX)) (env_ttl getenv) \<and>
      ceasy_session_cookie_name cfg = View (env_cookie getenv) \<and>
      ceasy_database_path cfg = View (config_env getenv ''CEASY_DATABASE_PATH'' ''db/development.sqlite3'') \<and>
      (ceasy_is_production cfg \<longleftrightarrow> env_name getenv = ''production''))"
  using assms(1)
proof (cases rule: init_cases)
  case bad
  then show ?thesis by simp
next
  case (good n k e)
  have NUL: "CHR 0x00 \<notin> set (config_env getenv name fallback)" if "CHR 0x00 \<notin> set fallback" for name fallback
    using config_env_NUL assms(2) that by blast
  have n: "1 \<le> n" "n \<le> 65535" using good(2,3) by (auto simp: env_valid_def)
  have ready: "config_ready cfg" by (simp add: good(6) config_ready_def)
  show ?thesis using good(1,2,3,4) ready n parse_environment_iff(2) [OF good(5)] NUL
    by (auto simp: ceasy_port_def ceasy_session_ttl_seconds_def ceasy_session_cookie_name_def good(6)
        ceasy_database_path_def ceasy_is_production_def ceasy_environment_def stored_value env_cookie_def)
qed

definition demo_getenv :: getenv_fn where
  "demo_getenv name = (if name = ''CEASY_PORT'' then Some '' 8080''
     else if name = ''CEASY_SESSION_TTL_SECONDS'' then Some ''99999999999999999999'' else None)"

theorem ceasy_config_init_spec_witness:
  "\<exists>cfg. ceasy_config_init demo_getenv = (True, cfg) \<and> ceasy_port cfg = 8080 \<and>
     ceasy_session_ttl_seconds cfg = int INT64_MAX"
proof -
  have env: "env_port demo_getenv = Some 8080" "env_ttl demo_getenv = Some 99999999999999999999"
      "env_valid demo_getenv"
    by (simp_all add: env_valid_def env_port_def env_ttl_def env_name_def env_cookie_def config_env_def
        demo_getenv_def long_numeral_def is_digit_def digit_value_def byte_def stringv_ascii_space_def)
  obtain ok cfg where init: "ceasy_config_init demo_getenv = (ok, cfg)" by (metis surj_pair)
  have NUL: "CHR 0x00 \<notin> set v" if "demo_getenv name = Some v" for name v
    using that by (auto simp: demo_getenv_def split: if_splits)
  show ?thesis using ceasy_config_init_spec [OF init NUL] env init by (auto simp: INT64_MAX_def)
qed

end
