(* ===== verification/Context.thy ===== *)
theory Context
  imports Request StringMap StringPieces Database Config
begin

text \<open>
  The request context of \<open>src/src/http/context.c\<close> with its form and query parameters, request cookies
  and response headers (\<open>src/src/http/cookie.c\<close>), and the HTML escaping of \<open>src/src/rendering/html.c\<close>.

  The fixed arrays with their counts are lists. The context's arena and database are options, \<open>None\<close>
  being \<open>NULL\<close>. Bytes the code writes into an arena block are the bytes of the view it makes of it. The
  structs \<open>FormParam\<close>, \<open>QueryParam\<close>, \<open>RouteParam\<close>, \<open>CookieParam\<close> and \<open>ResponseHeader\<close> are the same pair of views.
\<close>

record NameValue =
  nv_name :: StringView
  nv_value :: StringView

type_synonym FormParam = NameValue
type_synonym QueryParam = NameValue
type_synonym RouteParam = NameValue
type_synonym CookieParam = NameValue
type_synonym ResponseHeader = NameValue

record Session =
  session_values :: "Arena StringMap"
  session_token :: "Arena String"
  session_loaded :: bool
  session_exists :: bool
  session_dirty :: bool
  session_regenerate_flag :: bool
  session_destroy_flag :: bool
  session_expires_at :: int

record Context =
  client_fd :: int
  ctx_request :: Request
  ctx_database :: "Database option"
  ctx_arena :: "Arena option"
  response_sent :: bool
  view_data :: "Arena StringMap"
  view_error :: StringView
  form_params :: "FormParam list"
  forms_parsed :: bool
  form_parse_ok :: bool
  query_params :: "QueryParam list"
  query_parsed :: bool
  query_parse_ok :: bool
  ctx_cookies :: "CookieParam list"
  cookies_parsed :: bool
  cookie_parse_ok :: bool
  response_headers :: "ResponseHeader list"
  ctx_session :: Session
  request_id :: StringView
  route_params :: "RouteParam list"

definition session_zero :: Session where
  "session_zero = \<lparr>session_values = map_zero, session_token = string_zero, session_loaded = False,
     session_exists = False, session_dirty = False, session_regenerate_flag = False,
     session_destroy_flag = False, session_expires_at = 0\<rparr>"

definition context_zero :: Context where
  "context_zero = \<lparr>client_fd = 0, ctx_request = request_zero, ctx_database = None, ctx_arena = None,
     response_sent = False, view_data = map_zero, view_error = sv_zero,
     form_params = [], forms_parsed = False, form_parse_ok = False,
     query_params = [], query_parsed = False, query_parse_ok = False,
     ctx_cookies = [], cookies_parsed = False, cookie_parse_ok = False,
     response_headers = [], ctx_session = session_zero, request_id = sv_zero, route_params = []\<rparr>"

definition CEASY_MAX_FORM_PARAMS :: nat where "CEASY_MAX_FORM_PARAMS = 64"
definition CEASY_MAX_ROUTE_PARAMS :: nat where "CEASY_MAX_ROUTE_PARAMS = 16"
definition CEASY_MAX_QUERY_PARAMS :: nat where "CEASY_MAX_QUERY_PARAMS = 64"
definition CEASY_MAX_RESPONSE_HEADERS :: nat where "CEASY_MAX_RESPONSE_HEADERS = 32"
definition CEASY_MAX_REQUEST_COOKIES :: nat where "CEASY_MAX_REQUEST_COOKIES = 64"

text \<open>The value of the first entry with an equal name, or the empty view.\<close>

definition lookup_view :: "NameValue list \<Rightarrow> StringView \<Rightarrow> StringView" where
  "lookup_view params name =
     (case List.find (\<lambda>p. stringv_equal (nv_name p) name) params of
        None \<Rightarrow> sv_zero | Some p \<Rightarrow> nv_value p)"

section \<open>Form and query parameters\<close>

definition context_hex_digit :: "char \<Rightarrow> nat option" where
  "context_hex_digit c =
     (if byte c \<ge> byte (CHR ''0'') \<and> byte c \<le> byte (CHR ''9'') then Some (byte c - byte (CHR ''0''))
      else if byte c \<ge> byte (CHR ''a'') \<and> byte c \<le> byte (CHR ''f'') then Some (byte c - byte (CHR ''a'') + 10)
      else if byte c \<ge> byte (CHR ''A'') \<and> byte c \<le> byte (CHR ''F'') then Some (byte c - byte (CHR ''A'') + 10)
      else None)"

definition form_content_type :: string where
  "form_content_type = ''application/x-www-form-urlencoded''"

definition context_is_form_content_type :: "StringView \<Rightarrow> bool" where
  "context_is_form_content_type v \<longleftrightarrow>
     sv_length v \<ge> length form_content_type \<and>
     stringv_equal_ignore_case (stringv_slice v 0 (length form_content_type)) (sv form_content_type)"

text \<open>The decoding loop over the source bytes; \<open>None\<close> is the early \<open>return false\<close>.\<close>

fun context_form_decode_bytes :: "char list \<Rightarrow> char list option" where
  "context_form_decode_bytes [] = Some []"
| "context_form_decode_bytes (c # rest) =
     (if c = CHR ''+'' then map_option (Cons (CHR '' '')) (context_form_decode_bytes rest)
      else if c = CHR ''%'' then
        (case rest of
           h # l # rest' \<Rightarrow>
             (case (context_hex_digit h, context_hex_digit l) of
                (Some high, Some low) \<Rightarrow>
                  map_option (Cons (char_of (push_bit 4 high OR low))) (context_form_decode_bytes rest')
              | _ \<Rightarrow> None)
         | _ \<Rightarrow> None)
      else map_option (Cons c) (context_form_decode_bytes rest))"

definition context_form_decode :: "malloc_fn \<Rightarrow> Context \<Rightarrow> StringView \<Rightarrow> StringView option \<times> Context" where
  "context_form_decode m c source =
     (let needs_decode = list_ex (\<lambda>x. x = CHR ''+'' \<or> x = CHR ''%'') (sv_bytes source)
      in if \<not> needs_decode then (Some source, c)
         else case ctx_arena c of
           None \<Rightarrow> (None, c)
         | Some A \<Rightarrow>
             (case arena_alloc m A (sv_length source + 1) of
                (None, A1) \<Rightarrow> (None, c\<lparr>ctx_arena := Some A1\<rparr>)
              | (Some _, A1) \<Rightarrow>
                  (map_option View (context_form_decode_bytes (sv_bytes source)), c\<lparr>ctx_arena := Some A1\<rparr>)))"

text \<open>The loop that \<open>context_parse_form\<close> and \<open>context_parse_query\<close> both contain, over their own list and limit.\<close>

definition split_pair :: "StringView \<Rightarrow> StringView \<times> StringView" where
  "split_pair pair =
     (case stringv_split_once_char pair (CHR ''='') of None \<Rightarrow> (pair, sv_zero) | Some nv \<Rightarrow> nv)"

function context_params_loop ::
    "malloc_fn \<Rightarrow> nat \<Rightarrow> Context \<Rightarrow> NameValue list \<Rightarrow> StringView \<Rightarrow> bool \<times> NameValue list \<times> Context" where
  "context_params_loop m limit c params remaining =
     (if \<not> sv_length remaining > 0 then (True, params, c)
      else
        (let (pair, rest) = view_next_token remaining (CHR ''&''); (name, val) = split_pair pair
         in if length params \<ge> limit then (False, params, c)
            else case context_form_decode m c name of
              (None, c1) \<Rightarrow> (False, params, c1)
            | (Some decoded_name, c1) \<Rightarrow>
                (case context_form_decode m c1 val of
                   (None, c2) \<Rightarrow> (False, params, c2)
                 | (Some decoded_value, c2) \<Rightarrow>
                     context_params_loop m limit c2
                       (params @ [\<lparr>nv_name = decoded_name, nv_value = decoded_value\<rparr>]) rest)))"
  by auto
termination
  by (relation "measure (\<lambda>(_, _, _, _, remaining). sv_length remaining)")
     (auto dest: view_next_token_shrinks [of _ "CHR ''&''"] simp: prod_eq_iff)

declare context_params_loop.simps [simp del]

definition context_parse_form :: "malloc_fn \<Rightarrow> Context \<Rightarrow> bool \<times> Context" where
  "context_parse_form m c =
     (if forms_parsed c then (form_parse_ok c, c)
      else
        (let c1 = c\<lparr>forms_parsed := True, form_parse_ok := True\<rparr>
         in if \<not> context_is_form_content_type (req_content_type (ctx_request c1)) then (True, c1)
            else
              (let (ok, params, c2) =
                 context_params_loop m CEASY_MAX_FORM_PARAMS c1 (form_params c1) (req_body (ctx_request c1))
               in if ok then (True, c2\<lparr>form_params := params\<rparr>)
                  else (False, c2\<lparr>form_params := params, form_parse_ok := False\<rparr>))))"

definition context_parse_query :: "malloc_fn \<Rightarrow> Context \<Rightarrow> bool \<times> Context" where
  "context_parse_query m c =
     (if query_parsed c then (query_parse_ok c, c)
      else
        (let c1 = c\<lparr>query_parsed := True, query_parse_ok := True\<rparr>;
             (ok, params, c2) =
               context_params_loop m CEASY_MAX_QUERY_PARAMS c1 (query_params c1) (req_query_string (ctx_request c1))
         in if ok then (True, c2\<lparr>query_params := params\<rparr>)
            else (False, c2\<lparr>query_params := params, query_parse_ok := False\<rparr>)))"

definition context_query :: "malloc_fn \<Rightarrow> Context \<Rightarrow> StringView \<Rightarrow> StringView \<times> Context" where
  "context_query m c name =
     (case context_parse_query m c of
        (False, c1) \<Rightarrow> (sv_zero, c1)
      | (True, c1) \<Rightarrow> (lookup_view (query_params c1) name, c1))"

definition context_form :: "malloc_fn \<Rightarrow> Context \<Rightarrow> StringView \<Rightarrow> StringView \<times> Context" where
  "context_form m c name =
     (case context_parse_form m c of
        (False, c1) \<Rightarrow> (sv_zero, c1)
      | (True, c1) \<Rightarrow> (lookup_view (form_params c1) name, c1))"

definition context_param :: "Context \<Rightarrow> StringView \<Rightarrow> StringView" where
  "context_param c name = lookup_view (route_params c) name"

section \<open>Response headers\<close>

definition context_header_value_valid :: "StringView \<Rightarrow> bool" where
  "context_header_value_valid v \<longleftrightarrow>
     \<not> (\<not> sv_has_data v \<and> sv_length v > 0) \<and>
     \<not> stringv_contains v (sv [CHR 0x0D]) \<and> \<not> stringv_contains v (sv [CHR 0x0A])"

definition context_add_header :: "malloc_fn \<Rightarrow> Context \<Rightarrow> StringView \<Rightarrow> StringView \<Rightarrow> bool \<times> Context" where
  "context_add_header m c name val =
     (case ctx_arena c of
        None \<Rightarrow> (False, c)
      | Some A \<Rightarrow>
          if sv_length name = 0 \<or> \<not> sv_has_data name \<or> \<not> context_header_value_valid name \<or>
             \<not> context_header_value_valid val \<or> length (response_headers c) \<ge> CEASY_MAX_RESPONSE_HEADERS
          then (False, c)
          else
            (let (name_copy, A1) = string_from (arena_allocator m) A name;
                 (value_copy, A2) = string_from (arena_allocator m) A1 val;
                 c1 = c\<lparr>ctx_arena := Some A2\<rparr>
             in if string_data name_copy = None \<or> string_data value_copy = None then (False, c1)
                else (True, c1\<lparr>response_headers := response_headers c1 @
                        [\<lparr>nv_name = string_as_view name_copy, nv_value = string_as_view value_copy\<rparr>]\<rparr>)))"

definition context_set_header :: "malloc_fn \<Rightarrow> Context \<Rightarrow> StringView \<Rightarrow> StringView \<Rightarrow> bool \<times> Context" where
  "context_set_header m c name val =
     (case ctx_arena c of
        None \<Rightarrow> (False, c)
      | Some A \<Rightarrow>
          if sv_length name = 0 \<or> \<not> sv_has_data name \<or> \<not> context_header_value_valid name \<or>
             \<not> context_header_value_valid val
          then (False, c)
          else
            (case first_index (\<lambda>i. stringv_equal_ignore_case (nv_name (response_headers c ! i)) name)
                    (length (response_headers c)) of
               Some index \<Rightarrow>
                 (let (value_copy, A1) = string_from (arena_allocator m) A val;
                      c1 = c\<lparr>ctx_arena := Some A1\<rparr>
                  in if string_data value_copy = None then (False, c1)
                     else (True, c1\<lparr>response_headers := (response_headers c1)
                             [index := (response_headers c1 ! index)\<lparr>nv_value := string_as_view value_copy\<rparr>]\<rparr>))
             | None \<Rightarrow> context_add_header m c name val))"

section \<open>Cookies\<close>

datatype CookieSameSite = COOKIE_SAME_SITE_LAX | COOKIE_SAME_SITE_STRICT | COOKIE_SAME_SITE_NONE

record CookieOptions =
  cookie_path :: StringView
  cookie_domain :: StringView
  cookie_max_age :: int
  cookie_http_only :: bool
  cookie_secure :: bool
  cookie_same_site :: CookieSameSite

definition cookie_options_zero :: CookieOptions where
  "cookie_options_zero = \<lparr>cookie_path = sv_zero, cookie_domain = sv_zero, cookie_max_age = 0,
     cookie_http_only = False, cookie_secure = False, cookie_same_site = COOKIE_SAME_SITE_LAX\<rparr>"

text \<open>\<open>char\<close> is signed on the modelled target: bytes from 128 on are negative.\<close>

definition signed_char :: "char \<Rightarrow> int" where
  "signed_char c = (if byte c < 128 then int (byte c) else int (byte c) - 256)"

definition cookie_token_char :: "char \<Rightarrow> bool" where
  "cookie_token_char c \<longleftrightarrow> \<not> (signed_char c \<le> 0x20 \<or> c = CHR '';'' \<or> c = CHR ''='' \<or> c = CHR 0x0D \<or> c = CHR 0x0A)"

definition cookie_token :: "StringView \<Rightarrow> bool" where
  "cookie_token v \<longleftrightarrow> sv_length v \<noteq> 0 \<and> sv_has_data v \<and> list_all cookie_token_char (sv_bytes v)"

function cookie_parse_loop :: "CookieParam list \<Rightarrow> StringView \<Rightarrow> bool \<times> CookieParam list" where
  "cookie_parse_loop cookies remaining =
     (if \<not> sv_length remaining > 0 then (True, cookies)
      else
        (let (pair, rest) = view_next_token remaining (CHR '';''); pair' = stringv_trim pair
         in case stringv_split_once_char pair' (CHR ''='') of
              None \<Rightarrow> cookie_parse_loop cookies rest
            | Some (name, val) \<Rightarrow>
                if \<not> cookie_token (stringv_trim name) then cookie_parse_loop cookies rest
                else if length cookies \<ge> CEASY_MAX_REQUEST_COOKIES then (False, cookies)
                else cookie_parse_loop
                       (cookies @ [\<lparr>nv_name = stringv_trim name, nv_value = stringv_trim val\<rparr>]) rest))"
  by auto
termination
  by (relation "measure (\<lambda>(_, remaining). sv_length remaining)")
     (auto dest: view_next_token_shrinks [of _ "CHR '';''"] simp: prod_eq_iff)

declare cookie_parse_loop.simps [simp del]

definition cookie_parse :: "Context \<Rightarrow> bool \<times> Context" where
  "cookie_parse c =
     (if cookies_parsed c then (cookie_parse_ok c, c)
      else
        (let c1 = c\<lparr>cookies_parsed := True, cookie_parse_ok := True\<rparr>;
             (ok, cookies) = cookie_parse_loop (ctx_cookies c1) (request_header (ctx_request c1) (sv ''Cookie''))
         in if ok then (True, c1\<lparr>ctx_cookies := cookies\<rparr>)
            else (False, c1\<lparr>ctx_cookies := cookies, cookie_parse_ok := False\<rparr>)))"

definition context_cookie :: "Context \<Rightarrow> StringView \<Rightarrow> StringView \<times> Context" where
  "context_cookie c name =
     (case cookie_parse c of
        (False, c1) \<Rightarrow> (sv_zero, c1)
      | (True, c1) \<Rightarrow> (lookup_view (ctx_cookies c1) name, c1))"

text \<open>The calls that build the cookie's text, in order.\<close>

definition cookie_pieces :: "StringView \<Rightarrow> StringView \<Rightarrow> CookieOptions \<Rightarrow> Piece list" where
  "cookie_pieces name val options =
     [Append name, Append (View [CHR ''='']), Append val] @
     (if sv_length (cookie_path options) > 0
      then [Append (sv ''; Path=''), Append (cookie_path options)] else []) @
     (if sv_length (cookie_domain options) > 0
      then [Append (sv ''; Domain=''), Append (cookie_domain options)] else []) @
     (if cookie_max_age options \<ge> 0 then [Format (''; Max-Age='' @ show_int (cookie_max_age options))] else []) @
     (if cookie_http_only options then [Append (sv ''; HttpOnly'')] else []) @
     (if cookie_secure options then [Append (sv ''; Secure'')] else []) @
     [Append (case cookie_same_site options of
                COOKIE_SAME_SITE_STRICT \<Rightarrow> sv ''; SameSite=Strict''
              | COOKIE_SAME_SITE_NONE \<Rightarrow> sv ''; SameSite=None''
              | COOKIE_SAME_SITE_LAX \<Rightarrow> sv ''; SameSite=Lax'')]"

definition context_set_cookie ::
    "malloc_fn \<Rightarrow> Context \<Rightarrow> StringView \<Rightarrow> StringView \<Rightarrow> CookieOptions \<Rightarrow> bool \<times> Context" where
  "context_set_cookie m c name val options =
     (case ctx_arena c of
        None \<Rightarrow> (False, c)
      | Some A \<Rightarrow>
          if \<not> cookie_token name \<or> \<not> sv_has_data val \<or>
             stringv_contains val (sv [CHR 0x0D]) \<or> stringv_contains val (sv [CHR 0x0A]) \<or>
             stringv_contains (cookie_path options) (sv [CHR 0x0D]) \<or>
             stringv_contains (cookie_path options) (sv [CHR 0x0A]) \<or>
             stringv_contains (cookie_domain options) (sv [CHR 0x0D]) \<or>
             stringv_contains (cookie_domain options) (sv [CHR 0x0A])
          then (False, c)
          else
            (let (ok, cookie, A1) =
               string_emit (string_new (arena_allocator m)) A (cookie_pieces name val options);
                 c1 = c\<lparr>ctx_arena := Some A1\<rparr>
             in if \<not> ok then (False, c1)
                else context_add_header m c1 (sv ''Set-Cookie'') (string_as_view cookie)))"

definition context_delete_cookie ::
    "malloc_fn \<Rightarrow> Context \<Rightarrow> StringView \<Rightarrow> CookieOptions \<Rightarrow> bool \<times> Context" where
  "context_delete_cookie m c name options =
     context_set_cookie m c name (View []) (options\<lparr>cookie_max_age := 0\<rparr>)"

section \<open>HTML escaping\<close>

definition html_escaped :: "char \<Rightarrow> string option" where
  "html_escaped c =
     (if c = CHR ''&'' then Some ''&amp;''
      else if c = CHR ''<'' then Some ''&lt;''
      else if c = CHR ''>'' then Some ''&gt;''
      else if c = CHR 0x22 then Some ''&quot;''
      else if c = CHR 0x27 then Some ''&#39;''
      else None)"

definition html_escape_append :: "'h String \<Rightarrow> 'h \<Rightarrow> StringView \<Rightarrow> bool \<times> 'h String \<times> 'h" where
  "html_escape_append output h v =
     string_emit output h
       (map (\<lambda>c. case html_escaped c of None \<Rightarrow> Append (View [c]) | Some t \<Rightarrow> Append (sv t)) (sv_bytes v))"

end
