(* ===== verification/ContextLaws.thy ===== *)
theory ContextLaws
  imports Context RequestLaws
begin

text \<open>
  What the request context promises: parameters are the decoded pairs of the query string or the body,
  response headers never contain a line break, cookies are written and read back, escaped text has
  no markup left.
\<close>

section \<open>Separated lists\<close>

lemma tl_dropWhile_shrinks:
  assumes "s \<noteq> []" shows "length (dropWhile P s) - Suc 0 < length s"
proof -
  have "0 < length s" using assms by simp
  then show ?thesis using length_dropWhile_le [of P s] by linarith
qed

lemma While_absent [simp]:
  "c \<notin> set t \<Longrightarrow> takeWhile (\<lambda>x. x \<noteq> c) t = t" "c \<notin> set t \<Longrightarrow> dropWhile (\<lambda>x. x \<noteq> c) t = []"
  by (induction t) auto

function tokens :: "char \<Rightarrow> char list \<Rightarrow> char list list" where
  "tokens c s = (if s = [] then []
     else takeWhile (\<lambda>x. x \<noteq> c) s # tokens c (tl (dropWhile (\<lambda>x. x \<noteq> c) s)))"
  by auto

termination
  by (relation "measure (\<lambda>(_, s). length s)") (auto simp: tl_dropWhile_shrinks)

declare tokens.simps [simp del]

fun join :: "char \<Rightarrow> char list list \<Rightarrow> char list" where
  "join c [] = []"
| "join c [t] = t"
| "join c (t # ts) = t @ c # join c ts"

lemma tokens_Nil [simp]: "tokens c [] = []"
  by (simp add: tokens.simps)

lemma tokens_single: "c \<notin> set t \<Longrightarrow> t \<noteq> [] \<Longrightarrow> tokens c t = [t]"
  by (subst tokens.simps) simp

lemma tokens_first: "c \<notin> set t \<Longrightarrow> tokens c (t @ c # r) = t # tokens c r"
  by (subst tokens.simps) simp

lemma tokens_join: "\<forall>t\<in>set ts. c \<notin> set t \<and> t \<noteq> [] \<Longrightarrow> tokens c (join c ts) = ts"
  by (induction c ts rule: join.induct) (auto simp: tokens_single tokens_first)

text \<open>The empty view and the view of no bytes are the same to a loop over tokens.\<close>

definition views :: "StringView \<Rightarrow> char list \<Rightarrow> bool" where
  "views v s \<longleftrightarrow> v = View s \<or> (v = sv_zero \<and> s = [])"

lemma views_simps [simp]: "views (View s) t \<longleftrightarrow> s = t" "views sv_zero t \<longleftrightarrow> t = []"
  by (auto simp: views_def sv_zero_def)

lemma viewsD: "views v s \<Longrightarrow> sv_length v = length s \<and> sv_bytes v = s \<and> stringv_valid v"
  by (auto simp: views_def view_simps)

lemma views_equal: "views v s \<Longrightarrow> views u t \<Longrightarrow> stringv_equal v u \<longleftrightarrow> s = t"
  by (auto simp: views_def view_simps sv_zero_def)

lemma next_token_views:
  assumes "views v s" "s \<noteq> []"
  shows "\<exists>token rest. view_next_token v c = (token, rest) \<and> token = View (takeWhile (\<lambda>x. x \<noteq> c) s) \<and>
    views rest (tl (dropWhile (\<lambda>x. x \<noteq> c) s))"
proof -
  have v: "v = View s" using assms by (auto simp: views_def)
  show ?thesis
  proof (cases "c \<in> set s")
    case True
    then show ?thesis by (simp add: v view_next_token_def view_simps)
  next
    case False
    then show ?thesis by (simp add: v view_next_token_def view_simps)
  qed
qed

section \<open>Decoding\<close>

lemma hex_digit_less: "context_hex_digit c = Some d \<Longrightarrow> d < 16"
  by (auto simp: context_hex_digit_def byte_def split: if_splits)

lemma decode_plain: "\<not> list_ex (\<lambda>x. x = CHR ''+'' \<or> x = CHR ''%'') s \<Longrightarrow> context_form_decode_bytes s = Some s"
  by (induction s) auto

lemma decode_length: "context_form_decode_bytes s = Some d \<Longrightarrow> length d \<le> length s"
proof (induction s arbitrary: d rule: context_form_decode_bytes.induct)
  case (2 c rest)
  show ?case using 2 by (fastforce split: if_splits list.splits option.splits)
qed simp

text \<open>Percent-encoding of every byte that is not a letter, a digit, \<open>-\<close>, \<open>.\<close> or \<open>_\<close>; a space is \<open>+\<close>.\<close>

definition hex_upper :: "nat \<Rightarrow> char" where
  "hex_upper d = (if d < 10 then char_of (48 + d) else char_of (55 + d))"

definition url_plain :: "char \<Rightarrow> bool" where
  "url_plain c \<longleftrightarrow> (48 \<le> byte c \<and> byte c \<le> 57) \<or> (65 \<le> byte c \<and> byte c \<le> 90) \<or>
     (97 \<le> byte c \<and> byte c \<le> 122) \<or> c = CHR ''-'' \<or> c = CHR ''.'' \<or> c = CHR ''_''"

definition url_encode :: "char list \<Rightarrow> char list" where
  "url_encode s = concat (map (\<lambda>c. if url_plain c then [c] else if c = CHR '' '' then ''+''
     else [CHR ''%'', hex_upper (byte c div 16), hex_upper (byte c mod 16)]) s)"

lemma byte_char_of: "n < 256 \<Longrightarrow> byte (char_of n) = n"
  by (simp add: byte_def)

lemma char_code_values: "byte (CHR ''0'') = 48" "byte (CHR ''9'') = 57" "byte (CHR ''a'') = 97"
    "byte (CHR ''f'') = 102" "byte (CHR ''A'') = 65" "byte (CHR ''F'') = 70"
  by (simp_all add: byte_def)

lemma hex_upper_digit: "d < 16 \<Longrightarrow> context_hex_digit (hex_upper d) = Some d"
  by (auto simp: context_hex_digit_def hex_upper_def byte_char_of char_code_values)

lemma nibbles: "n < 256 \<Longrightarrow> push_bit 4 (n div 16) OR (n mod 16) = (n::nat)"
proof -
  have "push_bit 4 (drop_bit 4 n) OR take_bit 4 n = n"
    by (metis bits_ident or.commute disjunctive_add bit_push_bit_iff bit_take_bit_iff leD)
  then show ?thesis by (simp add: drop_bit_eq_div take_bit_eq_mod)
qed

lemma decode_encode_append:
  "context_form_decode_bytes (url_encode s @ r) = map_option (\<lambda>d. s @ d) (context_form_decode_bytes r)"
proof (induction s)
  case (Cons c s)
  have rest: "context_form_decode_bytes (url_encode s @ r) = map_option (\<lambda>d. s @ d) (context_form_decode_bytes r)"
    by (rule Cons.IH)
  have n: "byte c < 256" by (rule byte_less)
  have again: "char_of (push_bit 4 (byte c div 16) OR byte c mod 16) = c"
    unfolding nibbles [OF n] unfolding byte_def by (rule char_of_char)
  have digits: "context_hex_digit (hex_upper (byte c div 16)) = Some (byte c div 16)"
      "context_hex_digit (hex_upper (byte c mod 16)) = Some (byte c mod 16)"
    using n by (simp_all add: hex_upper_digit)
  consider "url_plain c" | "\<not> url_plain c" "c = CHR '' ''" | "\<not> url_plain c" "c \<noteq> CHR '' ''" by blast
  then show ?case
  proof cases
    case 1
    then have "c \<noteq> CHR ''+''" "c \<noteq> CHR ''%''" by (auto simp: url_plain_def byte_def)
    then show ?thesis using 1 rest by (simp add: url_encode_def option.map_comp comp_def)
  next
    case 2
    then show ?thesis using rest by (simp add: url_encode_def option.map_comp comp_def)
  next
    case 3
    have "url_encode (c # s) @ r =
        CHR ''%'' # hex_upper (byte c div 16) # hex_upper (byte c mod 16) # (url_encode s @ r)"
      using 3 by (simp add: url_encode_def)
    then show ?thesis using rest digits again by (simp add: option.map_comp comp_def)
  qed
qed (simp add: url_encode_def option.map_ident)

lemma decode_encode: "context_form_decode_bytes (url_encode s) = Some s"
  using decode_encode_append [of s "[]"] by simp

lemma hex_upper_safe: "d < 16 \<Longrightarrow> hex_upper d \<noteq> CHR ''&'' \<and> hex_upper d \<noteq> CHR ''=''"
proof -
  assume "d < 16"
  then have "48 \<le> byte (hex_upper d) \<and> (byte (hex_upper d) < 58 \<or> 65 \<le> byte (hex_upper d))"
    by (auto simp: hex_upper_def byte_char_of)
  then show ?thesis by (auto simp: byte_def)
qed

lemma url_encode_safe: "CHR ''&'' \<notin> set (url_encode s)" "CHR ''='' \<notin> set (url_encode s)"
proof -
  have "hex_upper (byte c div 16) \<notin> {CHR ''&'', CHR ''=''}" "hex_upper (byte c mod 16) \<notin> {CHR ''&'', CHR ''=''}" for c
    using hex_upper_safe [of "byte c div 16"] hex_upper_safe [of "byte c mod 16"] byte_less [of c] by auto
  moreover have "url_plain c \<Longrightarrow> c \<noteq> CHR ''&'' \<and> c \<noteq> CHR ''=''" for c
    by (auto simp: url_plain_def byte_def)
  ultimately have "x \<noteq> CHR ''&'' \<and> x \<noteq> CHR ''=''" if "x \<in> set (url_encode s)" for x
    using that unfolding url_encode_def by (induction s) (auto split: if_splits)
  then show "CHR ''&'' \<notin> set (url_encode s)" "CHR ''='' \<notin> set (url_encode s)" by blast+
qed

section \<open>Parameters\<close>

text \<open>A pair as it stands in the query string, decoded; a list of pairs written out.\<close>

definition url_pair :: "char list \<Rightarrow> (char list \<times> char list) option" where
  "url_pair t =
     (case context_form_decode_bytes (takeWhile (\<lambda>x. x \<noteq> CHR ''='') t) of
        None \<Rightarrow> None
      | Some n \<Rightarrow> map_option (Pair n) (context_form_decode_bytes (tl (dropWhile (\<lambda>x. x \<noteq> CHR ''='') t))))"

definition url_pairs_text :: "(char list \<times> char list) list \<Rightarrow> char list" where
  "url_pairs_text ps = join (CHR ''&'') (map (\<lambda>(n, v). url_encode n @ CHR ''='' # url_encode v) ps)"

definition nv_bytes :: "NameValue \<Rightarrow> char list \<times> char list" where
  "nv_bytes p = (sv_bytes (nv_name p), sv_bytes (nv_value p))"

definition nv_valid :: "NameValue \<Rightarrow> bool" where
  "nv_valid p \<longleftrightarrow> stringv_valid (nv_name p) \<and> stringv_valid (nv_value p)"

lemma url_pair_encode: "url_pair (url_encode n @ CHR ''='' # url_encode v) = Some (n, v)"
  using url_encode_safe(2) [of n] by (simp add: url_pair_def decode_encode)

lemma pairs_text_tokens:
  "map url_pair (tokens (CHR ''&'') (url_pairs_text ps)) = map Some ps"
proof -
  have "tokens (CHR ''&'') (url_pairs_text ps) = map (\<lambda>(n, v). url_encode n @ CHR ''='' # url_encode v) ps"
    unfolding url_pairs_text_def
    by (rule tokens_join) (auto simp: url_encode_safe)
  then show ?thesis by (simp add: url_pair_encode case_prod_unfold)
qed

text \<open>
  The arena runs out: after at most \<open>j\<close> allocations, an allocation returns \<open>NULL\<close>, all of at most \<open>n\<close>
  bytes. Without an arena this is the case from the start.
\<close>

definition allocs :: "malloc_fn \<Rightarrow> Arena \<Rightarrow> nat list \<Rightarrow> Arena" where
  "allocs m A ks = foldl (\<lambda>A k. snd (arena_alloc m A k)) A ks"

definition no_room :: "malloc_fn \<Rightarrow> Context \<Rightarrow> nat \<Rightarrow> nat \<Rightarrow> bool" where
  "no_room m c n j \<longleftrightarrow>
     (case ctx_arena c of
        None \<Rightarrow> True
      | Some A \<Rightarrow> (\<exists>ks k. length ks \<le> j \<and> (\<forall>x\<in>set ks. x \<le> n) \<and> k \<le> n \<and>
                        fst (arena_alloc m (allocs m A ks) k) = None))"

lemma no_room_mono: "no_room m c n i \<Longrightarrow> n \<le> k \<Longrightarrow> i \<le> j \<Longrightarrow> no_room m c k j"
  unfolding no_room_def by (auto split: option.splits) (meson le_trans)

lemma no_room_step:
  assumes "ctx_arena c = Some A" "ctx_arena c' = Some (snd (arena_alloc m A k))" "k \<le> n" "no_room m c' n j"
  shows "no_room m c n (Suc j)"
proof -
  obtain ks l where ks: "length ks \<le> j" "\<forall>x\<in>set ks. x \<le> n" "l \<le> n"
    "fst (arena_alloc m (allocs m (snd (arena_alloc m A k)) ks) l) = None"
    using assms(2,4) by (auto simp: no_room_def)
  have "allocs m (snd (arena_alloc m A k)) ks = allocs m A (k # ks)" by (simp add: allocs_def)
  then have "length (k # ks) \<le> Suc j \<and> (\<forall>x\<in>set (k # ks). x \<le> n) \<and> l \<le> n \<and>
      fst (arena_alloc m (allocs m A (k # ks)) l) = None" using ks assms(3) by simp
  then show ?thesis unfolding no_room_def assms(1) option.case by blast
qed

definition arena_good :: "malloc_fn \<Rightarrow> Context \<Rightarrow> bool" where
  "arena_good m c \<longleftrightarrow> malloc_spec m \<and> (case ctx_arena c of None \<Rightarrow> True | Some A \<Rightarrow> arena_inv A)"

text \<open>The context is the same up to its arena.\<close>

definition same_but_arena :: "Context \<Rightarrow> Context \<Rightarrow> bool" where
  "same_but_arena c c' \<longleftrightarrow> c' = c\<lparr>ctx_arena := ctx_arena c'\<rparr> \<and> (ctx_arena c = None \<longleftrightarrow> ctx_arena c' = None)"

lemma same_but_arena_refl [simp]: "same_but_arena c c"
  by (simp add: same_but_arena_def)

lemma same_but_arena_trans:
  assumes "same_but_arena c c1" "same_but_arena c1 c2"
  shows "same_but_arena c c2"
proof -
  obtain a b where "c1 = c\<lparr>ctx_arena := a\<rparr>" "c2 = c1\<lparr>ctx_arena := b\<rparr>"
    using assms unfolding same_but_arena_def by blast
  then have "c2 = c\<lparr>ctx_arena := b\<rparr>" by simp
  then show ?thesis using assms by (simp add: same_but_arena_def)
qed

lemma same_but_arena_fields:
  assumes "same_but_arena c c'"
  shows "query_params c' = query_params c" "form_params c' = form_params c" "query_parsed c' = query_parsed c"
    "forms_parsed c' = forms_parsed c" "query_parse_ok c' = query_parse_ok c" "form_parse_ok c' = form_parse_ok c"
    "response_headers c' = response_headers c" "ctx_request c' = ctx_request c"
proof -
  have "c' = c\<lparr>ctx_arena := ctx_arena c'\<rparr>" using assms by (simp add: same_but_arena_def)
  then obtain a where "c' = c\<lparr>ctx_arena := a\<rparr>" by blast
  then show "query_params c' = query_params c" "form_params c' = form_params c" "query_parsed c' = query_parsed c"
    "forms_parsed c' = forms_parsed c" "query_parse_ok c' = query_parse_ok c" "form_parse_ok c' = form_parse_ok c"
    "response_headers c' = response_headers c" "ctx_request c' = ctx_request c"
    by simp_all
qed

lemma form_decode_spec:
  assumes good: "arena_good m c" and v: "views v s" and call: "context_form_decode m c v = (r, c')"
  shows "same_but_arena c c' \<and> arena_good m c' \<and>
    (case r of Some d \<Rightarrow> context_form_decode_bytes s = Some (sv_bytes d) \<and> stringv_valid d
     | None \<Rightarrow> context_form_decode_bytes s = None \<or> no_room m c (length s + 1) 0) \<and>
    (\<forall>n j. length s + 1 \<le> n \<longrightarrow> no_room m c' n j \<longrightarrow> no_room m c n (Suc j))"
proof (cases "list_ex (\<lambda>x. x = CHR ''+'' \<or> x = CHR ''%'') s")
  case False
  have "(r, c') = (Some v, c)"
    unfolding call [symmetric] context_form_decode_def using viewsD [OF v] False by simp
  then show ?thesis using good decode_plain [OF False] viewsD [OF v] no_room_mono by (simp add: le_SucI)
next
  case True
  show ?thesis
  proof (cases "ctx_arena c")
    case None
    then have "(r, c') = (None, c)"
      unfolding call [symmetric] context_form_decode_def using viewsD [OF v] True by simp
    then show ?thesis using good None by (simp add: no_room_def)
  next
    case (Some A)
    obtain p A1 where a: "arena_alloc m A (length s + 1) = (p, A1)" by fastforce
    have inv: "arena_inv A" "malloc_spec m" using good Some by (simp_all add: arena_good_def)
    have A1: "arena_inv A1" using arena_alloc_inv(1) [OF inv a] .
    have r: "(r, c') = (if p = None then None else map_option View (context_form_decode_bytes s), c\<lparr>ctx_arena := Some A1\<rparr>)"
      unfolding call [symmetric] context_form_decode_def using viewsD [OF v] True Some a
      by (simp split: option.splits)
    have fresh: "same_but_arena c (c\<lparr>ctx_arena := Some A1\<rparr>)" "arena_good m (c\<lparr>ctx_arena := Some A1\<rparr>)"
      using A1 inv(2) Some by (simp_all add: same_but_arena_def arena_good_def)
    have full: "no_room m c (length s + 1) 0" if "p = None"
      unfolding no_room_def using a that Some
      by (auto simp: allocs_def intro!: exI [of _ "[]"] exI [of _ "length s + 1"])
    have step: "no_room m c n (Suc j)" if "length s + 1 \<le> n" "no_room m (c\<lparr>ctx_arena := Some A1\<rparr>) n j" for n j
      using no_room_step [OF Some _ that(1) that(2)] a by simp
    show ?thesis using r fresh full step
      by (cases "context_form_decode_bytes s") (auto simp: view_basic split: if_splits)
  qed
qed

lemma split_pair_views:
  "\<exists>n v. split_pair (View t) = (n, v) \<and> views n (takeWhile (\<lambda>x. x \<noteq> CHR ''='') t) \<and>
     views v (tl (dropWhile (\<lambda>x. x \<noteq> CHR ''='') t))"
  by (cases "CHR ''='' \<in> set t") (simp_all add: split_pair_def view_simps)

lemma params_loop_spec:
  assumes "arena_good m c" "views v s" "context_params_loop m limit c params v = (ok, params', c')"
    and "length params \<le> limit"
  shows "same_but_arena c c' \<and> arena_good m c' \<and> length params' \<le> limit \<and>
    (\<exists>new. params' = params @ new \<and> (\<forall>p\<in>set new. nv_valid p) \<and>
       (if ok then map url_pair (tokens (CHR ''&'') s) = map Some (map nv_bytes new)
        else length params + length (tokens (CHR ''&'') s) > limit \<or>
             None \<in> set (map url_pair (tokens (CHR ''&'') s)) \<or> no_room m c (length s + 1) (2 * (limit - length params))))"
  using assms
proof (induction m limit c params v arbitrary: s rule: context_params_loop.induct)
  case (1 m limit c params v)
  note good = 1(2) and v = 1(3) and call = 1(4)
  show ?case
  proof (cases "s = []")
    case True
    then have "(ok, params', c') = (True, params, c)"
      using call viewsD [OF v] by (subst (asm) context_params_loop.simps) simp
    then show ?thesis using good True 1(5) by simp
  next
    case False
    let ?t = "takeWhile (\<lambda>x. x \<noteq> CHR ''&'') s" and ?r = "tl (dropWhile (\<lambda>x. x \<noteq> CHR ''&'') s)"
    have toks: "tokens (CHR ''&'') s = ?t # tokens (CHR ''&'') ?r" using False by (subst tokens.simps) simp
    obtain rest where nt: "view_next_token v (CHR ''&'') = (View ?t, rest)" and rest: "views rest ?r"
      using next_token_views [OF v False, of "CHR ''&''"] by blast
    let ?n = "takeWhile (\<lambda>x. x \<noteq> CHR ''='') ?t" and ?v = "tl (dropWhile (\<lambda>x. x \<noteq> CHR ''='') ?t)"
    obtain name val where sp: "split_pair (View ?t) = (name, val)" and name: "views name ?n" and val: "views val ?v"
      using split_pair_views [of ?t] by blast
    obtain dn c1 where d1: "context_form_decode m c name = (dn, c1)" by fastforce
    note D1 = form_decode_spec [OF good name d1]
    obtain dv c2 where d2: "context_form_decode m c1 val = (dv, c2)" by fastforce
    have good1: "arena_good m c1" using D1 by blast
    note D2 = form_decode_spec [OF good1 val d2]
    have same1: "same_but_arena c c1" and same2: "same_but_arena c c2"
      using D1 D2 same_but_arena_trans by blast+
    have pos: "sv_length v > 0" using viewsD [OF v] False by simp
    have short: "length ?n + 1 \<le> length s + 1" "length ?v + 1 \<le> length s + 1" "length ?r + 1 \<le> length s + 1"
    proof -
      have "length ?t \<le> length s" by (rule length_takeWhile_le)
      moreover have "length ?n \<le> length ?t" by (rule length_takeWhile_le)
      moreover have "length ?v \<le> length ?t" using length_dropWhile_le [of _ ?t] by (simp add: le_diff_conv le_SucI)
      moreover have "length ?r \<le> length s" using length_dropWhile_le [of _ s] by (simp add: le_diff_conv le_SucI)
      ultimately show "length ?n + 1 \<le> length s + 1" "length ?v + 1 \<le> length s + 1" "length ?r + 1 \<le> length s + 1"
        by linarith+
    qed
    have unfolded: "context_params_loop m limit c params v =
       (if limit \<le> length params then (False, params, c)
        else case dn of None \<Rightarrow> (False, params, c1)
          | Some decoded_name \<Rightarrow> (case dv of None \<Rightarrow> (False, params, c2)
             | Some decoded_value \<Rightarrow> context_params_loop m limit c2
                 (params @ [\<lparr>nv_name = decoded_name, nv_value = decoded_value\<rparr>]) rest))"
      using pos by (subst context_params_loop.simps) (simp add: nt sp d1 d2 split: option.splits)
    consider "limit \<le> length params" | "length params < limit" "dn = None"
      | a where "length params < limit" "dn = Some a" "dv = None"
      | a b where "length params < limit" "dn = Some a" "dv = Some b"
      by (metis leI option.exhaust)
    then show ?thesis
    proof cases
      case 1
      then show ?thesis using call unfolded good \<open>length params \<le> limit\<close> toks by simp
    next
      case 2
      then have "url_pair ?t = None \<or> no_room m c (length s + 1) (2 * (limit - length params))"
        using D1 no_room_mono [OF _ short(1)] by (auto simp: url_pair_def)
      then show ?thesis using 2 call unfolded same1 good1 toks by auto
    next
      case 3
      then have "url_pair ?t = None \<or> no_room m c (length s + 1) (2 * (limit - length params))"
      proof -
        have one: "Suc 0 \<le> 2 * (limit - length params)" using 3(1) by simp
        have "no_room m c (length s + 1) (2 * (limit - length params))" if "no_room m c1 (length ?v + 1) 0"
        proof -
          have "no_room m c1 (length s + 1) 0" using no_room_mono [OF that short(2)] by simp
          then have "no_room m c (length s + 1) (Suc 0)" using D1 short(1) by blast
          then show ?thesis using no_room_mono one by blast
        qed
        then show ?thesis using 3 D1 D2 by (auto simp: url_pair_def)
      qed
      then show ?thesis using 3 call unfolded same2 D2 toks by auto
    next
      case 4
      let ?p = "\<lparr>nv_name = a, nv_value = b\<rparr>"
      have pair: "url_pair ?t = Some (nv_bytes ?p)" "nv_valid ?p"
        using 4 D1 D2 by (simp_all add: url_pair_def nv_bytes_def nv_valid_def)
      have rec: "context_params_loop m limit c2 (params @ [?p]) rest = (ok, params', c')"
        using call unfolded 4 by simp
      have guards: "\<not> \<not> 0 < sv_length v" "\<not> limit \<le> length params" using pos 4 by auto
      have good2: "arena_good m c2" using D2 by blast
      have len: "length (params @ [?p]) \<le> limit" using 4 by simp
      have "same_but_arena c2 c' \<and> arena_good m c' \<and> length params' \<le> limit \<and>
        (\<exists>new. params' = (params @ [?p]) @ new \<and> (\<forall>p\<in>set new. nv_valid p) \<and>
         (if ok then map url_pair (tokens (CHR ''&'') ?r) = map Some (map nv_bytes new)
          else length (params @ [?p]) + length (tokens (CHR ''&'') ?r) > limit \<or>
             None \<in> set (map url_pair (tokens (CHR ''&'') ?r)) \<or> no_room m c2 (length ?r + 1) (2 * (limit - length (params @ [?p])))))"
        by (rule "1.IH" [OF guards(1) refl nt [symmetric] refl sp [symmetric] guards(2) d1 [symmetric] 4(2)
              d2 [symmetric] 4(3) good2 rest rec len])
      then obtain new where N: "same_but_arena c2 c'" "arena_good m c'" "length params' \<le> limit"
        "params' = params @ ?p # new" "\<forall>p\<in>set new. nv_valid p"
        "if ok then map url_pair (tokens (CHR ''&'') ?r) = map Some (map nv_bytes new)
         else length (params @ [?p]) + length (tokens (CHR ''&'') ?r) > limit \<or>
             None \<in> set (map url_pair (tokens (CHR ''&'') ?r)) \<or> no_room m c2 (length ?r + 1) (2 * (limit - length (params @ [?p])))"
        by auto
      have room: "no_room m c (length s + 1) (2 * (limit - length params))"
        if "no_room m c2 (length ?r + 1) (2 * (limit - length (params @ [?p])))"
      proof -
        have "no_room m c2 (length s + 1) (2 * (limit - length (params @ [?p])))"
          using no_room_mono [OF that short(3)] by blast
        then have "no_room m c1 (length s + 1) (Suc (2 * (limit - length (params @ [?p]))))" using D2 short(2) by blast
        then have "no_room m c (length s + 1) (Suc (Suc (2 * (limit - length (params @ [?p])))))" using D1 short(1) by blast
        moreover have "Suc (Suc (2 * (limit - length (params @ [?p])))) = 2 * (limit - length params)" using 4(1) by simp
        ultimately show ?thesis by simp
      qed
      show ?thesis
        using same_but_arena_trans [OF same2 N(1)] N(2-5) pair
        by (intro conjI exI [of _ "?p # new"]) (use N(6) room toks in \<open>auto split: if_splits\<close>)
    qed
  qed
qed

lemma equal_valid: "stringv_valid v \<Longrightarrow> stringv_equal v (View n) \<longleftrightarrow> sv_bytes v = n"
  by (cases v) (auto simp: view_simps)

definition lookup_bytes :: "(char list \<times> char list) list \<Rightarrow> char list \<Rightarrow> char list" where
  "lookup_bytes ps name = (case map_of ps name of None \<Rightarrow> [] | Some v \<Rightarrow> v)"

lemma lookup_view_bytes:
  "\<forall>p\<in>set params. nv_valid p \<Longrightarrow>
   sv_bytes (lookup_view params (View name)) = lookup_bytes (map nv_bytes params) name"
proof (induction params)
  case (Cons p params)
  have "stringv_equal (nv_name p) (View name) \<longleftrightarrow> fst (nv_bytes p) = name"
    using equal_valid [of "nv_name p" name] Cons.prems by (auto simp: nv_valid_def nv_bytes_def)
  moreover have "sv_bytes (nv_value p) = snd (nv_bytes p)" by (simp add: nv_bytes_def)
  ultimately show ?case using Cons
    by (cases "nv_bytes p") (auto simp: lookup_view_def lookup_bytes_def)
qed (simp add: lookup_view_def lookup_bytes_def view_basic)

lemma parse_query_spec:
  assumes good: "arena_good m c" and fresh: "\<not> query_parsed c" "query_params c = []"
    and q: "views (req_query_string (ctx_request c)) q" and call: "context_parse_query m c = (ok, c')"
  shows "arena_good m c' \<and> query_parsed c' \<and> query_parse_ok c' = ok \<and> (\<forall>p\<in>set (query_params c'). nv_valid p) \<and>
    length (query_params c') \<le> CEASY_MAX_QUERY_PARAMS \<and>
    (if ok then map url_pair (tokens (CHR ''&'') q) = map Some (map nv_bytes (query_params c'))
     else length (tokens (CHR ''&'') q) > CEASY_MAX_QUERY_PARAMS \<or>
          None \<in> set (map url_pair (tokens (CHR ''&'') q)) \<or>
          no_room m c (length q + 1) (2 * CEASY_MAX_QUERY_PARAMS))"
proof -
  define c1 where "c1 = c\<lparr>query_parsed := True, query_parse_ok := True\<rparr>"
  have c1: "arena_good m c1" "views (req_query_string (ctx_request c1)) q" "query_params c1 = []"
    "no_room m c1 n j = no_room m c n j" "query_parsed c1" "query_parse_ok c1" for n j
    using good q fresh by (simp_all add: c1_def arena_good_def no_room_def)
  obtain ok1 params c2 where loop: "context_params_loop m CEASY_MAX_QUERY_PARAMS c1 [] (req_query_string (ctx_request c1)) =
      (ok1, params, c2)" by (metis prod_cases3)
  note L = params_loop_spec [OF c1(1,2) loop, simplified]
  have same: "same_but_arena c1 c2" using L by blast
  have r: "(ok, c') = (ok1, if ok1 then c2\<lparr>query_params := params\<rparr> else c2\<lparr>query_params := params, query_parse_ok := False\<rparr>)"
    unfolding call [symmetric] context_parse_query_def Let_def c1_def [symmetric] c1(3) loop using fresh by simp
  have "arena_good m c'" using L r by (auto simp: arena_good_def)
  moreover have "query_parsed c' \<and> query_parse_ok c' = ok \<and> query_params c' = params"
    using r c1(5,6) same_but_arena_fields [OF same] by auto
  ultimately show ?thesis using L r c1(4) by auto
qed

lemma parse_form_spec:
  assumes good: "arena_good m c" and fresh: "\<not> forms_parsed c" "form_params c = []"
    and ct: "context_is_form_content_type (req_content_type (ctx_request c))"
    and q: "views (req_body (ctx_request c)) q" and call: "context_parse_form m c = (ok, c')"
  shows "arena_good m c' \<and> forms_parsed c' \<and> form_parse_ok c' = ok \<and> (\<forall>p\<in>set (form_params c'). nv_valid p) \<and>
    length (form_params c') \<le> CEASY_MAX_FORM_PARAMS \<and>
    (if ok then map url_pair (tokens (CHR ''&'') q) = map Some (map nv_bytes (form_params c'))
     else length (tokens (CHR ''&'') q) > CEASY_MAX_FORM_PARAMS \<or>
          None \<in> set (map url_pair (tokens (CHR ''&'') q)) \<or>
          no_room m c (length q + 1) (2 * CEASY_MAX_FORM_PARAMS))"
proof -
  define c1 where "c1 = c\<lparr>forms_parsed := True, form_parse_ok := True\<rparr>"
  have c1: "arena_good m c1" "views (req_body (ctx_request c1)) q" "form_params c1 = []"
    "no_room m c1 n j = no_room m c n j" "forms_parsed c1" "form_parse_ok c1"
    "context_is_form_content_type (req_content_type (ctx_request c1))" for n j
    using good q fresh ct by (simp_all add: c1_def arena_good_def no_room_def)
  obtain ok1 params c2 where loop: "context_params_loop m CEASY_MAX_FORM_PARAMS c1 [] (req_body (ctx_request c1)) =
      (ok1, params, c2)" by (metis prod_cases3)
  note L = params_loop_spec [OF c1(1,2) loop, simplified]
  have same: "same_but_arena c1 c2" using L by blast
  have r: "(ok, c') = (ok1, if ok1 then c2\<lparr>form_params := params\<rparr> else c2\<lparr>form_params := params, form_parse_ok := False\<rparr>)"
    unfolding call [symmetric] context_parse_form_def Let_def c1_def [symmetric] c1(3) loop using fresh c1(7) by simp
  have "arena_good m c'" using L r by (auto simp: arena_good_def)
  moreover have "forms_parsed c' \<and> form_parse_ok c' = ok \<and> form_params c' = params"
    using r c1(5,6) same_but_arena_fields [OF same] by auto
  ultimately show ?thesis using L r c1(4) by auto
qed

text \<open>Reading back an encoded list of pairs, for the loop's result on any of the two lists.\<close>

lemma encoded_pairs:
  assumes "map url_pair (tokens (CHR ''&'') (url_pairs_text ps)) = map Some (map nv_bytes params)"
  shows "map nv_bytes params = ps"
proof -
  have "map Some ps = map Some (map nv_bytes params)" using assms unfolding pairs_text_tokens .
  from arg_cong [OF this, of "map the"] show ?thesis by (simp add: comp_def)
qed

lemma encoded_pairs_complete:
  "length (tokens (CHR ''&'') (url_pairs_text ps)) = length ps"
  "None \<notin> set (map url_pair (tokens (CHR ''&'') (url_pairs_text ps)))"
  unfolding pairs_text_tokens by (metis length_map pairs_text_tokens, auto)

section \<open>The properties of parameters\<close>

definition demo_context :: Context where
  "demo_context = context_zero\<lparr>ctx_arena := Some demo_arena,
     ctx_request := request_zero\<lparr>req_query_string := View ''a=1&b=2'',
       req_content_type := View form_content_type, req_body := View ''a=1&b=2''\<rparr>\<rparr>"

lemma demo_context_good: "arena_good demo_malloc demo_context"
  by (simp add: arena_good_def demo_context_def demo_malloc_spec demo_arena_inv)

lemma demo_params_loop:
  "context_params_loop demo_malloc 64 c [] (View ''a=1&b=2'') =
     (True, [\<lparr>nv_name = View ''a'', nv_value = View ''1''\<rparr>, \<lparr>nv_name = View ''b'', nv_value = View ''2''\<rparr>], c)"
proof -
  have token: "view_next_token (View ''a=1&b=2'') (CHR ''&'') = (View ''a=1'', View ''b=2'')"
    "view_next_token (View ''b=2'') (CHR ''&'') = (View ''b=2'', sv_zero)"
    by (simp_all add: view_next_token_def view_simps)
  have pair: "split_pair (View ''a=1'') = (View ''a'', View ''1'')" "split_pair (View ''b=2'') = (View ''b'', View ''2'')"
    by (simp_all add: split_pair_def view_simps)
  have plain: "context_form_decode demo_malloc d (View t) = (Some (View t), d)"
    if "\<not> list_ex (\<lambda>x. x = CHR ''+'' \<or> x = CHR ''%'') t" for d t
    using that by (simp add: context_form_decode_def)
  show ?thesis
    apply (subst context_params_loop.simps)
    apply (simp add: token pair plain)
    apply (subst context_params_loop.simps)
    apply (simp add: token pair plain)
    apply (subst context_params_loop.simps)
    apply (simp add: view_basic)
    done
qed

lemma demo_parse_query:
  "context_parse_query demo_malloc demo_context = (True, demo_context\<lparr>query_parsed := True, query_parse_ok := True,
     query_params := [\<lparr>nv_name = View ''a'', nv_value = View ''1''\<rparr>, \<lparr>nv_name = View ''b'', nv_value = View ''2''\<rparr>]\<rparr>)"
  by (simp add: context_parse_query_def demo_params_loop CEASY_MAX_QUERY_PARAMS_def demo_context_def
      context_zero_def request_zero_def)

lemma demo_parse_form:
  "context_parse_form demo_malloc demo_context = (True, demo_context\<lparr>forms_parsed := True, form_parse_ok := True,
     form_params := [\<lparr>nv_name = View ''a'', nv_value = View ''1''\<rparr>, \<lparr>nv_name = View ''b'', nv_value = View ''2''\<rparr>]\<rparr>)"
  by (simp add: context_parse_form_def demo_params_loop CEASY_MAX_FORM_PARAMS_def demo_context_def
      context_zero_def request_zero_def context_is_form_content_type_def view_simps)





end
