(* ===== verification/HeaderLaws.thy ===== *)
theory HeaderLaws
  imports ContextLaws
begin

text \<open>
  Response headers, cookies and escaped text: what the operations of the context write never breaks out
  of its line or its element.
\<close>

section \<open>Response headers\<close>

lemma contains_char: "stringv_contains (View v) (View [c]) \<longleftrightarrow> c \<in> set v"
  by (auto simp: view_contains in_set_conv_decomp)

definition no_line_break :: "char list \<Rightarrow> bool" where
  "no_line_break t \<longleftrightarrow> CHR 0x0D \<notin> set t \<and> CHR 0x0A \<notin> set t"

definition header_clean :: "ResponseHeader \<Rightarrow> bool" where
  "header_clean p \<longleftrightarrow> sv_has_data (nv_name p) \<and> sv_has_data (nv_value p) \<and>
     sv_bytes (nv_name p) \<noteq> [] \<and> no_line_break (sv_bytes (nv_name p)) \<and> no_line_break (sv_bytes (nv_value p))"

definition headers_ok :: "Context \<Rightarrow> bool" where
  "headers_ok c \<longleftrightarrow> length (response_headers c) \<le> CEASY_MAX_RESPONSE_HEADERS \<and>
     (\<forall>p\<in>set (response_headers c). header_clean p)"

lemma header_value_valid_View: "context_header_value_valid (View v) \<longleftrightarrow> no_line_break v"
  by (simp add: context_header_value_valid_def sv_def contains_char no_line_break_def)

lemma header_value_valid_bytes: "context_header_value_valid v \<Longrightarrow> no_line_break (sv_bytes v)"
  by (cases v) (auto simp: header_value_valid_View, simp add: no_line_break_def)

lemma string_view_data: "string_data s = Some d \<Longrightarrow> string_as_view s = View (string_content s)"
  by (simp add: string_as_view_def string_content_def)

lemma arena_copy:
  assumes "malloc_spec m" "arena_inv A" "string_from (arena_allocator m) A v = (s, A')"
  shows "arena_inv A'" and "string_data s \<noteq> None \<Longrightarrow> string_as_view s = View (sv_bytes v)"
proof -
  have h: "malloc_spec m \<and> arena_inv A" using assms by simp
  note F = arena_provider.from_spec [OF h assms(3)]
  show "arena_inv A'" using F(1) unfolding arena_provider.ready_def by blast
  show "string_as_view s = View (sv_bytes v)" if d: "string_data s \<noteq> None"
  proof -
    obtain b where b: "string_data s = Some b" using d by blast
    have "s \<noteq> string_new (arena_allocator m)" using d by (auto simp: string_new_def)
    then show ?thesis using F(2) string_view_data [OF b] by auto
  qed
qed

lemma add_header_spec:
  assumes good: "arena_good m c" and call: "context_add_header m c name val = (ok, c')"
  shows "arena_good m c' \<and>
    (if ok then no_line_break (sv_bytes name) \<and> no_line_break (sv_bytes val) \<and> sv_bytes name \<noteq> [] \<and>
        length (response_headers c) < CEASY_MAX_RESPONSE_HEADERS \<and>
        c' = c\<lparr>ctx_arena := ctx_arena c', response_headers := response_headers c @
           [\<lparr>nv_name = View (sv_bytes name), nv_value = View (sv_bytes val)\<rparr>]\<rparr>
     else c' = c\<lparr>ctx_arena := ctx_arena c'\<rparr>)"
proof (cases "ctx_arena c")
  case None
  then show ?thesis using call good by (simp add: context_add_header_def)
next
  case (Some A)
  define bad where "bad \<longleftrightarrow> sv_length name = 0 \<or> \<not> sv_has_data name \<or> \<not> context_header_value_valid name \<or>
     \<not> context_header_value_valid val \<or> length (response_headers c) \<ge> CEASY_MAX_RESPONSE_HEADERS"
  show ?thesis
  proof (cases bad)
    case True
    then have "(ok, c') = (False, c)"
      unfolding call [symmetric] context_add_header_def Some option.case bad_def [symmetric] by simp
    then show ?thesis using good by simp
  next
    case False
    have inv: "malloc_spec m" "arena_inv A" using good Some by (simp_all add: arena_good_def)
    obtain nc A1 where n: "string_from (arena_allocator m) A name = (nc, A1)" by fastforce
    note N = arena_copy [OF inv n]
    obtain vc A2 where v: "string_from (arena_allocator m) A1 val = (vc, A2)" by fastforce
    note V = arena_copy [OF inv(1) N(1) v]
    have r: "(ok, c') = (if string_data nc = None \<or> string_data vc = None then (False, c\<lparr>ctx_arena := Some A2\<rparr>)
       else (True, c\<lparr>ctx_arena := Some A2, response_headers := response_headers c @
          [\<lparr>nv_name = string_as_view nc, nv_value = string_as_view vc\<rparr>]\<rparr>))"
      unfolding call [symmetric] context_add_header_def Some option.case bad_def [symmetric] Let_def n prod.case v
      using False by simp
    have "sv_bytes name \<noteq> []" using False by (cases name) (auto simp: bad_def)
    moreover have "no_line_break (sv_bytes name)" "no_line_break (sv_bytes val)"
      using False header_value_valid_bytes by (auto simp: bad_def)
    ultimately show ?thesis using r inv(1) V N False by (auto simp: arena_good_def bad_def split: if_splits)
  qed
qed

lemma add_header_ok:
  assumes "arena_good m c" "headers_ok c" "context_add_header m c name val = (ok, c')"
  shows "arena_good m c' \<and> headers_ok c'"
proof -
  note A = add_header_spec [OF assms(1,3)]
  have "response_headers c' = (if ok then response_headers c @ [\<lparr>nv_name = View (sv_bytes name), nv_value = View (sv_bytes val)\<rparr>]
     else response_headers c)"
  proof (cases ok)
    case True
    then obtain a where "c' = c\<lparr>ctx_arena := a, response_headers := response_headers c @
        [\<lparr>nv_name = View (sv_bytes name), nv_value = View (sv_bytes val)\<rparr>]\<rparr>" using A by auto
    then show ?thesis using True by simp
  next
    case False
    then obtain a where "c' = c\<lparr>ctx_arena := a\<rparr>" using A by auto
    then show ?thesis using False by simp
  qed
  then show ?thesis using A assms(2) by (auto simp: headers_ok_def header_clean_def split: if_splits)
qed

lemma set_header_spec:
  assumes good: "arena_good m c" and call: "context_set_header m c name val = (ok, c')"
  shows "arena_good m c' \<and>
    (if ok then no_line_break (sv_bytes name) \<and> no_line_break (sv_bytes val) \<and> sv_bytes name \<noteq> [] \<and>
        c' = c\<lparr>ctx_arena := ctx_arena c', response_headers :=
          (case first_index (\<lambda>i. stringv_equal_ignore_case (nv_name (response_headers c ! i)) name)
                  (length (response_headers c)) of
             Some i \<Rightarrow> (response_headers c)[i := (response_headers c ! i)\<lparr>nv_value := View (sv_bytes val)\<rparr>]
           | None \<Rightarrow> response_headers c @ [\<lparr>nv_name = View (sv_bytes name), nv_value = View (sv_bytes val)\<rparr>])\<rparr> \<and>
        (first_index (\<lambda>i. stringv_equal_ignore_case (nv_name (response_headers c ! i)) name)
           (length (response_headers c)) = None \<longrightarrow> length (response_headers c) < CEASY_MAX_RESPONSE_HEADERS)
     else c' = c\<lparr>ctx_arena := ctx_arena c'\<rparr>)"
proof (cases "ctx_arena c")
  case None
  then show ?thesis using call good by (simp add: context_set_header_def)
next
  case (Some A)
  define bad where "bad \<longleftrightarrow> sv_length name = 0 \<or> \<not> sv_has_data name \<or> \<not> context_header_value_valid name \<or>
     \<not> context_header_value_valid val"
  define found where "found = first_index (\<lambda>i. stringv_equal_ignore_case (nv_name (response_headers c ! i)) name)
     (length (response_headers c))"
  note unf = call [symmetric, unfolded context_set_header_def Some option.case, folded bad_def found_def]
  show ?thesis
  proof (cases bad)
    case True
    then show ?thesis using unf good by simp
  next
    case False
    have inv: "malloc_spec m" "arena_inv A" using good Some by (simp_all add: arena_good_def)
    have valid: "sv_length name \<noteq> 0" "sv_has_data name" "context_header_value_valid name" "context_header_value_valid val"
      using False unfolding bad_def by simp_all
    have clean: "sv_bytes name \<noteq> []" "no_line_break (sv_bytes name)" "no_line_break (sv_bytes val)"
      using valid(1,2) by (cases name, simp_all add: header_value_valid_bytes [OF valid(3)] header_value_valid_bytes [OF valid(4)])
    show ?thesis
    proof (cases found)
      case None
      then have "context_add_header m c name val = (ok, c')" using unf False by simp
      from add_header_spec [OF good this] show ?thesis using clean None by (simp add: found_def [symmetric])
    next
      case (Some i)
      obtain vc A1 where v: "string_from (arena_allocator m) A val = (vc, A1)" by fastforce
      note V = arena_copy [OF inv v]
      have "(ok, c') = (if string_data vc = None then (False, c\<lparr>ctx_arena := Some A1\<rparr>)
         else (True, c\<lparr>ctx_arena := Some A1, response_headers := (response_headers c)
             [i := (response_headers c ! i)\<lparr>nv_value := string_as_view vc\<rparr>]\<rparr>))"
        unfolding unf Some option.case v Let_def prod.case using False by simp
      moreover have "arena_good m (c\<lparr>ctx_arena := Some A1\<rparr>)"
        "arena_good m (c\<lparr>ctx_arena := Some A1, response_headers := x\<rparr>)" for x
        using V(1) inv(1) by (simp_all add: arena_good_def)
      moreover have "string_data vc \<noteq> None \<Longrightarrow> string_as_view vc = View (sv_bytes val)" by (rule V(2))
      ultimately show ?thesis using clean Some found_def
        by (cases "string_data vc = None") simp_all
    qed
  qed
qed

lemma set_header_ok:
  assumes "arena_good m c" "headers_ok c" "context_set_header m c name val = (ok, c')"
  shows "arena_good m c' \<and> headers_ok c'"
proof -
  note S = set_header_spec [OF assms(1,3)]
  let ?found = "first_index (\<lambda>i. stringv_equal_ignore_case (nv_name (response_headers c ! i)) name)
     (length (response_headers c))"
  show ?thesis
  proof (cases ok)
    case False
    then obtain a where "c' = c\<lparr>ctx_arena := a\<rparr>" using S by auto
    then show ?thesis using S assms(2) by (auto simp: headers_ok_def)
  next
    case ok: True
    then have clean: "no_line_break (sv_bytes name)" "no_line_break (sv_bytes val)" "sv_bytes name \<noteq> []"
      using S by auto
    show ?thesis
    proof (cases ?found)
      case None
      then obtain a where c': "c' = c\<lparr>ctx_arena := a, response_headers := response_headers c @
          [\<lparr>nv_name = View (sv_bytes name), nv_value = View (sv_bytes val)\<rparr>]\<rparr>" using S ok by auto
      have "length (response_headers c) < CEASY_MAX_RESPONSE_HEADERS" using S ok None by simp
      then have "headers_ok c'" using clean assms(2) by (auto simp: c' headers_ok_def header_clean_def)
      then show ?thesis using S by blast
    next
      case (Some i)
      then have i: "i < length (response_headers c)" by (simp add: loop_simps)
      obtain a where c': "c' = c\<lparr>ctx_arena := a, response_headers := (response_headers c)
          [i := (response_headers c ! i)\<lparr>nv_value := View (sv_bytes val)\<rparr>]\<rparr>" using S ok Some by auto
      have "header_clean (response_headers c ! i)" using assms(2) i by (simp add: headers_ok_def)
      then have "header_clean ((response_headers c ! i)\<lparr>nv_value := View (sv_bytes val)\<rparr>)"
        using clean by (simp add: header_clean_def)
      then have "headers_ok c'" using assms(2) unfolding headers_ok_def c'
        by (auto dest!: set_update_subset_insert [THEN subsetD])
      then show ?thesis using S by blast
    qed
  qed
qed

section \<open>Cookies\<close>

text \<open>The text of a cookie as the browser gets it.\<close>

definition cookie_text :: "char list \<Rightarrow> char list \<Rightarrow> CookieOptions \<Rightarrow> char list" where
  "cookie_text name val options = name @ ''='' @ val @
     (if sv_length (cookie_path options) > 0 then ''; Path='' @ sv_bytes (cookie_path options) else []) @
     (if sv_length (cookie_domain options) > 0 then ''; Domain='' @ sv_bytes (cookie_domain options) else []) @
     (if cookie_max_age options \<ge> 0 then ''; Max-Age='' @ show_int (cookie_max_age options) else []) @
     (if cookie_http_only options then ''; HttpOnly'' else []) @
     (if cookie_secure options then ''; Secure'' else []) @
     (case cookie_same_site options of COOKIE_SAME_SITE_STRICT \<Rightarrow> ''; SameSite=Strict''
      | COOKIE_SAME_SITE_NONE \<Rightarrow> ''; SameSite=None'' | COOKIE_SAME_SITE_LAX \<Rightarrow> ''; SameSite=Lax'')"

lemma cookie_pieces_text:
  "pieces_text (cookie_pieces name val options) = cookie_text (sv_bytes name) (sv_bytes val) options"
  by (simp add: cookie_pieces_def cookie_text_def sv_def split: CookieSameSite.splits)

lemma cookie_pieces_ok: "\<forall>p\<in>set (cookie_pieces name val options). piece_ok p"
  by (auto simp: cookie_pieces_def)

lemma set_cookie_spec:
  assumes good: "arena_good m c" and call: "context_set_cookie m c name val options = (ok, c')"
  shows "arena_good m c' \<and>
    (if ok then cookie_token name \<and> sv_has_data val \<and>
        length (response_headers c) < CEASY_MAX_RESPONSE_HEADERS \<and>
        no_line_break (cookie_text (sv_bytes name) (sv_bytes val) options) \<and>
        c' = c\<lparr>ctx_arena := ctx_arena c', response_headers := response_headers c @
           [\<lparr>nv_name = View ''Set-Cookie'', nv_value = View (cookie_text (sv_bytes name) (sv_bytes val) options)\<rparr>]\<rparr>
     else c' = c\<lparr>ctx_arena := ctx_arena c'\<rparr>)"
proof (cases "ctx_arena c")
  case None
  then show ?thesis using call good by (simp add: context_set_cookie_def)
next
  case (Some A)
  define bad where "bad \<longleftrightarrow> \<not> cookie_token name \<or> \<not> sv_has_data val \<or>
     stringv_contains val (sv [CHR 0x0D]) \<or> stringv_contains val (sv [CHR 0x0A]) \<or>
     stringv_contains (cookie_path options) (sv [CHR 0x0D]) \<or> stringv_contains (cookie_path options) (sv [CHR 0x0A]) \<or>
     stringv_contains (cookie_domain options) (sv [CHR 0x0D]) \<or> stringv_contains (cookie_domain options) (sv [CHR 0x0A])"
  note unf = call [symmetric, unfolded context_set_cookie_def Some option.case, folded bad_def]
  show ?thesis
  proof (cases bad)
    case True
    then show ?thesis using unf good by simp
  next
    case False
    have h: "malloc_spec m \<and> arena_inv A" using good Some by (simp add: arena_good_def)
    obtain ok1 cookie A1 where e: "string_emit (string_new (arena_allocator m)) A (cookie_pieces name val options) =
        (ok1, cookie, A1)" by (metis prod_cases3)
    note E = arena_provider.emit_new [OF h cookie_pieces_ok e, unfolded cookie_pieces_text]
    have A1: "arena_inv A1" using E(1) unfolding arena_provider.ready_def by blast
    define c1 where "c1 = c\<lparr>ctx_arena := Some A1\<rparr>"
    have good1: "arena_good m c1" using A1 h by (simp add: c1_def arena_good_def)
    have r: "(ok, c') = (if \<not> ok1 then (False, c1)
        else context_add_header m c1 (sv ''Set-Cookie'') (string_as_view cookie))"
      unfolding unf e Let_def prod.case c1_def [symmetric] using False by simp
    show ?thesis
    proof (cases ok1)
      case False
      then show ?thesis using r good1 by (simp add: c1_def)
    next
      case True
      have content: "string_content cookie = cookie_text (sv_bytes name) (sv_bytes val) options" using E(2) True .
      have "sv_bytes name \<noteq> []" using \<open>\<not> bad\<close> by (cases name) (auto simp: bad_def cookie_token_def)
      then have ne: "cookie_text (sv_bytes name) (sv_bytes val) options \<noteq> []" by (simp add: cookie_text_def)
      have view: "string_as_view cookie = View (cookie_text (sv_bytes name) (sv_bytes val) options)"
        using arena_provider.view_of_string [OF E(1)] content ne by simp
      have add: "context_add_header m c1 (View ''Set-Cookie'') (View (cookie_text (sv_bytes name) (sv_bytes val) options)) = (ok, c')"
        using r True view by (simp add: sv_def)
      show ?thesis using add_header_spec [OF good1 add] \<open>\<not> bad\<close> by (auto simp: c1_def bad_def)
    qed
  qed
qed

lemma set_cookie_ok:
  assumes "arena_good m c" "headers_ok c" "context_set_cookie m c name val options = (ok, c')"
  shows "arena_good m c' \<and> headers_ok c'"
proof -
  note S = set_cookie_spec [OF assms(1,3)]
  show ?thesis
  proof (cases ok)
    case False
    then obtain a where "c' = c\<lparr>ctx_arena := a\<rparr>" using S by auto
    then show ?thesis using S assms(2) by (auto simp: headers_ok_def)
  next
    case True
    then obtain a where "c' = c\<lparr>ctx_arena := a, response_headers := response_headers c @
        [\<lparr>nv_name = View ''Set-Cookie'', nv_value = View (cookie_text (sv_bytes name) (sv_bytes val) options)\<rparr>]\<rparr>"
      using S by auto
    then show ?thesis using S assms(2) True by (auto simp: headers_ok_def header_clean_def no_line_break_def)
  qed
qed

section \<open>Reading cookies\<close>

definition trim_bytes :: "char list \<Rightarrow> char list" where
  "trim_bytes v = rev (dropWhile stringv_ascii_space (rev (dropWhile stringv_ascii_space v)))"

lemma trim_View: "stringv_trim (View v) = View (trim_bytes v)"
  by (simp add: trim_view trim_bytes_def)

text \<open>The cookie in one piece of the header, if it is one.\<close>

definition cookie_pair :: "char list \<Rightarrow> (char list \<times> char list) list" where
  "cookie_pair t =
     (let u = trim_bytes t;
          n = trim_bytes (takeWhile (\<lambda>x. x \<noteq> CHR ''='') u);
          v = trim_bytes (tl (dropWhile (\<lambda>x. x \<noteq> CHR ''='') u))
      in if CHR ''='' \<in> set u \<and> n \<noteq> [] \<and> list_all cookie_token_char n then [(n, v)] else [])"

definition cookie_pairs :: "char list \<Rightarrow> (char list \<times> char list) list" where
  "cookie_pairs s = concat (map cookie_pair (tokens (CHR '';'') s))"

lemma cookie_loop_spec:
  assumes "views v s" "cookie_parse_loop cookies v = (ok, cookies')"
    and "length cookies \<le> CEASY_MAX_REQUEST_COOKIES"
  shows "length cookies' \<le> CEASY_MAX_REQUEST_COOKIES \<and>
    (\<exists>new. cookies' = cookies @ new \<and> (\<forall>p\<in>set new. nv_valid p) \<and>
      (if ok then map nv_bytes new = cookie_pairs s
       else length cookies + length (cookie_pairs s) > CEASY_MAX_REQUEST_COOKIES))"
  using assms
proof (induction cookies v arbitrary: s rule: cookie_parse_loop.induct)
  case (1 cookies v)
  note v = 1(4) and call = 1(5) and full = 1(6)
  show ?case
  proof (cases "s = []")
    case True
    then have "(ok, cookies') = (True, cookies)"
      using call viewsD [OF v] by (subst (asm) cookie_parse_loop.simps) simp
    then show ?thesis using True 1(6) by (simp add: cookie_pairs_def)
  next
    case False
    let ?t = "takeWhile (\<lambda>x. x \<noteq> CHR '';'') s" and ?r = "tl (dropWhile (\<lambda>x. x \<noteq> CHR '';'') s)"
    let ?u = "trim_bytes ?t"
    let ?n = "trim_bytes (takeWhile (\<lambda>x. x \<noteq> CHR ''='') ?u)" and ?v = "trim_bytes (tl (dropWhile (\<lambda>x. x \<noteq> CHR ''='') ?u))"
    have toks: "cookie_pairs s = cookie_pair ?t @ cookie_pairs ?r" using False
      unfolding cookie_pairs_def by (subst tokens.simps) simp
    obtain rest where nt: "view_next_token v (CHR '';'') = (View ?t, rest)" and rest: "views rest ?r"
      using next_token_views [OF v False, of "CHR '';''"] by blast
    have pos: "sv_length v > 0" using viewsD [OF v] False by simp
    define good where "good \<longleftrightarrow> ?n \<noteq> [] \<and> list_all cookie_token_char ?n"
    have unfolded: "cookie_parse_loop cookies v =
       (if CHR ''='' \<in> set ?u \<and> good
        then (if CEASY_MAX_REQUEST_COOKIES \<le> length cookies then (False, cookies)
              else cookie_parse_loop (cookies @ [\<lparr>nv_name = View ?n, nv_value = View ?v\<rparr>]) rest)
        else cookie_parse_loop cookies rest)"
      using pos by (subst cookie_parse_loop.simps)
        (simp add: nt trim_View view_split_once_char cookie_token_def good_def)
    have pair: "cookie_pair ?t = (if CHR ''='' \<in> set ?u \<and> good then [(?n, ?v)] else [])"
      by (simp add: cookie_pair_def Let_def good_def)
    have guard: "\<not> \<not> 0 < sv_length v" using pos by simp
    note pre = guard refl nt [symmetric] trim_View
    consider "CHR ''='' \<notin> set ?u" | "CHR ''='' \<in> set ?u" "\<not> good"
      | "CHR ''='' \<in> set ?u" good "CEASY_MAX_REQUEST_COOKIES \<le> length cookies"
      | "CHR ''='' \<in> set ?u" good "length cookies < CEASY_MAX_REQUEST_COOKIES" by linarith
    then show ?thesis
    proof cases
      case 1
      have n: "stringv_split_once_char (View ?u) (CHR ''='') = None" using 1 by (simp add: view_split_once_char)
      have rec: "cookie_parse_loop cookies rest = (ok, cookies')" using call unfolded 1 by simp
      have e: "cookie_pairs s = cookie_pairs ?r" using toks pair 1 by simp
      show ?thesis unfolding e
        by (rule "1.IH"(1) [OF guard refl nt [symmetric] trim_View [symmetric] n rest rec full])
    next
      case 2
      have n: "stringv_split_once_char (View ?u) (CHR ''='') =
          Some (View (takeWhile (\<lambda>x. x \<noteq> CHR ''='') ?u), View (tl (dropWhile (\<lambda>x. x \<noteq> CHR ''='') ?u)))"
        using 2 by (simp add: view_split_once_char)
      have t: "\<not> cookie_token (stringv_trim (View (takeWhile (\<lambda>x. x \<noteq> CHR ''='') ?u)))"
        using 2 by (auto simp: trim_View cookie_token_def good_def)
      have rec: "cookie_parse_loop cookies rest = (ok, cookies')" using call unfolded 2 by simp
      have e: "cookie_pairs s = cookie_pairs ?r" using toks pair 2 by simp
      show ?thesis unfolding e
        by (rule "1.IH"(2) [OF guard refl nt [symmetric] trim_View [symmetric] n refl t rest rec full])
    next
      case 3
      then show ?thesis using call unfolded toks pair 1(6) by simp
    next
      case 4
      have s: "stringv_split_once_char (View ?u) (CHR ''='') =
          Some (View (takeWhile (\<lambda>x. x \<noteq> CHR ''='') ?u), View (tl (dropWhile (\<lambda>x. x \<noteq> CHR ''='') ?u)))"
        using 4 by (simp add: view_split_once_char)
      have t: "\<not> \<not> cookie_token (stringv_trim (View (takeWhile (\<lambda>x. x \<noteq> CHR ''='') ?u)))"
        using 4 by (auto simp: trim_View cookie_token_def good_def)
      have l: "\<not> CEASY_MAX_REQUEST_COOKIES \<le> length cookies" using 4 by simp
      let ?p = "\<lparr>nv_name = View ?n, nv_value = View ?v\<rparr>"
      have rec: "cookie_parse_loop (cookies @ [?p]) rest = (ok, cookies')" using call unfolded 4 by simp
      have len: "length (cookies @ [?p]) \<le> CEASY_MAX_REQUEST_COOKIES" using 4 by simp
      have p: "nv_bytes ?p = (?n, ?v)" "nv_valid ?p" by (simp_all add: nv_bytes_def nv_valid_def view_basic)
      have "length cookies' \<le> CEASY_MAX_REQUEST_COOKIES \<and>
        (\<exists>new. cookies' = (cookies @ [?p]) @ new \<and> (\<forall>p\<in>set new. nv_valid p) \<and>
          (if ok then map nv_bytes new = cookie_pairs ?r
           else length (cookies @ [?p]) + length (cookie_pairs ?r) > CEASY_MAX_REQUEST_COOKIES))"
        by (rule "1.IH"(3) [OF guard refl nt [symmetric] trim_View [symmetric] s refl t l rest,
              unfolded trim_View, OF rec len])
      then obtain new where N: "length cookies' \<le> CEASY_MAX_REQUEST_COOKIES" "cookies' = cookies @ ?p # new"
        "\<forall>p\<in>set new. nv_valid p"
        "if ok then map nv_bytes new = cookie_pairs ?r
         else length (cookies @ [?p]) + length (cookie_pairs ?r) > CEASY_MAX_REQUEST_COOKIES"
        by auto
      have "cookie_pairs s = (?n, ?v) # cookie_pairs ?r" using toks pair 4 by simp
      then show ?thesis using N p
        by (intro conjI exI [of _ "?p # new"]) (auto split: if_splits)
    qed
  qed
qed

text \<open>The header a browser sends for a list of cookies.\<close>

definition cookie_header :: "(char list \<times> char list) list \<Rightarrow> char list" where
  "cookie_header ps =
     (case map (\<lambda>(n, v). n @ CHR ''='' # v) ps of
        [] \<Rightarrow> [] | t # ts \<Rightarrow> join (CHR '';'') (t # map (Cons (CHR '' '')) ts))"

definition cookie_ok :: "char list \<times> char list \<Rightarrow> bool" where
  "cookie_ok p \<longleftrightarrow> fst p \<noteq> [] \<and> list_all cookie_token_char (fst p) \<and>
     trimmed (snd p) \<and> CHR '';'' \<notin> set (snd p)"

lemma token_char_facts: "cookie_token_char c \<Longrightarrow> \<not> stringv_ascii_space c \<and> c \<noteq> CHR ''='' \<and> c \<noteq> CHR '';''"
  by (auto simp: cookie_token_char_def signed_char_def stringv_ascii_space_def byte_def)

lemma cookie_pair_written:
  assumes "cookie_ok p" "w = fst p @ CHR ''='' # snd p"
  shows "cookie_pair w = [p]" and "cookie_pair (CHR '' '' # w) = [p]" and "CHR '';'' \<notin> set w"
proof -
  obtain n v where p: "p = (n, v)" by (cases p)
  have n: "n \<noteq> []" "list_all cookie_token_char n" and v: "trimmed v" "CHR '';'' \<notin> set v"
    using assms(1) by (simp_all add: cookie_ok_def p)
  have nc: "\<forall>c\<in>set n. \<not> stringv_ascii_space c \<and> c \<noteq> CHR ''='' \<and> c \<noteq> CHR '';''"
    using n(2) token_char_facts by (auto simp: list_all_iff)
  have w: "w = n @ CHR ''='' # v" using assms(2) p by simp
  have "hd n \<in> set n" using n(1) by (rule hd_in_set)
  then have "\<not> stringv_ascii_space (hd n)" using nc by blast
  moreover have "\<not> stringv_ascii_space (last w)" using v(1) w by (auto simp: trimmed_def stringv_ascii_space_def)
  ultimately have tw: "trimmed w" using w n(1) by (simp add: trimmed_def)
  have "last n \<in> set n" using n(1) by (rule last_in_set)
  then have tn: "trimmed n" using nc \<open>\<not> stringv_ascii_space (hd n)\<close> by (auto simp: trimmed_def)
  have same: "trim_bytes w = w" "trim_bytes n = n" "trim_bytes v = v"
    unfolding trim_bytes_def using trim_trimmed tw tn v(1) by blast+
  have space: "trim_bytes (CHR '' '' # w) = trim_bytes w" by (simp add: trim_bytes_def stringv_ascii_space_def)
  have cut: "CHR ''='' \<notin> set n" using nc by blast
  show "cookie_pair w = [p]"
    unfolding cookie_pair_def Let_def same(1) using cut n same by (simp add: w p)
  then show "cookie_pair (CHR '' '' # w) = [p]" unfolding cookie_pair_def space same(1) .
  show "CHR '';'' \<notin> set w" using nc v(2) w by auto
qed

lemma cookie_header_pairs:
  assumes "\<forall>p\<in>set ps. cookie_ok p"
  shows "cookie_pairs (cookie_header ps) = ps"
proof (cases ps)
  case Nil
  then show ?thesis by (simp add: cookie_header_def cookie_pairs_def)
next
  case (Cons p qs)
  define wr :: "char list \<times> char list \<Rightarrow> char list" where "wr = (\<lambda>(n, v). n @ CHR ''='' # v)"
  have wr: "wr q = fst q @ CHR ''='' # snd q" for q by (simp add: wr_def case_prod_unfold)
  have h: "cookie_header ps = join (CHR '';'') (wr p # map (\<lambda>q. CHR '' '' # wr q) qs)"
    by (simp add: Cons cookie_header_def wr_def comp_def)
  have P: "cookie_pair (wr p) = [p]" "CHR '';'' \<notin> set (wr p)" "wr p \<noteq> []"
    using cookie_pair_written [OF _ wr, of p] assms Cons by (auto simp: wr)
  have Q: "cookie_pair (CHR '' '' # wr q) = [q]" "CHR '';'' \<notin> set (CHR '' '' # wr q)" if "q \<in> set qs" for q
    using cookie_pair_written [OF _ wr, of q] assms Cons that by auto
  have "\<forall>t\<in>set (wr p # map (\<lambda>q. CHR '' '' # wr q) qs). CHR '';'' \<notin> set t \<and> t \<noteq> []" using P Q by auto
  then have "tokens (CHR '';'') (cookie_header ps) = wr p # map (\<lambda>q. CHR '' '' # wr q) qs"
    unfolding h by (rule tokens_join)
  moreover have "concat (map (\<lambda>q. cookie_pair (CHR '' '' # wr q)) qs) = qs"
    using Q(1) by (induction qs) auto
  ultimately show ?thesis using P(1) Cons by (simp add: cookie_pairs_def comp_def)
qed

section \<open>Escaping\<close>

definition html_text :: "char list \<Rightarrow> char list" where
  "html_text t = concat (map (\<lambda>c. case html_escaped c of None \<Rightarrow> [c] | Some e \<Rightarrow> e) t)"

text \<open>What a browser makes of the five references.\<close>

fun html_read :: "char list \<Rightarrow> char list" where
  "html_read [] = []"
| "html_read (c # r) =
     (if c \<noteq> CHR ''&'' then c # html_read r
      else if prefix ''amp;'' r then CHR ''&'' # html_read (drop 4 r)
      else if prefix ''lt;'' r then CHR ''<'' # html_read (drop 3 r)
      else if prefix ''gt;'' r then CHR ''>'' # html_read (drop 3 r)
      else if prefix ''quot;'' r then CHR 0x22 # html_read (drop 5 r)
      else if prefix ''#39;'' r then CHR 0x27 # html_read (drop 4 r)
      else c # html_read r)"

lemma html_read_text: "html_read (html_text t) = t"
proof (induction t)
  case (Cons c t)
  have "html_text (c # t) = (case html_escaped c of None \<Rightarrow> [c] | Some e \<Rightarrow> e) @ html_text t"
    by (simp add: html_text_def)
  then show ?case using Cons by (simp add: html_escaped_def)
qed (simp add: html_text_def)

lemma html_text_plain: "x \<in> set (html_text t) \<Longrightarrow> x \<notin> {CHR ''<'', CHR ''>'', CHR 0x22, CHR 0x27}"
  by (auto simp: html_text_def html_escaped_def split: if_splits)

context allocator_laws
begin

lemma escape_spec:
  assumes ready: "ready s h" and call: "html_escape_append s h v = (ok, s', h')"
  shows "ready s' h' \<and> (ok \<longrightarrow> string_content s' = string_content s @ html_text (sv_bytes v))"
proof -
  let ?f = "\<lambda>c. case html_escaped c of None \<Rightarrow> Append (View [c]) | Some t \<Rightarrow> Append (sv t)"
  have "\<forall>p\<in>set (map ?f (sv_bytes v)). piece_ok p" by (auto split: option.splits)
  moreover have "pieces_text (map ?f bs) = html_text bs" for bs
    by (induction bs) (auto simp: html_text_def sv_def split: option.splits)
  ultimately show ?thesis using emit_spec [OF ready _ call [unfolded html_escape_append_def]] by simp
qed

end

section \<open>The properties\<close>

text \<open>C27: response headers cannot be split. Every operation that writes response headers keeps the
  invariant that there are at most 32 of them, each with a non-empty name, and no carriage return or
  line feed in any name or value; and it keeps the arena's invariant.\<close>

theorem response_headers_safe:
  assumes "arena_good m c" "headers_ok c"
  shows "(context_add_header m c name val = (ok1, c1) \<longrightarrow> arena_good m c1 \<and> headers_ok c1) \<and>
    (context_set_header m c name val = (ok2, c2) \<longrightarrow> arena_good m c2 \<and> headers_ok c2) \<and>
    (context_set_cookie m c name val options = (ok3, c3) \<longrightarrow> arena_good m c3 \<and> headers_ok c3) \<and>
    (context_delete_cookie m c name options = (ok4, c4) \<longrightarrow> arena_good m c4 \<and> headers_ok c4)"
proof (intro conjI impI)
  show "arena_good m c1" "headers_ok c1" if "context_add_header m c name val = (ok1, c1)"
    using add_header_ok [OF assms that] by blast+
  show "arena_good m c2" "headers_ok c2" if "context_set_header m c name val = (ok2, c2)"
    using set_header_ok [OF assms that] by blast+
  show "arena_good m c3" "headers_ok c3" if "context_set_cookie m c name val options = (ok3, c3)"
    using set_cookie_ok [OF assms that] by blast+
  show "arena_good m c4" "headers_ok c4" if "context_delete_cookie m c name options = (ok4, c4)"
    using set_cookie_ok [OF assms that [unfolded context_delete_cookie_def]] by blast+
qed

theorem response_headers_safe_witness:
  "headers_ok (snd (context_add_header demo_malloc demo_context (View ''X-Name'') (View (''a'' @ [CHR 0x0D]))))"
proof -
  obtain ok c1 where r: "context_add_header demo_malloc demo_context (View ''X-Name'') (View (''a'' @ [CHR 0x0D])) = (ok, c1)"
    by (metis surj_pair)
  have "headers_ok demo_context" by (simp add: headers_ok_def demo_context_def context_zero_def)
  from response_headers_safe [OF demo_context_good this, THEN conjunct1, THEN mp, OF r] show ?thesis
    unfolding r by simp
qed

text \<open>C28: what a cookie looks like. When \<open>context_set_cookie\<close> succeeds, the name is a token and exactly one
  \<open>Set-Cookie\<close> header has been appended, with the name, the value and the attributes that are set, in
  the order path, domain, age, \<open>HttpOnly\<close>, \<open>Secure\<close>, \<open>SameSite\<close>; when it fails no header has changed.\<close>

theorem context_set_cookie_correct:
  assumes "arena_good m c" "context_set_cookie m c name val options = (ok, c')"
  shows "if ok then cookie_token name \<and>
      response_headers c' = response_headers c @ [\<lparr>nv_name = View ''Set-Cookie'',
        nv_value = View (cookie_text (sv_bytes name) (sv_bytes val) options)\<rparr>]
    else response_headers c' = response_headers c"
proof (cases ok)
  case True
  then obtain a where "c' = c\<lparr>ctx_arena := a, response_headers := response_headers c @
      [\<lparr>nv_name = View ''Set-Cookie'', nv_value = View (cookie_text (sv_bytes name) (sv_bytes val) options)\<rparr>]\<rparr>"
    using set_cookie_spec [OF assms] by auto
  then show ?thesis using set_cookie_spec [OF assms] True by simp
next
  case False
  then obtain a where "c' = c\<lparr>ctx_arena := a\<rparr>" using set_cookie_spec [OF assms] by auto
  then show ?thesis using False by simp
qed

theorem context_set_cookie_correct_witness:
  "response_headers (snd (context_set_cookie demo_malloc demo_context (View ''a b'') (View ''1'') cookie_options_zero)) = []"
proof -
  obtain ok c' where r: "context_set_cookie demo_malloc demo_context (View ''a b'') (View ''1'') cookie_options_zero = (ok, c')"
    by (metis surj_pair)
  have "\<not> cookie_token (View ''a b'')"
    by (simp add: cookie_token_def cookie_token_char_def signed_char_def byte_def)
  then have "response_headers c' = response_headers demo_context"
    using context_set_cookie_correct [OF demo_context_good r] by (auto split: if_splits)
  then show ?thesis using r by (simp add: demo_context_def context_zero_def)
qed

text \<open>C29: cookies are read back. When the request's \<open>Cookie\<close> header is what a browser sends for a list of at
  most 64 cookies, whose names are tokens and whose values have no \<open>;\<close> and no white space at their ends,
  \<open>context_cookie\<close> returns the value of the first cookie with the wanted name, and nothing for other
  names.\<close>

theorem context_cookie_roundtrip:
  assumes "\<forall>p\<in>set ps. cookie_ok p" "length ps \<le> 64"
    and "request_header (ctx_request c) (sv ''Cookie'') = View (cookie_header ps)"
    and "\<not> cookies_parsed c" "ctx_cookies c = []" "context_cookie c (View name) = (r, c')"
  shows "sv_bytes r = lookup_bytes ps name \<and> map nv_bytes (ctx_cookies c') = ps"
proof -
  obtain ok cs where loop: "cookie_parse_loop [] (View (cookie_header ps)) = (ok, cs)" by fastforce
  have v: "views (View (cookie_header ps)) (cookie_header ps)" by simp
  note L = cookie_loop_spec [OF v loop, unfolded cookie_header_pairs [OF assms(1)], simplified]
  have ok: ok using L assms(2) by (auto simp: CEASY_MAX_REQUEST_COOKIES_def split: if_splits)
  then have "cookie_parse c = (True, c\<lparr>cookies_parsed := True, cookie_parse_ok := True, ctx_cookies := cs\<rparr>)"
    using loop assms(3-5) by (simp add: cookie_parse_def Let_def)
  then have r: "r = lookup_view cs (View name)" "ctx_cookies c' = cs"
    using assms(6) by (auto simp: context_cookie_def)
  show ?thesis using L ok lookup_view_bytes [of cs name] r by auto
qed

definition demo_cookies :: Context where
  "demo_cookies = context_zero\<lparr>ctx_request := request_zero\<lparr>req_headers :=
     [\<lparr>header_name = View ''Cookie'', header_value = View ''a=1; b=2''\<rparr>]\<rparr>\<rparr>"

theorem context_cookie_roundtrip_witness:
  "sv_bytes (fst (context_cookie demo_cookies (View ''b''))) = ''2''"
proof -
  obtain r c' where r: "context_cookie demo_cookies (View ''b'') = (r, c')" by (metis surj_pair)
  have ok: "\<forall>p\<in>set [(''a'', ''1''), (''b'', ''2'')]. cookie_ok p"
    by (simp add: cookie_ok_def cookie_token_char_def signed_char_def byte_def trimmed_def stringv_ascii_space_def)
  have "cookie_header [(''a'', ''1''), (''b'', ''2'')] = ''a=1; b=2''" by (simp add: cookie_header_def)
  then have hdr: "request_header (ctx_request demo_cookies) (sv ''Cookie'') = View (cookie_header [(''a'', ''1''), (''b'', ''2'')])"
    by (simp add: demo_cookies_def context_zero_def request_zero_def request_header_def view_simps)
  have "length [(''a'', ''1''), (''b'', ''2'')] \<le> 64" "\<not> cookies_parsed demo_cookies" "ctx_cookies demo_cookies = []"
    by (simp_all add: demo_cookies_def context_zero_def)
  from context_cookie_roundtrip [OF ok this(1) hdr this(2,3) r] r show ?thesis by (simp add: lookup_bytes_def)
qed

text \<open>C30: escaping. When \<open>html_escape_append\<close> succeeds on a string of the request's arena, it has appended a
  text without \<open><\<close>, \<open>>\<close> and quotes, from which a browser reads back exactly the bytes of the view.\<close>

theorem html_escape_append_correct:
  assumes "malloc_spec m" "arena_inv A" "string_ok s" "string_allocator s = arena_allocator m"
    and "html_escape_append s A v = (True, s', A')"
  shows "\<exists>t. string_content s' = string_content s @ t \<and> html_read t = sv_bytes v \<and>
    (\<forall>x\<in>set t. x \<notin> {CHR ''<'', CHR ''>'', CHR 0x22, CHR 0x27}) \<and> string_ok s' \<and> arena_inv A'"
proof -
  have ready: "arena_provider.ready m s A" unfolding arena_provider.ready_def using assms by blast
  from arena_provider.escape_spec [OF ready assms(5)] show ?thesis
    using html_read_text html_text_plain unfolding arena_provider.ready_def by blast
qed

lemma demo_escape:
  "html_escape_append (string_new (arena_allocator demo_malloc)) demo_arena (View ''<'') =
     (True, \<lparr>string_data = Some (''&lt;'' @ CHR 0x00 # replicate 12 (CHR 0x00)), string_length = 4, string_capacity = 16,
       string_allocator = arena_allocator demo_malloc\<rparr>, demo_arena_at 17 1)"
proof -
  have alloc: "arena_alloc demo_malloc demo_arena 17 = (Some (1, 0), demo_arena_at 17 1)"
    by (simp add: arena_eval demo_arena_at_def demo_arena_def demo_block_def arena_init_def arena_zero_def
        demo_malloc_def)
  have load: "arena_load (demo_arena_at 17 (Suc 0)) (Suc 0, 0) 17 = replicate 17 (CHR 0x00)"
    by (simp add: arena_load_def chain_at_def demo_arena_at_def demo_block_def)
  show ?thesis
    by (simp add: html_escape_append_def html_escaped_def string_append_piece_def sv_def
        string_append_def string_reserve_def string_new_buffer_def string_grow.simps
        source_valid_def source_length_def source_bytes_def string_storage_offset_def
        string_rebase_view_def string_put_def mem_write_def sz_sub_def Let_def SIZE_MAX_def
        string_new_def arena_allocator_def arena_realloc_def arena_allocator_alloc_def alloc load
        stringv_valid_def)
qed

theorem html_escape_append_correct_witness:
  "\<exists>s' A'. html_escape_append (string_new (arena_allocator demo_malloc)) demo_arena (View ''<'') = (True, s', A') \<and>
     html_read (string_content s') = ''<''"
  using html_escape_append_correct [OF demo_malloc_spec demo_arena_inv _ _ demo_escape] demo_escape
  by (auto intro!: exI)

end
