(* ===== verification/Router.thy ===== *)
theory Router
  imports Context
begin

text \<open>
  The router of \<open>src/src/routing/router.c\<close>: the table of routes, matching of a path against a pattern
  with parameters, the choice of the best route and the dispatch to its guard and handler.

  A C string is the bytes behind its pointer (\<open>None\<close> is \<open>NULL\<close>). Handlers and guards are functions of the
  application; they act on the context and on the rest of the program's state \<open>'w\<close>, and \<open>None\<close> as their
  result means that they do not return. The arrays of the code with their counts are lists.
\<close>

type_synonym 'w RouteHandler = "Context \<Rightarrow> 'w \<Rightarrow> (Context \<times> 'w) option"
type_synonym 'w RouteGuard = "Context \<Rightarrow> 'w \<Rightarrow> (bool \<times> Context \<times> 'w) option"

record 'w RouterRoute =
  route_path :: "char list option"
  route_method :: HttpMethod
  route_handler :: "'w RouteHandler option"
  route_guard :: "'w RouteGuard option"

record 'w Router =
  routes :: "'w RouterRoute list"

definition ROUTER_MAX_ROUTES :: nat where "ROUTER_MAX_ROUTES = 128"

datatype RouterResult = ROUTER_NOT_FOUND | ROUTER_METHOD_NOT_ALLOWED | ROUTER_DISPATCHED

section \<open>Matching\<close>

definition router_valid_path :: "char list option \<Rightarrow> bool" where
  "router_valid_path path = (case path of None \<Rightarrow> False | Some s \<Rightarrow> s \<noteq> [] \<and> s ! 0 = CHR ''/'')"

text \<open>The segment behind the cursor and the cursor behind the segment.\<close>

definition router_next_segment :: "StringView \<Rightarrow> size_t \<Rightarrow> (StringView \<times> size_t) option" where
  "router_next_segment path cursor =
     (let start = (if cursor < sv_length path \<and> sv_bytes path ! cursor = CHR ''/'' then cursor + 1 else cursor)
      in if start \<ge> sv_length path then None
         else let relative_end = (case stringv_find_char (stringv_from path start) (CHR ''/'') of
                    Some e \<Rightarrow> e | None \<Rightarrow> sv_length path - start)
              in Some (stringv_slice path start relative_end, start + relative_end))"

lemma router_next_segment_advances:
  "router_next_segment path cursor = Some (segment, cursor') \<Longrightarrow> cursor < cursor' \<and> cursor < sv_length path"
  by (auto simp: router_next_segment_def Let_def stringv_find_char_def stringv_from_def stringv_slice_def
      stringv_valid_def sv_zero_def loop_simps split: if_splits option.splits StringView.splits)
    (metis add.right_neutral gr0I)+

text \<open>The loop of \<open>router_path_matches\<close>; \<open>None\<close> is its \<open>return false\<close>, otherwise the cursors and counts it ends
  with. The pattern's segment is taken before the path's, also when the path has none left.\<close>

function router_match_loop ::
    "StringView \<Rightarrow> StringView \<Rightarrow> size_t \<Rightarrow> size_t \<Rightarrow> nat \<Rightarrow> RouteParam list \<Rightarrow>
     (size_t \<times> size_t \<times> nat \<times> RouteParam list) option" where
  "router_match_loop pattern path pattern_cursor path_cursor static_count params =
     (case router_next_segment pattern pattern_cursor of
        None \<Rightarrow> Some (pattern_cursor, path_cursor, static_count, params)
      | Some (pattern_segment, pattern_cursor') \<Rightarrow>
          (case router_next_segment path path_cursor of
             None \<Rightarrow> Some (pattern_cursor', path_cursor, static_count, params)
           | Some (path_segment, path_cursor') \<Rightarrow>
               if sv_length pattern_segment > 0 \<and> sv_bytes pattern_segment ! 0 = CHR '':'' then
                 if sv_length path_segment = 0 \<or> sv_length pattern_segment = 1 \<or>
                    length params \<ge> CEASY_MAX_ROUTE_PARAMS then None
                 else router_match_loop pattern path pattern_cursor' path_cursor' static_count
                        (params @ [\<lparr>nv_name = stringv_from pattern_segment 1, nv_value = path_segment\<rparr>])
               else if \<not> stringv_equal pattern_segment path_segment then None
               else router_match_loop pattern path pattern_cursor' path_cursor' (static_count + 1) params))"
  by pat_completeness auto
termination
  by (relation "measure (\<lambda>(pattern, _, pattern_cursor, _). sv_length pattern - pattern_cursor)")
     (auto dest!: router_next_segment_advances)

declare router_match_loop.simps [simp del]

text \<open>Static segments and parameters of a match, \<open>None\<close> where the code returns \<open>false\<close>.\<close>

definition router_path_matches :: "char list option \<Rightarrow> char list option \<Rightarrow> (nat \<times> RouteParam list) option" where
  "router_path_matches pattern_cstr path_cstr =
     (let pattern = stringv_from_cstr pattern_cstr; path = stringv_from_cstr path_cstr
      in if \<not> router_valid_path pattern_cstr \<or> \<not> router_valid_path path_cstr then None
         else if stringv_equal pattern (sv ''/'') \<or> stringv_equal path (sv ''/'') then
           (if stringv_equal pattern (sv ''/'') \<and> stringv_equal path (sv ''/'') then Some (0, []) else None)
         else case router_match_loop pattern path 0 0 0 [] of
             None \<Rightarrow> None
           | Some (pattern_cursor, path_cursor, static_count, params) \<Rightarrow>
               if pattern_cursor \<noteq> sv_length pattern \<or> path_cursor \<noteq> sv_length path then None
               else Some (static_count, params))"

text \<open>One step of the loop of \<open>router_find\<close>: the best route so far with its static count and parameters.\<close>

definition router_better ::
    "HttpMethod \<Rightarrow> char list option \<Rightarrow> ('w RouterRoute \<times> nat \<times> RouteParam list) option \<Rightarrow> 'w RouterRoute \<Rightarrow>
     ('w RouterRoute \<times> nat \<times> RouteParam list) option" where
  "router_better meth path best route =
     (if route_method route \<noteq> meth then best
      else case router_path_matches (route_path route) path of
          None \<Rightarrow> best
        | Some (static_count, params) \<Rightarrow>
            (case best of
               None \<Rightarrow> Some (route, static_count, params)
             | Some (_, best_static_count, _) \<Rightarrow>
                 if static_count > best_static_count then Some (route, static_count, params) else best))"

definition router_find ::
    "'w Router \<Rightarrow> HttpMethod \<Rightarrow> char list option \<Rightarrow> ('w RouterRoute \<times> RouteParam list) option" where
  "router_find router meth path =
     map_option (\<lambda>(route, _, params). (route, params)) (foldl (router_better meth path) None (routes router))"

section \<open>The table\<close>

definition router_init :: "'w Router" where
  "router_init = \<lparr>routes = []\<rparr>"

definition router_reset :: "'w Router" where
  "router_reset = router_init"

text \<open>The default router with its static flag \<open>initialized\<close>.\<close>

record 'w RouterStatic =
  default_router :: "'w Router"
  initialized :: bool

definition router_default :: "'w RouterStatic \<Rightarrow> 'w RouterStatic" where
  "router_default s = (if \<not> initialized s then \<lparr>default_router = router_init, initialized = True\<rparr> else s)"

definition router_add_guarded ::
    "'w Router \<Rightarrow> HttpMethod \<Rightarrow> char list option \<Rightarrow> 'w RouteGuard option \<Rightarrow> 'w RouteHandler option \<Rightarrow>
     bool \<times> 'w Router" where
  "router_add_guarded router meth path guard handler =
     (if meth = HTTP_METHOD_UNKNOWN \<or> \<not> router_valid_path path \<or> handler = None \<or>
         length (routes router) \<ge> ROUTER_MAX_ROUTES
      then (False, router)
      else (True, router\<lparr>routes := routes router @
              [\<lparr>route_path = path, route_method = meth, route_handler = handler, route_guard = guard\<rparr>]\<rparr>))"

definition router_add ::
    "'w Router \<Rightarrow> HttpMethod \<Rightarrow> char list option \<Rightarrow> 'w RouteHandler option \<Rightarrow> bool \<times> 'w Router" where
  "router_add router meth path handler = router_add_guarded router meth path None handler"

definition router_route_get where
  "router_route_get router path handler = router_add router HTTP_METHOD_GET path handler"

definition router_route_post where
  "router_route_post router path handler = router_add router HTTP_METHOD_POST path handler"

definition router_route_patch where
  "router_route_patch router path handler = router_add router HTTP_METHOD_PATCH path handler"

definition router_route_delete where
  "router_route_delete router path handler = router_add router HTTP_METHOD_DELETE path handler"

definition router_route_get_guarded where
  "router_route_get_guarded router path guard handler = router_add_guarded router HTTP_METHOD_GET path guard handler"

definition router_route_post_guarded where
  "router_route_post_guarded router path guard handler = router_add_guarded router HTTP_METHOD_POST path guard handler"

definition router_route_patch_guarded where
  "router_route_patch_guarded router path guard handler = router_add_guarded router HTTP_METHOD_PATCH path guard handler"

definition router_route_delete_guarded where
  "router_route_delete_guarded router path guard handler =
     router_add_guarded router HTTP_METHOD_DELETE path guard handler"

text \<open>The same on the default router.\<close>

definition on_default :: "('w Router \<Rightarrow> bool \<times> 'w Router) \<Rightarrow> 'w RouterStatic \<Rightarrow> bool \<times> 'w RouterStatic" where
  "on_default add s = (let s1 = router_default s; (ok, router) = add (default_router s1)
     in (ok, s1\<lparr>default_router := router\<rparr>))"

definition router_default_route_get where
  "router_default_route_get s path handler = on_default (\<lambda>router. router_route_get router path handler) s"

definition router_default_route_post where
  "router_default_route_post s path handler = on_default (\<lambda>router. router_route_post router path handler) s"

definition router_default_route_patch where
  "router_default_route_patch s path handler = on_default (\<lambda>router. router_route_patch router path handler) s"

definition router_default_route_delete where
  "router_default_route_delete s path handler = on_default (\<lambda>router. router_route_delete router path handler) s"

section \<open>Dispatch\<close>

definition router_path_exists :: "'w Router \<Rightarrow> char list option \<Rightarrow> bool" where
  "router_path_exists router path \<longleftrightarrow>
     path \<noteq> None \<and> list_ex (\<lambda>route. router_path_matches (route_path route) path \<noteq> None) (routes router)"

text \<open>The guard, when there is one, and the handler when the guard lets the request pass. Calling \<open>NULL\<close>
  does not return; \<open>router_add_guarded\<close> rejects it.\<close>

definition router_run :: "'w RouterRoute \<Rightarrow> Context \<Rightarrow> 'w \<Rightarrow> (Context \<times> 'w) option" where
  "router_run route context w =
     (case (case route_guard route of None \<Rightarrow> Some (True, context, w) | Some guard \<Rightarrow> guard context w) of
        None \<Rightarrow> None
      | Some (passed, context1, w1) \<Rightarrow>
          if passed then (case route_handler route of None \<Rightarrow> None | Some handler \<Rightarrow> handler context1 w1)
          else Some (context1, w1))"

definition router_dispatch ::
    "'w Router \<Rightarrow> char list option \<Rightarrow> char list option \<Rightarrow> Context \<Rightarrow> 'w \<Rightarrow> (RouterResult \<times> Context \<times> 'w) option" where
  "router_dispatch router meth path context w =
     (if meth = None \<or> path = None then Some (ROUTER_NOT_FOUND, context, w)
      else
        (let context1 = context\<lparr>route_params := [],
               ctx_request := (ctx_request context)\<lparr>req_path := stringv_from_cstr path\<rparr>\<rparr>
         in case router_find router (http_method_parse_cstr meth) path of
              Some (route, params) \<Rightarrow>
                map_option (Pair ROUTER_DISPATCHED) (router_run route (context1\<lparr>route_params := params\<rparr>) w)
            | None \<Rightarrow>
                if router_path_exists router path then Some (ROUTER_METHOD_NOT_ALLOWED, context1, w)
                else Some (ROUTER_NOT_FOUND, context1, w)))"

end
