(* ===== verification/RouterLaws.thy ===== *)
theory RouterLaws
  imports Router ContextLaws
begin

text \<open>
  What the router promises: exactly which paths match a pattern and with which parameters, and which
  route a dispatch runs.
\<close>

section \<open>Segments\<close>

text \<open>The pieces of a text between the occurrences of a character; there is always one more piece than
  there are occurrences.\<close>

fun pieces_at :: "char \<Rightarrow> char list \<Rightarrow> char list list" where
  "pieces_at c [] = [[]]"
| "pieces_at c (x # xs) =
     (if x = c then [] # pieces_at c xs
      else case pieces_at c xs of p # ps \<Rightarrow> (x # p) # ps | [] \<Rightarrow> [[x]])"

definition slashed :: "char list list \<Rightarrow> char list" where
  "slashed ss = concat (map (Cons (CHR ''/'')) ss)"

lemma slashed_simps [simp]: "slashed [] = []" "slashed (s # ss) = CHR ''/'' # s @ slashed ss"
  by (simp_all add: slashed_def)

lemma slashed_empty [simp]: "slashed ss = [] \<longleftrightarrow> ss = []"
  by (cases ss) auto

lemma slashed_pieces: "slashed (pieces_at (CHR ''/'') s) = CHR ''/'' # s"
  by (induction s) (auto split: list.splits)

lemma pieces_free: "\<forall>p\<in>set (pieces_at c s). c \<notin> set p"
  by (induction s) (auto split: list.splits)

lemma pieces_nonempty [simp]: "pieces_at c s \<noteq> []"
  by (induction s) (auto split: list.splits)

lemma pieces_first: "c \<notin> set a \<Longrightarrow> pieces_at c (a @ c # b) = a # pieces_at c b"
  by (induction a) auto

lemma pieces_last: "c \<notin> set a \<Longrightarrow> pieces_at c a = [a]"
  by (induction a) auto

lemma pieces_single: "pieces_at c s = [[]] \<longleftrightarrow> s = []"
  by (cases s) (auto split: list.splits)

text \<open>Taking a segment at a cursor behind which \<open>slashed ss\<close> is left.\<close>

lemma find_char_append:
  "c \<notin> set s \<Longrightarrow> stringv_find_char (View (s @ c # r)) c = Some (length s)"
  by (auto simp: stringv_find_char_def stringv_valid_def loop_simps nth_append)

lemma find_char_absent: "c \<notin> set s \<Longrightarrow> stringv_find_char (View s) c = None"
  by (auto simp: stringv_find_char_def stringv_valid_def loop_simps)

lemma next_segment_slashed:
  assumes rest: "drop cursor P = slashed ss" and free: "\<forall>s\<in>set ss. CHR ''/'' \<notin> set s"
  shows "router_next_segment (View P) cursor =
    (case ss of [] \<Rightarrow> None
     | s # ss' \<Rightarrow> if ss = [[]] then None else Some (View s, cursor + 1 + length s))"
proof (cases ss)
  case Nil
  then show ?thesis using rest by (simp add: router_next_segment_def)
next
  case (Cons s ss')
  have len: "cursor < length P" using rest Cons by (metis drop_eq_Nil linorder_not_le list.distinct(1) slashed_simps(2))
  have at: "P ! cursor = CHR ''/''" using rest Cons len by (metis Cons_nth_drop_Suc list.inject slashed_simps(2))
  have tail: "drop (Suc cursor) P = s @ slashed ss'" using rest Cons len
    by (metis Cons_nth_drop_Suc list.inject slashed_simps(2))
  have tail_len: "length P - Suc cursor = length (s @ slashed ss')" using tail by (metis length_drop)
  have from_cursor: "stringv_from (View P) (Suc cursor) = View (s @ slashed ss')" using len tail
    by (simp add: stringv_from_def stringv_slice_def stringv_valid_def flip: tail)
  show ?thesis
  proof (cases "ss = [[]]")
    case True
    then show ?thesis using Cons len at tail_len by (simp add: router_next_segment_def)
  next
    case False
    have more: "Suc cursor < length P" using False Cons tail_len by (cases s; cases ss') auto
    have cut: "(case stringv_find_char (View (s @ slashed ss')) (CHR ''/'') of
        Some e \<Rightarrow> e | None \<Rightarrow> sv_length (View P) - Suc cursor) = length s"
    proof (cases ss')
      case Nil
      then show ?thesis using free Cons tail_len by (simp add: find_char_absent)
    next
      case (Cons u us)
      then show ?thesis using free \<open>ss = s # ss'\<close> by (simp add: find_char_append)
    qed
    show ?thesis using False Cons len at more cut
      by (simp add: router_next_segment_def from_cursor stringv_slice_def stringv_valid_def tail tail_len Let_def)
  qed
qed

section \<open>The match of two lists of segments\<close>

definition is_param :: "char list \<Rightarrow> bool" where
  "is_param s \<longleftrightarrow> take 1 s = '':''"

text \<open>A parameter with a name takes any segment that is not empty; another segment only itself.\<close>

definition segment_ok :: "char list \<Rightarrow> char list \<Rightarrow> bool" where
  "segment_ok p q \<longleftrightarrow> (if is_param p then 2 \<le> length p \<and> q \<noteq> [] else p = q)"

definition bound_params :: "(char list \<times> char list) list \<Rightarrow> RouteParam list" where
  "bound_params zs = map (\<lambda>(p, q). \<lparr>nv_name = View (tl p), nv_value = View q\<rparr>) (filter (is_param \<circ> fst) zs)"

definition static_segments :: "(char list \<times> char list) list \<Rightarrow> nat" where
  "static_segments zs = length (filter (Not \<circ> is_param \<circ> fst) zs)"

definition segments_match :: "char list list \<Rightarrow> char list list \<Rightarrow> bool" where
  "segments_match ps qs \<longleftrightarrow>
     (length ps = length qs \<or> length ps = Suc (length qs)) \<and>
     (ps \<noteq> [] \<longrightarrow> last ps \<noteq> []) \<and> (qs \<noteq> [] \<longrightarrow> last qs \<noteq> []) \<and>
     (\<forall>(p, q)\<in>set (zip ps qs). segment_ok p q)"

lemma bound_params_simps [simp]:
  "bound_params [] = []"
  "bound_params ((p, q) # zs) =
     (if is_param p then \<lparr>nv_name = View (tl p), nv_value = View q\<rparr> # bound_params zs else bound_params zs)"
  by (simp_all add: bound_params_def)

lemma static_segments_simps [simp]:
  "static_segments [] = 0"
  "static_segments ((p, q) # zs) = (if is_param p then static_segments zs else Suc (static_segments zs))"
  by (simp_all add: static_segments_def)

lemma segments_match_Cons:
  "segments_match (p # ps) (q # qs) \<longleftrightarrow>
     p # ps \<noteq> [[]] \<and> q # qs \<noteq> [[]] \<and> segment_ok p q \<and> segments_match ps qs"
  by (cases ps; cases qs) (auto simp: segments_match_def)

lemma segments_match_end:
  "segments_match [] qs \<longleftrightarrow> qs = []" "segments_match (p # ps) [] \<longleftrightarrow> ps = [] \<and> p \<noteq> []"
  by (auto simp: segments_match_def)

lemma stringv_equal_View [simp]: "stringv_equal (View a) (View b) \<longleftrightarrow> a = b"
  by (auto simp: view_simps)

lemma match_loop_spec:
  assumes "drop pc P = slashed ps" "drop qc Q = slashed qs" "length params \<le> 16" "pc \<le> length P" "qc \<le> length Q"
    and "\<forall>s\<in>set ps. CHR ''/'' \<notin> set s" "\<forall>s\<in>set qs. CHR ''/'' \<notin> set s"
  shows "(case router_match_loop (View P) (View Q) pc qc n params of
      None \<Rightarrow> None
    | Some (pc', qc', n', params') \<Rightarrow> if pc' \<noteq> length P \<or> qc' \<noteq> length Q then None else Some (n', params')) =
    (if segments_match ps qs \<and> length params + length (bound_params (zip ps qs)) \<le> 16
     then Some (n + static_segments (zip ps qs), params @ bound_params (zip ps qs)) else None)"
  using assms
proof (induction ps arbitrary: qs pc qc n params)
  case Nil
  have "pc = length P" using Nil.prems by simp
  moreover have "qc = length Q \<longleftrightarrow> qs = []" using Nil.prems by (metis drop_eq_Nil le_antisym order_refl slashed_empty)
  ultimately show ?case using Nil.prems next_segment_slashed [OF Nil.prems(1) Nil.prems(6)]
    by (subst router_match_loop.simps) (auto simp: segments_match_end)
next
  case (Cons p ps)
  note P = next_segment_slashed [OF Cons.prems(1,6)] and Q = next_segment_slashed [OF Cons.prems(2,7)]
  have pcl: "pc < length P" using Cons.prems(1) by (metis drop_eq_Nil linorder_not_le slashed_empty list.distinct(1))
  have dropP: "drop (Suc (pc + length p)) P = slashed ps"
    using arg_cong [OF Cons.prems(1), of "drop (1 + length p)"] by (simp add: drop_drop add.commute)
  have lenP: "Suc (pc + length p) \<le> length P"
    using arg_cong [OF Cons.prems(1), of length] pcl by simp
  show ?case
  proof (cases "p # ps = [[]]")
    case True
    then show ?thesis using P pcl
      by (subst router_match_loop.simps) (cases qs; auto simp: segments_match_def)
  next
    case pattern: False
    show ?thesis
    proof (cases "qs = [] \<or> qs = [[]]")
      case True
      have "ps = [] \<longleftrightarrow> Suc (pc + length p) = length P" using dropP lenP
        by (metis drop_eq_Nil le_antisym order_refl slashed_empty)
      moreover have "qs = [] \<longleftrightarrow> qc = length Q" using Cons.prems(2,5)
        by (metis drop_eq_Nil le_antisym order_refl slashed_empty)
      ultimately show ?thesis using P Q True pattern Cons.prems(3)
        by (subst router_match_loop.simps) (auto simp: segments_match_end segments_match_Cons)
    next
      case False
      then obtain q qs' where qs: "qs = q # qs'" "q # qs' \<noteq> [[]]" by (metis list.exhaust)
      have qcl: "qc < length Q" using Cons.prems(2) qs by (metis drop_eq_Nil linorder_not_le slashed_empty list.distinct(1))
      have dropQ: "drop (Suc (qc + length q)) Q = slashed qs'"
        using arg_cong [OF Cons.prems(2), of "drop (1 + length q)"] qs by (simp add: drop_drop add.commute)
      have lenQ: "Suc (qc + length q) \<le> length Q"
        using arg_cong [OF Cons.prems(2), of length] qcl qs by simp
      note step = Cons.IH [OF dropP dropQ _ lenP lenQ]
      have param: "p \<noteq> [] \<and> p ! 0 = CHR '':'' \<longleftrightarrow> is_param p"
        by (cases p) (auto simp: is_param_def)
      have next1: "router_next_segment (View P) pc = Some (View p, pc + 1 + length p)" using P pattern by simp
      have next2: "router_next_segment (View Q) qc = Some (View q, qc + 1 + length q)" using Q qs by simp
      have name: "is_param p \<Longrightarrow> stringv_from (View p) (Suc 0) = View (tl p)"
        by (cases p) (auto simp: is_param_def stringv_from_def stringv_slice_def stringv_valid_def)
      show ?thesis
      proof (cases "is_param p")
        case True
        have one: "length p = 1 \<longleftrightarrow> \<not> 2 \<le> length p" using True by (cases p) (auto simp: is_param_def Suc_le_eq)
        have "(q = [] \<or> length p = 1 \<or> length params \<ge> 16) \<or>
          (q \<noteq> [] \<and> 2 \<le> length p \<and> length (params @ [\<lparr>nv_name = View (tl p), nv_value = View q\<rparr>]) \<le> 16)"
          using one by auto
        then show ?thesis
        proof
          assume "q = [] \<or> length p = 1 \<or> length params \<ge> 16"
          then show ?thesis using True one pattern qs
            by (subst router_match_loop.simps)
               (use param in \<open>auto simp: next1 next2 segments_match_Cons segment_ok_def CEASY_MAX_ROUTE_PARAMS_def\<close>)
        next
          assume "q \<noteq> [] \<and> 2 \<le> length p \<and> length (params @ [\<lparr>nv_name = View (tl p), nv_value = View q\<rparr>]) \<le> 16"
          then show ?thesis using True one pattern qs Cons.prems(6,7)
            by (subst router_match_loop.simps)
               (use param in \<open>simp add: next1 next2 name step segments_match_Cons segment_ok_def CEASY_MAX_ROUTE_PARAMS_def\<close>)
        qed
      next
        case False
        note static = False
        show ?thesis
        proof (cases "p = q")
          case True
          then show ?thesis using static param pattern qs Cons.prems(3,6,7) step [where n = "Suc n" and params = params]
            by (subst router_match_loop.simps)
               (auto simp: next1 next2 segments_match_Cons segment_ok_def split: option.splits)
        next
          case False
          then show ?thesis using static param pattern qs
            by (subst router_match_loop.simps) (auto simp: next1 next2 segments_match_Cons segment_ok_def)
        qed
      qed
    qed
  qed
qed

section \<open>The best route\<close>

definition route_matches :: "'w RouterRoute \<Rightarrow> HttpMethod \<Rightarrow> char list \<Rightarrow> nat \<Rightarrow> RouteParam list \<Rightarrow> bool" where
  "route_matches route meth path n params \<longleftrightarrow>
     route_method route = meth \<and> router_path_matches (route_path route) (Some path) = Some (n, params)"

text \<open>The route at index \<open>i\<close> has the most static segments, and is the first of those that have as many.\<close>

definition best_route :: "'w RouterRoute list \<Rightarrow> HttpMethod \<Rightarrow> char list \<Rightarrow> nat \<Rightarrow> nat \<Rightarrow> RouteParam list \<Rightarrow> bool" where
  "best_route rs meth path i n params \<longleftrightarrow> i < length rs \<and> route_matches (rs ! i) meth path n params \<and>
     (\<forall>j<length rs. \<forall>n' params'. route_matches (rs ! j) meth path n' params' \<longrightarrow> n' \<le> n \<and> (j < i \<longrightarrow> n' < n))"

lemma best_route_unique:
  assumes a: "best_route rs meth path i n params" and b: "best_route rs meth path j n' params'"
  shows "i = j \<and> n = n' \<and> params = params'"
proof -
  have "n' \<le> n" "j < i \<longrightarrow> n' < n" "n \<le> n'" "i < j \<longrightarrow> n < n'"
    using a b unfolding best_route_def by blast+
  then have "i = j" by linarith
  then show ?thesis using a b by (auto simp: best_route_def route_matches_def)
qed

lemma better_take:
  "route_matches route meth path n' params' \<Longrightarrow> (\<And>r n params. best = Some (r, n, params) \<Longrightarrow> n < n') \<Longrightarrow>
   router_better meth (Some path) best route = Some (route, n', params')"
  by (cases best) (auto simp: router_better_def route_matches_def)

lemma better_keep:
  "(\<And>n' params'. route_matches route meth path n' params' \<Longrightarrow> \<exists>r n params. best = Some (r, n, params) \<and> n' \<le> n) \<Longrightarrow>
   router_better meth (Some path) best route = best"
  by (auto simp: router_better_def route_matches_def split: option.splits)

lemma find_loop:
  "case foldl (router_better meth (Some path)) None rs of
     None \<Rightarrow> \<forall>route\<in>set rs. \<forall>n params. \<not> route_matches route meth path n params
   | Some (route, n, params) \<Rightarrow> \<exists>i. rs ! i = route \<and> best_route rs meth path i n params"
proof (induction rs rule: rev_induct)
  case Nil
  then show ?case by simp
next
  case (snoc route rs)
  let ?before = "foldl (router_better meth (Some path)) None rs"
  show ?case
  proof (cases "?before")
    case None
    show ?thesis
    proof (cases "\<exists>n params. route_matches route meth path n params")
      case True
      then obtain n params where rm: "route_matches route meth path n params" by blast
      have "best_route (rs @ [route]) meth path (length rs) n params"
        using rm snoc.IH None by (auto simp: best_route_def route_matches_def nth_append less_Suc_eq)
      moreover have "foldl (router_better meth (Some path)) None (rs @ [route]) = Some (route, n, params)"
        using better_take [OF rm, of ?before] None by simp
      ultimately show ?thesis by (auto intro!: exI [of _ "length rs"])
    next
      case False
      then have "foldl (router_better meth (Some path)) None (rs @ [route]) = None"
        using better_keep [of route meth path ?before] None by simp
      then show ?thesis using None snoc.IH False by simp
    qed
  next
    case (Some b)
    obtain r n params where b: "b = (r, n, params)" by (metis surj_pair)
    obtain i where i: "rs ! i = r" "best_route rs meth path i n params" using snoc.IH Some b by auto
    show ?thesis
    proof (cases "\<exists>n' params'. route_matches route meth path n' params' \<and> n < n'")
      case True
      then obtain n' params' where rm: "route_matches route meth path n' params'" "n < n'" by blast
      have "best_route (rs @ [route]) meth path (length rs) n' params'"
        using rm i(2) by (fastforce simp: best_route_def route_matches_def nth_append less_Suc_eq)
      moreover have "foldl (router_better meth (Some path)) None (rs @ [route]) = Some (route, n', params')"
        using better_take [OF rm(1), of ?before] rm(2) Some b by simp
      ultimately show ?thesis by (auto intro!: exI [of _ "length rs"])
    next
      case False
      have "best_route (rs @ [route]) meth path i n params"
        using i(2) False unfolding best_route_def
        by (auto simp: nth_append less_Suc_eq not_less)
      moreover have "foldl (router_better meth (Some path)) None (rs @ [route]) = Some (r, n, params)"
        using better_keep [of route meth path "Some (r, n, params)"] False Some b
        by (fastforce simp: linorder_not_less)
      moreover have "(rs @ [route]) ! i = r" using i by (simp add: nth_append best_route_def)
      ultimately show ?thesis by auto
    qed
  qed
qed

lemma router_find_cases:
  obtains (found) i n params where "best_route (routes router) meth path i n params"
      "router_find router meth (Some path) = Some (routes router ! i, params)"
  | (none) "router_find router meth (Some path) = None"
      "\<forall>route\<in>set (routes router). \<forall>n params. \<not> route_matches route meth path n params"
proof (cases "foldl (router_better meth (Some path)) None (routes router)")
  case None
  then show thesis using find_loop [where meth = meth and path = path and rs = "routes router"] none by (simp add: router_find_def)
next
  case (Some b)
  obtain r n params where b: "b = (r, n, params)" by (metis surj_pair)
  then show thesis using find_loop [where meth = meth and path = path and rs = "routes router"] Some found by (auto simp: router_find_def)
qed

section \<open>Tables\<close>

text \<open>The tables the registration functions build.\<close>

inductive built :: "'w Router \<Rightarrow> bool" where
  init: "built router_init"
| add: "built router \<Longrightarrow> built (snd (router_add_guarded router meth path guard handler))"

lemma built_routes:
  "built router \<Longrightarrow> length (routes router) \<le> 128 \<and>
    (\<forall>route\<in>set (routes router). router_valid_path (route_path route) \<and> route_handler route \<noteq> None \<and>
       route_method route \<noteq> HTTP_METHOD_UNKNOWN)"
  by (induction rule: built.induct) (auto simp: router_init_def router_add_guarded_def ROUTER_MAX_ROUTES_def)

text \<open>Guards and handlers that return.\<close>

definition handlers_return :: "'w Router \<Rightarrow> bool" where
  "handlers_return router \<longleftrightarrow> (\<forall>route\<in>set (routes router).
     (\<forall>handler c w. route_handler route = Some handler \<longrightarrow> handler c w \<noteq> None) \<and>
     (\<forall>guard c w. route_guard route = Some guard \<longrightarrow> guard c w \<noteq> None))"

lemma router_run_returns:
  assumes "built router" "handlers_return router" "route \<in> set (routes router)"
  shows "router_run route c w \<noteq> None"
  using assms built_routes [OF assms(1)]
  by (fastforce simp: router_run_def handlers_return_def split: option.splits)

lemma router_dispatch_returns:
  assumes "built router" "handlers_return router"
  shows "router_dispatch router meth path c w \<noteq> None"
proof (cases "meth = None \<or> path = None")
  case True
  then show ?thesis by (auto simp: router_dispatch_def)
next
  case False
  then obtain m s where ms: "meth = Some m" "path = Some s" by auto
  show ?thesis
  proof (cases rule: router_find_cases [of router "http_method_parse_cstr meth" s])
    case (found i n params)
    then have "routes router ! i \<in> set (routes router)" by (simp add: best_route_def)
    then show ?thesis using found router_run_returns [OF assms]
      by (simp add: ms router_dispatch_def Let_def)
  next
    case none
    then show ?thesis by (simp add: ms router_dispatch_def Let_def)
  qed
qed

section \<open>Properties\<close>

lemma path_matches_spec:
  assumes "CHR 0x00 \<notin> set p" "CHR 0x00 \<notin> set q"
  shows "router_path_matches (Some (CHR ''/'' # p)) (Some (CHR ''/'' # q)) =
    (if p = [] \<or> q = [] then (if p = [] \<and> q = [] then Some (0, []) else None)
     else let ps = pieces_at (CHR ''/'') p; qs = pieces_at (CHR ''/'') q; zs = zip ps qs
       in if (length ps = length qs \<or> length ps = length qs + 1) \<and> last ps \<noteq> [] \<and> last qs \<noteq> [] \<and>
             (\<forall>(a, b)\<in>set zs. segment_ok a b) \<and> length (bound_params zs) \<le> 16
          then Some (static_segments zs, bound_params zs) else None)"
proof -
  have cstr: "stringv_from_cstr (Some (CHR ''/'' # s)) = View (CHR ''/'' # s)" if "CHR 0x00 \<notin> set s" for s
    using that by (simp add: stringv_from_cstr_def strlen_def)
  have free: "\<forall>s\<in>set (pieces_at (CHR ''/'') s). CHR ''/'' \<notin> set s" for s by (rule pieces_free)
  have loop: "(case router_match_loop (View (CHR ''/'' # p)) (View (CHR ''/'' # q)) 0 0 0 [] of
      None \<Rightarrow> None
    | Some (pc', qc', n', params') \<Rightarrow>
        if pc' \<noteq> length (CHR ''/'' # p) \<or> qc' \<noteq> length (CHR ''/'' # q) then None else Some (n', params')) =
    (let ps = pieces_at (CHR ''/'') p; qs = pieces_at (CHR ''/'') q; zs = zip ps qs
     in if segments_match ps qs \<and> length (bound_params zs) \<le> 16
        then Some (static_segments zs, bound_params zs) else None)"
    unfolding Let_def
    by (rule trans [OF match_loop_spec [where ps = "pieces_at (CHR ''/'') p" and qs = "pieces_at (CHR ''/'') q"]])
       (simp_all add: slashed_pieces free)
  have eq: "router_path_matches (Some (CHR ''/'' # p)) (Some (CHR ''/'' # q)) =
      (case router_match_loop (View (CHR ''/'' # p)) (View (CHR ''/'' # q)) 0 0 0 [] of
         None \<Rightarrow> None
       | Some (pc', qc', n', params') \<Rightarrow>
           if pc' \<noteq> length (CHR ''/'' # p) \<or> qc' \<noteq> length (CHR ''/'' # q) then None else Some (n', params'))"
    if "p \<noteq> []" "q \<noteq> []"
    using that by (cases "router_match_loop (View (CHR ''/'' # p)) (View (CHR ''/'' # q)) 0 0 0 []")
      (simp_all add: router_path_matches_def router_valid_path_def cstr assms sv_def Let_def split: prod.split)
  show ?thesis
  proof (cases "p = [] \<or> q = []")
    case True
    then show ?thesis
      by (auto simp: router_path_matches_def router_valid_path_def cstr assms sv_def Let_def)
  next
    case False
    then show ?thesis using eq loop by (simp add: segments_match_def Let_def)
  qed
qed

text \<open>C31: Exactly which paths match a pattern, with which static count and parameters. Segment for segment,
  a named parameter takes any segment that is not empty and another segment only itself; there are at
  most 16 parameters, a trailing slash on either side matches nothing, and only \<open>/\<close> matches \<open>/\<close>. The
  pattern may also be one segment longer than the path, whatever that last segment is: \<open>/posts/:id\<close>
  matches \<open>/posts\<close>, without a parameter.\<close>

theorem router_path_matches_exact:
  assumes "CHR 0x00 \<notin> set p" "CHR 0x00 \<notin> set q"
  shows "router_path_matches (Some (CHR ''/'' # p)) (Some (CHR ''/'' # q)) =
    (if p = [] \<or> q = [] then (if p = [] \<and> q = [] then Some (0, []) else None)
     else let ps = pieces_at (CHR ''/'') p; qs = pieces_at (CHR ''/'') q; zs = zip ps qs
       in if (length ps = length qs \<or> length ps = length qs + 1) \<and> last ps \<noteq> [] \<and> last qs \<noteq> [] \<and>
             (\<forall>(a, b)\<in>set zs. segment_ok a b) \<and> length (bound_params zs) \<le> 16
          then Some (static_segments zs, bound_params zs) else None)"
  using assms by (rule path_matches_spec)

theorem router_path_matches_exact_witness:
  "router_path_matches (Some ''/posts/:id'') (Some ''/posts/7'') =
     Some (1, [\<lparr>nv_name = View ''id'', nv_value = View ''7''\<rparr>]) \<and>
   router_path_matches (Some ''/posts/:id'') (Some ''/posts'') = Some (1, [])"
  by (simp add: router_path_matches_exact segment_ok_def is_param_def)

text \<open>C32: What a dispatch does, for a table the registration functions built whose guards and handlers
  return. Either a route of the request's method matches: then the first of those with the most static
  segments is run, guard first, on the context with exactly that route's parameters. Or only routes of
  other methods match (405), or none at all (404), and nothing runs.\<close>

theorem router_dispatch_correct:
  assumes "built router" "handlers_return router"
    and "context1 = context\<lparr>route_params := [],
      ctx_request := (ctx_request context)\<lparr>req_path := stringv_from_cstr (Some path)\<rparr>\<rparr>"
  shows "(\<exists>i n params context2 w2. best_route (routes router) (http_method_parse_cstr (Some meth)) path i n params \<and>
      router_run (routes router ! i) (context1\<lparr>route_params := params\<rparr>) w = Some (context2, w2) \<and>
      router_dispatch router (Some meth) (Some path) context w = Some (ROUTER_DISPATCHED, context2, w2)) \<or>
    (\<forall>route\<in>set (routes router). \<forall>n params. \<not> route_matches route (http_method_parse_cstr (Some meth)) path n params) \<and>
     router_dispatch router (Some meth) (Some path) context w =
       Some (if \<exists>route\<in>set (routes router). \<exists>other n params. route_matches route other path n params
             then ROUTER_METHOD_NOT_ALLOWED else ROUTER_NOT_FOUND, context1, w)"
proof (cases rule: router_find_cases [of router "http_method_parse_cstr (Some meth)" path])
  case (found i n params)
  then have "routes router ! i \<in> set (routes router)" by (simp add: best_route_def)
  then obtain context2 w2 where run: "router_run (routes router ! i) (context1\<lparr>route_params := params\<rparr>) w = Some (context2, w2)"
    using router_run_returns [OF assms(1,2)] by (metis not_Some_eq surj_pair)
  then have "router_dispatch router (Some meth) (Some path) context w = Some (ROUTER_DISPATCHED, context2, w2)"
    by (simp add: router_dispatch_def Let_def found(2) assms(3))
  then show ?thesis using found(1) run by blast
next
  case none
  have "router_path_exists router (Some path) \<longleftrightarrow>
      (\<exists>route\<in>set (routes router). \<exists>other n params. route_matches route other path n params)"
    by (auto simp: router_path_exists_def list_ex_iff route_matches_def)
  then show ?thesis using none by (simp add: router_dispatch_def Let_def assms(3))
qed

definition demo_handler :: "nat \<Rightarrow> nat RouteHandler" where
  "demo_handler k context w = Some (context, w + k)"

definition demo_router :: "nat Router" where
  "demo_router = snd (router_route_get (snd (router_route_get router_init (Some ''/posts/:id'')
     (Some (demo_handler 1)))) (Some ''/posts/new'') (Some (demo_handler 2)))"

lemma demo_routes: "routes demo_router =
   [\<lparr>route_path = Some ''/posts/:id'', route_method = HTTP_METHOD_GET, route_handler = Some (demo_handler 1), route_guard = None\<rparr>,
    \<lparr>route_path = Some ''/posts/new'', route_method = HTTP_METHOD_GET, route_handler = Some (demo_handler 2), route_guard = None\<rparr>]"
  by (simp add: demo_router_def router_route_get_def router_add_def router_add_guarded_def router_init_def
      ROUTER_MAX_ROUTES_def router_valid_path_def)

lemma demo_router_built: "built demo_router" "handlers_return demo_router"
  unfolding demo_router_def router_route_get_def router_add_def
  by (intro built.intros) (simp add: handlers_return_def demo_handler_def router_init_def router_add_guarded_def)

theorem router_dispatch_correct_witness:
  "router_dispatch demo_router (Some ''GET'') (Some ''/posts/new'') context_zero 0 =
     Some (ROUTER_DISPATCHED, context_zero\<lparr>ctx_request := request_zero\<lparr>req_path := View ''/posts/new''\<rparr>\<rparr>, 2)"
proof -
  have get: "http_method_parse_cstr (Some ''GET'') = HTTP_METHOD_GET"
    by (simp add: http_method_parse_cstr_def http_method_parse_def http_method_parse_view_def
        stringv_from_cstr_def strlen_def sv_def)
  have m0: "router_path_matches (Some ''/posts/:id'') (Some ''/posts/new'') =
      Some (1, [\<lparr>nv_name = View ''id'', nv_value = View ''new''\<rparr>])"
    by (simp add: path_matches_spec segment_ok_def is_param_def)
  have m1: "router_path_matches (Some ''/posts/new'') (Some ''/posts/new'') = Some (2, [])"
    by (simp add: path_matches_spec segment_ok_def is_param_def)
  have best: "i = 1 \<and> params = []" if "best_route (routes demo_router) HTTP_METHOD_GET ''/posts/new'' i n params" for i n params
  proof -
    have "best_route (routes demo_router) HTTP_METHOD_GET ''/posts/new'' 1 2 []"
      unfolding best_route_def demo_routes route_matches_def
      by (auto simp: less_Suc_eq m0 m1)
    then show ?thesis using best_route_unique that by metis
  qed
  have none: "\<not> (\<forall>route\<in>set (routes demo_router). \<forall>n params. \<not> route_matches route HTTP_METHOD_GET ''/posts/new'' n params)"
    by (simp add: demo_routes route_matches_def m0)
  let ?c = "context_zero\<lparr>route_params := [], ctx_request := (ctx_request context_zero)\<lparr>req_path := stringv_from_cstr (Some ''/posts/new'')\<rparr>\<rparr>"
  obtain i n params context2 w2 where
      chosen: "best_route (routes demo_router) HTTP_METHOD_GET ''/posts/new'' i n params"
    and ran: "router_run (routes demo_router ! i) (?c\<lparr>route_params := params\<rparr>) 0 = Some (context2, w2)"
    and result: "router_dispatch demo_router (Some ''GET'') (Some ''/posts/new'') context_zero 0 =
      Some (ROUTER_DISPATCHED, context2, w2)"
    using router_dispatch_correct [OF demo_router_built refl, of "''GET''" "''/posts/new''" context_zero 0] none
    unfolding get by blast
  have "router_run (routes demo_router ! 1) (?c\<lparr>route_params := []\<rparr>) 0 = Some (context2, w2)"
    using ran best [OF chosen] by simp
  then show ?thesis unfolding result
    by (simp add: demo_routes router_run_def demo_handler_def context_zero_def stringv_from_cstr_def strlen_def)
qed

end
