(* ===== verification/Session.thy ===== *)
theory Session
  imports Context
begin

unbundle bit_operations_syntax

text \<open>
  Sessions (\<open>src/src/session/session.c\<close>) and what the code builds on them: CSRF tokens
  (\<open>src/src/security/csrf.c\<close>), sign-in (\<open>src/src/auth/auth.c\<close>) and flash messages
  (\<open>src/src/flash/flash.c\<close>).

  A session is a string map in the context's arena, loaded on first use from the row of the cookie's
  digest and written back by \<open>session_commit\<close>. The map's insertion loop may not end on a map that is not
  well formed, so the operations return options, \<open>None\<close> for a call that does not return. The session map
  is only used with an arena present; without one the operations on it fail. \<open>m\<close> is \<open>malloc\<close>, \<open>E\<close> the
  outside and \<open>cfg\<close> the configuration.
\<close>

definition SESSION_MAX_BYTES :: nat where "SESSION_MAX_BYTES = 16 * 1024"
definition SESSION_TOKEN_BYTES :: nat where "SESSION_TOKEN_BYTES = 32"
definition UINT16_MAX :: nat where "UINT16_MAX = 65535"
definition UINT32_MAX :: nat where "UINT32_MAX = 4294967295"

section \<open>The map and the token\<close>

definition session_map_init :: "malloc_fn \<Rightarrow> Context \<Rightarrow> bool \<times> Context" where
  "session_map_init m c =
     (if allocator_alloc (map_allocator (session_values (ctx_session c))) \<noteq> None then (True, c)
      else (let (ok, M) = sm_init (session_values (ctx_session c)) (arena_allocator m)
            in (ok, c\<lparr>ctx_session := (ctx_session c)\<lparr>session_values := M\<rparr>\<rparr>)))"

text \<open>An operation on the session's map.\<close>

definition on_session_map ::
    "(Arena StringMap \<Rightarrow> Arena \<Rightarrow> (bool \<times> Arena StringMap \<times> Arena) option) \<Rightarrow> Context \<Rightarrow> (bool \<times> Context) option" where
  "on_session_map f c =
     (case ctx_arena c of
        None \<Rightarrow> Some (False, c)
      | Some A \<Rightarrow>
          (case f (session_values (ctx_session c)) A of
             None \<Rightarrow> None
           | Some (ok, M, A1) \<Rightarrow>
               Some (ok, c\<lparr>ctx_arena := Some A1, ctx_session := (ctx_session c)\<lparr>session_values := M\<rparr>\<rparr>)))"

definition session_digest :: "'w env \<Rightarrow> 'w \<Rightarrow> StringView \<Rightarrow> char list option \<times> 'w" where
  "session_digest E w token =
     (if \<not> (sv_has_data token \<and> sv_length token > 0) then (None, w)
      else case sodium_init E w of
        (False, w1) \<Rightarrow> (None, w1)
      | (True, w1) \<Rightarrow> (crypto_generichash E (sv_bytes token), w1))"

definition session_generate_token :: "'w env \<Rightarrow> malloc_fn \<Rightarrow> Context \<Rightarrow> 'w \<Rightarrow> bool \<times> Context \<times> 'w" where
  "session_generate_token E m c w =
     (case ctx_arena c of
        None \<Rightarrow> (False, c, w)
      | Some A \<Rightarrow>
          (case sodium_init E w of
             (False, w1) \<Rightarrow> (False, c, w1)
           | (True, w1) \<Rightarrow>
               (let (bytes, w2) = randombytes_buf E w1 SESSION_TOKEN_BYTES;
                    encoded = sodium_bin2base64 E bytes;
                    (token, A1) = string_from (arena_allocator m) A (View (c_string encoded))
                in (string_data token \<noteq> None,
                    c\<lparr>ctx_arena := Some A1, ctx_session := (ctx_session c)\<lparr>session_token := token\<rparr>\<rparr>, w2))))"

text \<open>Preparing a statement whose first parameters are blobs and integers, then running it once. The
  parameters are bound from index 1 on; the first call that fails ends the chain.\<close>

datatype Parameter = Blob "char list option" size_t | Int64 int

fun bind_all :: "'w env \<Rightarrow> 'w \<Rightarrow> Database \<Rightarrow> DatabaseStatement \<Rightarrow> nat \<Rightarrow> Parameter list \<Rightarrow> bool \<times> Database \<times> 'w" where
  "bind_all E w db statement index [] = (True, db, w)"
| "bind_all E w db statement index (p # ps) =
     (case (case p of Blob data len \<Rightarrow> database_bind_blob E w db statement index data len
                    | Int64 i \<Rightarrow> database_bind_int64 E w db statement index i) of
        (False, db1, w1) \<Rightarrow> (False, db1, w1)
      | (True, db1, w1) \<Rightarrow> bind_all E w1 db1 statement (index + 1) ps)"

definition prepare_bound ::
    "'w env \<Rightarrow> 'w \<Rightarrow> Database \<Rightarrow> StringView \<Rightarrow> Parameter list \<Rightarrow> (bool \<times> DatabaseStatement) \<times> Database \<times> 'w" where
  "prepare_bound E w db sql ps =
     (case database_prepare E w db sql of
        ((False, statement), db1, w1) \<Rightarrow> ((False, statement), db1, w1)
      | ((True, statement), db1, w1) \<Rightarrow>
          (let (ok, db2, w2) = bind_all E w1 db1 statement 1 ps in ((ok, statement), db2, w2)))"

definition run_bound :: "'w env \<Rightarrow> 'w \<Rightarrow> Database \<Rightarrow> StringView \<Rightarrow> Parameter list \<Rightarrow> bool \<times> Database \<times> 'w" where
  "run_bound E w db sql ps =
     (case prepare_bound E w db sql ps of
        ((False, statement), db1, w1) \<Rightarrow> (False, db1, database_statement_destroy E w1 statement)
      | ((True, statement), db1, w1) \<Rightarrow>
          (let (success, db2, w2) = database_execute E w1 db1 statement
           in (success, db2, database_statement_destroy E w2 statement)))"

definition SESSION_DELETE :: string where
  "SESSION_DELETE = ''DELETE FROM ceasy_sessions WHERE token_digest = ?''"

definition SESSION_SELECT :: string where
  "SESSION_SELECT = ''SELECT data, expires_at FROM ceasy_sessions WHERE token_digest = ?''"

definition SESSION_REPLACE :: string where
  "SESSION_REPLACE = ''INSERT OR REPLACE INTO ceasy_sessions '' @
     ''(token_digest, data, created_at, updated_at, expires_at) '' @
     ''VALUES (?, ?, COALESCE((SELECT created_at FROM ceasy_sessions WHERE token_digest = ?), ?), ?, ?)''"

definition session_delete_digest :: "'w env \<Rightarrow> Context \<Rightarrow> 'w \<Rightarrow> StringView \<Rightarrow> bool \<times> Context \<times> 'w" where
  "session_delete_digest E c w token =
     (case session_digest E w token of
        (None, w1) \<Rightarrow> (False, c, w1)
      | (Some digest, w1) \<Rightarrow>
          (case ctx_database c of
             None \<Rightarrow> (False, c, w1)
           | Some db \<Rightarrow>
               (let (ok, db1, w2) = run_bound E w1 db (sv SESSION_DELETE) [Blob (Some digest) 32]
                in (ok, c\<lparr>ctx_database := Some db1\<rparr>, w2))))"

section \<open>The stored form\<close>

text \<open>Big-endian integers at an offset: the value and the offset behind it.\<close>

definition session_read_u16 :: "char list \<Rightarrow> size_t \<Rightarrow> size_t \<Rightarrow> (nat \<times> size_t) option" where
  "session_read_u16 data len offset =
     (if offset > len \<or> len - offset < 2 then None
      else Some (push_bit 8 (byte (data ! offset)) OR byte (data ! (offset + 1)), offset + 2))"

definition session_read_u32 :: "char list \<Rightarrow> size_t \<Rightarrow> size_t \<Rightarrow> (nat \<times> size_t) option" where
  "session_read_u32 data len offset =
     (if offset > len \<or> len - offset < 4 then None
      else Some (push_bit 24 (byte (data ! offset)) OR push_bit 16 (byte (data ! (offset + 1))) OR
                 push_bit 8 (byte (data ! (offset + 2))) OR byte (data ! (offset + 3)), offset + 4))"

definition session_read_u64 :: "char list \<Rightarrow> size_t \<Rightarrow> size_t \<Rightarrow> (64 word \<times> size_t) option" where
  "session_read_u64 data len offset =
     (if offset > len \<or> len - offset < 8 then None
      else Some (foldl (\<lambda>value index. push_bit 8 value OR of_nat (byte (data ! (offset + index)))) 0 [0..<8],
                 offset + 8))"

text \<open>One entry of the loop of \<open>session_deserialize\<close>, at an offset; the offset behind it, or \<open>None\<close> in the
  inner option for its \<open>return false\<close>.\<close>

definition session_read_value ::
    "char list \<Rightarrow> size_t \<Rightarrow> size_t \<Rightarrow> StringView \<Rightarrow> Context \<Rightarrow> (size_t option \<times> Context) option" where
  "session_read_value data len offset0 key c =
     (let type = byte (data ! offset0); offset = offset0 + 1;
          stored = (\<lambda>next result. map_option (\<lambda>(ok, c1). (if ok then Some next else None, c1)) result)
      in if type = 1 then
           (case session_read_u32 data len offset of
              None \<Rightarrow> Some (None, c)
            | Some (value_length, offset1) \<Rightarrow>
                if value_length > len - offset1 then Some (None, c)
                else stored (offset1 + value_length)
                  (on_session_map (\<lambda>M A. sm_set_string_view M A key (View (take value_length (drop offset1 data)))) c))
         else if type = 2 then
           (case session_read_u64 data len offset of
              None \<Rightarrow> Some (None, c)
            | Some (integer, offset1) \<Rightarrow>
                stored offset1 (on_session_map (\<lambda>M A. sm_set_value M A key (sm_int (sint integer))) c))
         else if type = 3 then
           (if offset \<ge> len \<or> byte (data ! offset) > 1 then Some (None, c)
            else stored (offset + 1)
                   (on_session_map (\<lambda>M A. sm_set_value M A key (sm_bool (byte (data ! offset) \<noteq> 0))) c))
         else Some (None, c))"

fun session_read_entries ::
    "char list \<Rightarrow> size_t \<Rightarrow> nat \<Rightarrow> size_t \<Rightarrow> Context \<Rightarrow> (size_t option \<times> Context) option" where
  "session_read_entries data len 0 offset c = Some (Some offset, c)"
| "session_read_entries data len (Suc count) offset c =
     (case session_read_u16 data len offset of
        None \<Rightarrow> Some (None, c)
      | Some (key_length, offset1) \<Rightarrow>
          if offset1 > len \<or> len - offset1 < key_length + 1 then Some (None, c)
          else
            (case session_read_value data len (offset1 + key_length) (View (take key_length (drop offset1 data))) c of
               None \<Rightarrow> None
             | Some (None, c1) \<Rightarrow> Some (None, c1)
             | Some (Some offset2, c1) \<Rightarrow> session_read_entries data len count offset2 c1))"

definition session_deserialize ::
    "malloc_fn \<Rightarrow> Context \<Rightarrow> char list option \<Rightarrow> size_t \<Rightarrow> (bool \<times> Context) option" where
  "session_deserialize m c blob len =
     (case blob of
        None \<Rightarrow> Some (False, c)
      | Some data \<Rightarrow>
          if len = 0 \<or> len > SESSION_MAX_BYTES \<or> byte (data ! 0) \<noteq> 1 then Some (False, c)
          else
            (case session_read_u16 data len 1 of
               None \<Rightarrow> Some (False, c)
             | Some (count, _) \<Rightarrow>
                 (case session_map_init m c of
                    (False, c1) \<Rightarrow> Some (False, c1)
                  | (True, c1) \<Rightarrow>
                      map_option (\<lambda>(offset, c2). (offset = Some len, c2))
                        (session_read_entries data len count 3 c1))))"

text \<open>Writing: \<open>f\<close> after a write that succeeded.\<close>

definition and_then ::
    "bool \<times> 'h String \<times> 'h \<Rightarrow> ('h String \<Rightarrow> 'h \<Rightarrow> bool \<times> 'h String \<times> 'h) \<Rightarrow> bool \<times> 'h String \<times> 'h" where
  "and_then result f = (case result of (False, s, h) \<Rightarrow> (False, s, h) | (True, s, h) \<Rightarrow> f s h)"

definition append_chars :: "nat list \<Rightarrow> 'h String \<Rightarrow> 'h \<Rightarrow> bool \<times> 'h String \<times> 'h" where
  "append_chars ns output h = string_emit output h (map (\<lambda>n. Append (View [char_of n])) ns)"

definition session_write_u16 :: "nat \<Rightarrow> 'h String \<Rightarrow> 'h \<Rightarrow> bool \<times> 'h String \<times> 'h" where
  "session_write_u16 v output h =
     (if v \<le> UINT16_MAX then append_chars [drop_bit 8 v, v] output h else (False, output, h))"

definition session_write_u32 :: "nat \<Rightarrow> 'h String \<Rightarrow> 'h \<Rightarrow> bool \<times> 'h String \<times> 'h" where
  "session_write_u32 v output h =
     (if v \<le> UINT32_MAX then append_chars [drop_bit 24 v, drop_bit 16 v, drop_bit 8 v, v] output h
      else (False, output, h))"

definition session_write_u64 :: "int \<Rightarrow> 'h String \<Rightarrow> 'h \<Rightarrow> bool \<times> 'h String \<times> 'h" where
  "session_write_u64 v output h =
     append_chars (map (\<lambda>shift. unat (drop_bit shift (word_of_int v :: 64 word))) [56, 48, 40, 32, 24, 16, 8, 0]) output h"

definition session_write_key :: "StringView \<Rightarrow> 'h String \<Rightarrow> 'h \<Rightarrow> bool \<times> 'h String \<times> 'h" where
  "session_write_key key output h =
     (if sv_length key > UINT16_MAX then (False, output, h)
      else and_then (session_write_u16 (sv_length key) output h) (\<lambda>s g. string_append s g (Outside key)))"

definition session_write_value :: "StringMapValue \<Rightarrow> 'h String \<Rightarrow> 'h \<Rightarrow> bool \<times> 'h String \<times> 'h" where
  "session_write_value v output h =
     (case value_payload v of
        SM_VALUE_STRING s \<Rightarrow>
          (if sv_length s > UINT32_MAX then (False, output, h)
           else and_then (append_chars [1] output h) (\<lambda>s1 h1.
                and_then (session_write_u32 (sv_length s) s1 h1) (\<lambda>s2 h2. string_append s2 h2 (Outside s))))
      | SM_VALUE_INT64 i \<Rightarrow> and_then (append_chars [2] output h) (session_write_u64 i)
      | SM_VALUE_BOOL b \<Rightarrow> append_chars [3, of_bool b] output h
      | _ \<Rightarrow> (False, output, h))"

lemma next_from_advances:
  "sm_next_from slots index = Some (next, key, v) \<Longrightarrow> index < next \<and> next \<le> index + length slots"
  by (induction slots arbitrary: index) (fastforce split: if_splits)+

function session_write_entries :: "'h StringMap \<Rightarrow> size_t \<Rightarrow> 'h String \<Rightarrow> 'h \<Rightarrow> bool \<times> 'h String \<times> 'h" where
  "session_write_entries M index output h =
     (case sm_next_const M index of
        None \<Rightarrow> (True, output, h)
      | Some (next, key, v) \<Rightarrow>
          (case and_then (session_write_key key output h) (session_write_value v) of
             (False, output1, h1) \<Rightarrow> (False, output1, h1)
           | (True, output1, h1) \<Rightarrow>
               if string_length output1 > SESSION_MAX_BYTES then (False, output1, h1)
               else session_write_entries M next output1 h1))"
  by pat_completeness auto
termination
  by (relation "measure (\<lambda>(M, index, _, _). map_capacity M - index)")
     (auto simp: sm_next_const_def min_def dest!: next_from_advances split: option.splits if_splits)

declare session_write_entries.simps [simp del]

definition session_serialize :: "malloc_fn \<Rightarrow> Context \<Rightarrow> bool \<times> Arena String \<times> Context" where
  "session_serialize m c =
     (let output = string_new (arena_allocator m); M = session_values (ctx_session c); count = sm_length M
      in case ctx_arena c of
           None \<Rightarrow> (False, output, c)
         | Some A \<Rightarrow>
             (let (ok, s, A1) =
                (if count > UINT16_MAX then (False, output, A)
                 else and_then (append_chars [1] output A) (\<lambda>s1 h1.
                      and_then (session_write_u16 count s1 h1) (session_write_entries M sm_iterator)))
              in (ok, s, c\<lparr>ctx_arena := Some A1\<rparr>)))"

section \<open>Loading\<close>

abbreviation set_session :: "Context \<Rightarrow> (Session \<Rightarrow> Session) \<Rightarrow> Context" where
  "set_session c f \<equiv> c\<lparr>ctx_session := f (ctx_session c)\<rparr>"

definition session_load ::
    "'w env \<Rightarrow> malloc_fn \<Rightarrow> CeasyConfig \<Rightarrow> Context \<Rightarrow> 'w \<Rightarrow> (bool \<times> Context \<times> 'w) option" where
  "session_load E m cfg c w =
     (case (ctx_arena c, ctx_database c) of
        (Some _, Some db) \<Rightarrow>
          (case session_map_init m (set_session c (\<lambda>s. s\<lparr>session_loaded := True\<rparr>)) of
             (False, c1) \<Rightarrow> Some (False, c1, w)
           | (True, c1) \<Rightarrow>
               (let (cookie, c2) = context_cookie c1 (ceasy_session_cookie_name cfg)
                in if sv_length cookie = 0 then Some (True, c2, w)
                   else case session_digest E w cookie of
                     (None, w1) \<Rightarrow> Some (True, c2, w1)
                   | (Some digest, w1) \<Rightarrow>
                       (case prepare_bound E w1 db (sv SESSION_SELECT) [Blob (Some digest) 32] of
                          ((False, statement), db1, w2) \<Rightarrow>
                            Some (False, c2\<lparr>ctx_database := Some db1\<rparr>, database_statement_destroy E w2 statement)
                        | ((True, statement), db1, w2) \<Rightarrow>
                            (let (step, db2, w3) = database_step E w2 db1 statement;
                                 c3 = c2\<lparr>ctx_database := Some db2\<rparr>
                             in if step = DATABASE_STEP_DONE
                                then Some (True, c3, database_statement_destroy E w3 statement)
                                else if step \<noteq> DATABASE_STEP_ROW
                                then Some (False, c3, database_statement_destroy E w3 statement)
                                else
                                  (let expires = database_column_int64 E w3 statement 1;
                                       (blob, blob_length) = database_column_blob E w3 statement 0;
                                       (now, w4) = clock E w3
                                   in case (if expires \<le> now then Some (False, c3)
                                            else session_deserialize m c3 blob blob_length) of
                                        None \<Rightarrow> None
                                      | Some (False, c4) \<Rightarrow>
                                          (let (_, c5, w5) = session_delete_digest E c4
                                             (database_statement_destroy E w4 statement) cookie
                                           in Some (True, c5, w5))
                                      | Some (True, c4) \<Rightarrow>
                                          (case ctx_arena c4 of
                                             None \<Rightarrow> Some (False, c4, w4)
                                           | Some A \<Rightarrow>
                                               (let (token, A1) = string_from (arena_allocator m) A cookie
                                                in Some (string_data token \<noteq> None,
                                                     set_session (c4\<lparr>ctx_arena := Some A1\<rparr>)
                                                       (\<lambda>s. s\<lparr>session_token := token, session_expires_at := expires,
                                                          session_exists := True\<rparr>),
                                                     database_statement_destroy E w4 statement))))))))
      | _ \<Rightarrow> Some (False, c, w))"

definition session_ensure ::
    "'w env \<Rightarrow> malloc_fn \<Rightarrow> CeasyConfig \<Rightarrow> Context \<Rightarrow> 'w \<Rightarrow> (bool \<times> Context \<times> 'w) option" where
  "session_ensure E m cfg c w =
     (if session_loaded (ctx_session c) then Some (True, c, w) else session_load E m cfg c w)"

section \<open>Values\<close>

text \<open>What the three setters share: with the session there and the value stored, it is to be saved.\<close>

definition session_set ::
    "'w env \<Rightarrow> malloc_fn \<Rightarrow> CeasyConfig \<Rightarrow> Context \<Rightarrow> 'w \<Rightarrow> bool \<Rightarrow>
     (Arena StringMap \<Rightarrow> Arena \<Rightarrow> (bool \<times> Arena StringMap \<times> Arena) option) \<Rightarrow> (bool \<times> Context \<times> 'w) option" where
  "session_set E m cfg c w rejected store =
     (case session_ensure E m cfg c w of
        None \<Rightarrow> None
      | Some (False, c1, w1) \<Rightarrow> Some (False, c1, w1)
      | Some (True, c1, w1) \<Rightarrow>
          if rejected then Some (False, c1, w1)
          else map_option (\<lambda>(ok, c2).
            (ok, if ok then set_session c2 (\<lambda>s. s\<lparr>session_destroy_flag := False, session_dirty := True\<rparr>) else c2, w1))
            (on_session_map store c1))"

definition session_set_string where
  "session_set_string E m cfg c w key v =
     session_set E m cfg c w (sv_length key = 0 \<or> \<not> sv_has_data v) (\<lambda>M A. sm_set_string_view M A key v)"

definition session_set_int64 where
  "session_set_int64 E m cfg c w key i = session_set E m cfg c w False (\<lambda>M A. sm_set_value M A key (sm_int i))"

definition session_set_bool where
  "session_set_bool E m cfg c w key b = session_set E m cfg c w False (\<lambda>M A. sm_set_value M A key (sm_bool b))"

text \<open>The getters: \<open>None\<close> inside where the code returns \<open>false\<close>.\<close>

definition session_get ::
    "'w env \<Rightarrow> malloc_fn \<Rightarrow> CeasyConfig \<Rightarrow> Context \<Rightarrow> 'w \<Rightarrow> (Arena StringMap \<Rightarrow> 'a option) \<Rightarrow>
     ('a option \<times> Context \<times> 'w) option" where
  "session_get E m cfg c w get =
     map_option (\<lambda>(ok, c1, w1). (if ok then get (session_values (ctx_session c1)) else None, c1, w1))
       (session_ensure E m cfg c w)"

definition session_get_string where
  "session_get_string E m cfg c w key = session_get E m cfg c w (\<lambda>M. sm_get_string M key)"

definition session_get_int64 where
  "session_get_int64 E m cfg c w key = session_get E m cfg c w (\<lambda>M. sm_get_int M key)"

definition session_get_bool where
  "session_get_bool E m cfg c w key = session_get E m cfg c w (\<lambda>M. sm_get_bool M key)"

definition session_delete ::
    "'w env \<Rightarrow> malloc_fn \<Rightarrow> CeasyConfig \<Rightarrow> Context \<Rightarrow> 'w \<Rightarrow> StringView \<Rightarrow> (bool \<times> Context \<times> 'w) option" where
  "session_delete E m cfg c w key =
     (case session_ensure E m cfg c w of
        None \<Rightarrow> None
      | Some (False, c1, w1) \<Rightarrow> Some (False, c1, w1)
      | Some (True, c1, w1) \<Rightarrow>
          map_option (\<lambda>(removed, c2).
            (True, if removed then set_session c2 (\<lambda>s. s\<lparr>session_dirty := True\<rparr>) else c2, w1))
            (on_session_map (\<lambda>M A. Some (sm_remove M A key)) c1))"

definition session_clear ::
    "'w env \<Rightarrow> malloc_fn \<Rightarrow> CeasyConfig \<Rightarrow> Context \<Rightarrow> 'w \<Rightarrow> (bool \<times> Context \<times> 'w) option" where
  "session_clear E m cfg c w =
     (case session_ensure E m cfg c w of
        None \<Rightarrow> None
      | Some (False, c1, w1) \<Rightarrow> Some (False, c1, w1)
      | Some (True, c1, w1) \<Rightarrow>
          map_option (\<lambda>(_, c2). (True, set_session c2 (\<lambda>s. s\<lparr>session_dirty := True\<rparr>), w1))
            (on_session_map (\<lambda>M A. Some (True, sm_clear M A)) c1))"

definition session_regenerate ::
    "'w env \<Rightarrow> malloc_fn \<Rightarrow> CeasyConfig \<Rightarrow> Context \<Rightarrow> 'w \<Rightarrow> (bool \<times> Context \<times> 'w) option" where
  "session_regenerate E m cfg c w =
     (case session_ensure E m cfg c w of
        None \<Rightarrow> None
      | Some (False, c1, w1) \<Rightarrow> Some (False, c1, w1)
      | Some (True, c1, w1) \<Rightarrow>
          Some (True, set_session c1 (\<lambda>s. s\<lparr>session_regenerate_flag := True, session_dirty := True\<rparr>), w1))"

definition session_cookie_options :: "CeasyConfig \<Rightarrow> CookieOptions" where
  "session_cookie_options cfg = cookie_options_zero\<lparr>cookie_path := sv ''/'', cookie_http_only := True,
     cookie_same_site := COOKIE_SAME_SITE_LAX, cookie_secure := ceasy_is_production cfg\<rparr>"

definition session_destroy ::
    "'w env \<Rightarrow> malloc_fn \<Rightarrow> CeasyConfig \<Rightarrow> Context \<Rightarrow> 'w \<Rightarrow> (bool \<times> Context \<times> 'w) option" where
  "session_destroy E m cfg c w =
     (case session_ensure E m cfg c w of
        None \<Rightarrow> None
      | Some (False, c1, w1) \<Rightarrow> Some (False, c1, w1)
      | Some (True, c1, w1) \<Rightarrow>
          (let token = string_as_view (session_token (ctx_session c1));
               (deleted, c2, w2) = (if sv_length token > 0 then session_delete_digest E c1 w1 token else (True, c1, w1))
           in if \<not> deleted then Some (False, c2, w2)
              else map_option (\<lambda>(_, c3).
                (let c4 = set_session c3 (\<lambda>s. s\<lparr>session_destroy_flag := True, session_regenerate_flag := True,
                       session_dirty := False, session_exists := False\<rparr>);
                     (_, c5) = context_delete_cookie m c4 (ceasy_session_cookie_name cfg) (session_cookie_options cfg)
                 in (True, c5, w2)))
                (on_session_map (\<lambda>M A. Some (True, sm_clear M A)) c2)))"

section \<open>Saving\<close>

definition session_commit ::
    "'w env \<Rightarrow> malloc_fn \<Rightarrow> CeasyConfig \<Rightarrow> Context \<Rightarrow> 'w \<Rightarrow> bool \<times> Context \<times> 'w" where
  "session_commit E m cfg c w =
     (if \<not> session_loaded (ctx_session c) \<or> \<not> session_dirty (ctx_session c) then (True, c, w)
      else if session_destroy_flag (ctx_session c) then (True, c, w)
      else
        (let old_token = string_as_view (session_token (ctx_session c));
             (deleted, c1, w1) = (if session_regenerate_flag (ctx_session c) \<and> sv_length old_token > 0
                                  then session_delete_digest E c w old_token else (True, c, w))
         in if \<not> deleted then (False, c1, w1)
            else
              (let (generated, c2, w2) = (if sv_length old_token = 0 \<or> session_regenerate_flag (ctx_session c1)
                                          then session_generate_token E m c1 w1 else (True, c1, w1))
               in if \<not> generated then (False, c2, w2)
                  else
                    (let (serialized, record_text, c3) = session_serialize m c2
                     in if \<not> serialized \<or> string_length record_text > SESSION_MAX_BYTES then (False, c3, w2)
                        else
                          (case session_digest E w2 (string_as_view (session_token (ctx_session c3))) of
                             (None, w3) \<Rightarrow> (False, c3, w3)
                           | (Some digest, w3) \<Rightarrow>
                               (let (now, w4) = clock E w3;
                                    c4 = set_session c3 (\<lambda>s. s\<lparr>session_expires_at := now + ceasy_session_ttl_seconds cfg\<rparr>)
                                in case ctx_database c4 of
                                     None \<Rightarrow> (False, c4, w4)
                                   | Some db \<Rightarrow>
                                       (let (success, db1, w5) = run_bound E w4 db (sv SESSION_REPLACE)
                                              [Blob (Some digest) 32,
                                               Blob (string_data record_text) (string_length record_text),
                                               Blob (Some digest) 32, Int64 now, Int64 now,
                                               Int64 (session_expires_at (ctx_session c4))];
                                            c5 = c4\<lparr>ctx_database := Some db1\<rparr>
                                        in if \<not> success then (False, c5, w5)
                                           else
                                             (let (sent, c6) = context_set_cookie m c5 (ceasy_session_cookie_name cfg)
                                                (string_as_view (session_token (ctx_session c5)))
                                                ((session_cookie_options cfg)\<lparr>cookie_max_age := ceasy_session_ttl_seconds cfg\<rparr>)
                                              in if \<not> sent then (False, c6, w5)
                                                 else (True, set_session c6 (\<lambda>s. s\<lparr>session_exists := True,
                                                         session_dirty := False, session_regenerate_flag := False\<rparr>),
                                                       w5)))))))))"

section \<open>CSRF tokens\<close>

definition CSRF_KEY :: string where "CSRF_KEY = ''__ceasy.csrf.token''"

definition csrf_token ::
    "'w env \<Rightarrow> malloc_fn \<Rightarrow> CeasyConfig \<Rightarrow> Context \<Rightarrow> 'w \<Rightarrow> (StringView \<times> Context \<times> 'w) option" where
  "csrf_token E m cfg c w =
     (if ctx_arena c = None then Some (sv_zero, c, w)
      else case session_get_string E m cfg c w (sv CSRF_KEY) of
        None \<Rightarrow> None
      | Some (Some token, c1, w1) \<Rightarrow> Some (token, c1, w1)
      | Some (None, c1, w1) \<Rightarrow>
          (case sodium_init E w1 of
             (False, w2) \<Rightarrow> Some (sv_zero, c1, w2)
           | (True, w2) \<Rightarrow>
               (let (bytes, w3) = randombytes_buf E w2 32; encoded = sodium_bin2base64 E bytes
                in case session_set_string E m cfg c1 w3 (sv CSRF_KEY) (stringv_from_cstr (Some encoded)) of
                     None \<Rightarrow> None
                   | Some (False, c2, w4) \<Rightarrow> Some (sv_zero, c2, w4)
                   | Some (True, c2, w4) \<Rightarrow>
                       map_option (\<lambda>(token, c3, w5). (case token of None \<Rightarrow> sv_zero | Some t \<Rightarrow> t, c3, w5))
                         (session_get_string E m cfg c2 w4 (sv CSRF_KEY)))))"

definition csrf_verify ::
    "'w env \<Rightarrow> malloc_fn \<Rightarrow> CeasyConfig \<Rightarrow> Context \<Rightarrow> 'w \<Rightarrow> StringView \<Rightarrow> (bool \<times> Context \<times> 'w) option" where
  "csrf_verify E m cfg c w token =
     (case csrf_token E m cfg c w of
        None \<Rightarrow> None
      | Some (expected, c1, w1) \<Rightarrow>
          if sv_length expected \<noteq> sv_length token \<or> \<not> sv_length expected > 0 then Some (False, c1, w1)
          else (case sodium_init E w1 of
                  (False, w2) \<Rightarrow> Some (False, c1, w2)
                | (True, w2) \<Rightarrow> Some (sodium_memcmp E (sv_bytes expected) (sv_bytes token), c1, w2)))"

section \<open>Signing in and out\<close>

definition AUTH_USER_KEY :: string where "AUTH_USER_KEY = ''__ceasy.auth.user_id''"

definition auth_login ::
    "'w env \<Rightarrow> malloc_fn \<Rightarrow> CeasyConfig \<Rightarrow> Context \<Rightarrow> 'w \<Rightarrow> int \<Rightarrow> (bool \<times> Context \<times> 'w) option" where
  "auth_login E m cfg c w user_id =
     (if \<not> user_id > 0 then Some (False, c, w)
      else case session_regenerate E m cfg c w of
        None \<Rightarrow> None
      | Some (False, c1, w1) \<Rightarrow> Some (False, c1, w1)
      | Some (True, c1, w1) \<Rightarrow> session_set_int64 E m cfg c1 w1 (sv AUTH_USER_KEY) user_id)"

definition auth_logout ::
    "'w env \<Rightarrow> malloc_fn \<Rightarrow> CeasyConfig \<Rightarrow> Context \<Rightarrow> 'w \<Rightarrow> (bool \<times> Context \<times> 'w) option" where
  "auth_logout E m cfg c w = session_destroy E m cfg c w"

definition auth_user_id ::
    "'w env \<Rightarrow> malloc_fn \<Rightarrow> CeasyConfig \<Rightarrow> Context \<Rightarrow> 'w \<Rightarrow> (int option \<times> Context \<times> 'w) option" where
  "auth_user_id E m cfg c w =
     map_option (\<lambda>(user, c1, w1). (case user of None \<Rightarrow> None | Some i \<Rightarrow> if i > 0 then Some i else None, c1, w1))
       (session_get_int64 E m cfg c w (sv AUTH_USER_KEY))"

definition auth_signed_in ::
    "'w env \<Rightarrow> malloc_fn \<Rightarrow> CeasyConfig \<Rightarrow> Context \<Rightarrow> 'w \<Rightarrow> (bool \<times> Context \<times> 'w) option" where
  "auth_signed_in E m cfg c w = map_option (\<lambda>(user, c1, w1). (user \<noteq> None, c1, w1)) (auth_user_id E m cfg c w)"

section \<open>Flash messages\<close>

definition flash_key :: "malloc_fn \<Rightarrow> Context \<Rightarrow> StringView \<Rightarrow> Arena String option \<times> Context" where
  "flash_key m c key =
     (case ctx_arena c of
        None \<Rightarrow> (None, c)
      | Some A \<Rightarrow>
          if sv_length key = 0 \<or> stringv_contains key (sv ''.'') then (None, c)
          else
            (let (ok, result, A1) =
               string_emit (string_new (arena_allocator m)) A [Append (sv ''__ceasy.flash.''), Append key]
             in (if ok then Some result else None, c\<lparr>ctx_arena := Some A1\<rparr>)))"

definition flash_set ::
    "'w env \<Rightarrow> malloc_fn \<Rightarrow> CeasyConfig \<Rightarrow> Context \<Rightarrow> 'w \<Rightarrow> StringView \<Rightarrow> StringView \<Rightarrow>
     (bool \<times> Context \<times> 'w) option" where
  "flash_set E m cfg c w key message =
     (case flash_key m c key of
        (None, c1) \<Rightarrow> Some (False, c1, w)
      | (Some full_key, c1) \<Rightarrow> session_set_string E m cfg c1 w (string_as_view full_key) message)"

definition flash_get ::
    "'w env \<Rightarrow> malloc_fn \<Rightarrow> CeasyConfig \<Rightarrow> Context \<Rightarrow> 'w \<Rightarrow> StringView \<Rightarrow> (StringView \<times> Context \<times> 'w) option" where
  "flash_get E m cfg c w key =
     (case flash_key m c key of
        (None, c1) \<Rightarrow> Some (sv_zero, c1, w)
      | (Some full_key, c1) \<Rightarrow>
          (case session_get_string E m cfg c1 w (string_as_view full_key) of
             None \<Rightarrow> None
           | Some (None, c2, w1) \<Rightarrow> Some (sv_zero, c2, w1)
           | Some (Some message, c2, w1) \<Rightarrow>
               (case ctx_arena c2 of
                  None \<Rightarrow> Some (sv_zero, c2, w1)
                | Some A \<Rightarrow>
                    (let (copy, A1) = string_from (arena_allocator m) A message; c3 = c2\<lparr>ctx_arena := Some A1\<rparr>
                     in if string_data copy = None then Some (sv_zero, c3, w1)
                        else map_option (\<lambda>(_, c4, w2). (string_as_view copy, c4, w2))
                               (session_delete E m cfg c3 w1 (string_as_view full_key))))))"

end
