(* ===== verification/SessionLaws.thy ===== *)
theory SessionLaws
  imports Session StringMapLaws HeaderLaws
begin

unbundle bit_operations_syntax

text \<open>
  What sessions promise: the stored form is read back, a commit that had to change the token issues a
  fresh one and removes the old row, a CSRF token is accepted only when it is the session's, and a flash
  message is seen once.
\<close>

section \<open>Integers in the stored form\<close>

lemma byte_char_bits: "byte (char_of n) = take_bit 8 n"
  by (simp add: byte_def take_bit_eq_mod)

lemma word_byte: "of_nat (byte (char_of (unat w))) = take_bit 8 (w :: 64 word)"
  by (simp add: byte_char_bits unsigned_take_bit_eq [symmetric])

lemma glue16: "n \<le> 65535 \<Longrightarrow> push_bit 8 (take_bit 8 (drop_bit 8 n)) OR take_bit 8 n = (n::nat)"
proof -
  assume "n \<le> 65535"
  then have "take_bit 16 n = n" by (simp add: take_bit_nat_eq_self_iff)
  moreover have "push_bit 8 (take_bit 8 (drop_bit 8 n)) OR take_bit 8 n = take_bit 16 n"
    by (rule bit_eqI) (auto simp: bit_simps)
  ultimately show ?thesis by simp
qed

lemma glue32: "n \<le> 4294967295 \<Longrightarrow>
    push_bit 24 (take_bit 8 (drop_bit 24 n)) OR push_bit 16 (take_bit 8 (drop_bit 16 n)) OR
    push_bit 8 (take_bit 8 (drop_bit 8 n)) OR take_bit 8 n = (n::nat)"
proof -
  assume "n \<le> 4294967295"
  then have "take_bit 32 n = n" by (simp add: take_bit_nat_eq_self_iff)
  moreover have "push_bit 24 (take_bit 8 (drop_bit 24 n)) OR push_bit 16 (take_bit 8 (drop_bit 16 n)) OR
      push_bit 8 (take_bit 8 (drop_bit 8 n)) OR take_bit 8 n = take_bit 32 n"
  proof (rule bit_eqI)
    fix k :: nat
    consider "k < 8" | "8 \<le> k" "k < 16" | "16 \<le> k" "k < 24" | "24 \<le> k" by linarith
    then show "bit (push_bit 24 (take_bit 8 (drop_bit 24 n)) OR push_bit 16 (take_bit 8 (drop_bit 16 n)) OR
      push_bit 8 (take_bit 8 (drop_bit 8 n)) OR take_bit 8 n) k \<longleftrightarrow> bit (take_bit 32 n) k"
      by cases (auto simp: bit_simps)
  qed
  ultimately show ?thesis by simp
qed

lemma glue64_step: "push_bit 8 (drop_bit (8 + k) w) OR take_bit 8 (drop_bit k w) = drop_bit k (w :: 64 word)"
  by (rule bit_eqI) (auto simp: bit_simps)

definition chars16 :: "nat \<Rightarrow> char list" where
  "chars16 n = map char_of [drop_bit 8 n, n]"

definition chars32 :: "nat \<Rightarrow> char list" where
  "chars32 n = map char_of [drop_bit 24 n, drop_bit 16 n, drop_bit 8 n, n]"

definition chars64 :: "int \<Rightarrow> char list" where
  "chars64 i = map (\<lambda>shift. char_of (unat (drop_bit shift (word_of_int i :: 64 word)))) [56, 48, 40, 32, 24, 16, 8, 0]"

lemma chars_length [simp]: "length (chars16 n) = 2" "length (chars32 n) = 4" "length (chars64 i) = 8"
  by (simp_all add: chars16_def chars32_def chars64_def)

lemma at_drop:
  assumes "drop i xs = a @ b" "k < length a" shows "xs ! (i + k) = a ! k"
proof -
  have "i \<le> length xs" using assms by (cases "i \<le> length xs") auto
  then have "xs ! (i + k) = (a @ b) ! k" unfolding assms(1) [symmetric] by simp
  then show ?thesis using assms(2) by (simp add: nth_append)
qed

lemma drop_room:
  assumes "drop offset data = a @ rest" "a \<noteq> []"
  shows "offset + length a + length rest = length data" "drop (offset + length a) data = rest"
proof -
  have "offset \<le> length data" using assms by (cases "offset \<le> length data") auto
  then show "offset + length a + length rest = length data" using arg_cong [OF assms(1), of length] by simp
  show "drop (offset + length a) data = rest"
    using arg_cong [OF assms(1), of "drop (length a)"] by (simp add: add.commute)
qed

lemma read_u16:
  assumes d: "drop offset data = chars16 n @ rest" and n: "n \<le> 65535"
  shows "session_read_u16 data (length data) offset = Some (n, offset + 2)"
proof -
  have "chars16 n \<noteq> []" by (simp add: chars16_def)
  note room = drop_room [OF d this]
  have "data ! offset = char_of (drop_bit 8 n)" "data ! (offset + 1) = char_of n"
    using at_drop [OF d, of 0] at_drop [OF d, of 1] by (simp_all add: chars16_def)
  then show ?thesis using room glue16 [OF n] by (simp add: session_read_u16_def byte_char_bits)
qed

lemma read_u32:
  assumes d: "drop offset data = chars32 n @ rest" and n: "n \<le> 4294967295"
  shows "session_read_u32 data (length data) offset = Some (n, offset + 4)"
proof -
  have "chars32 n \<noteq> []" by (simp add: chars32_def)
  note room = drop_room [OF d this]
  have "data ! offset = char_of (drop_bit 24 n)" "data ! (offset + 1) = char_of (drop_bit 16 n)"
    "data ! (offset + 2) = char_of (drop_bit 8 n)" "data ! (offset + 3) = char_of n"
    using at_drop [OF d, of 0] at_drop [OF d, of 1] at_drop [OF d, of 2] at_drop [OF d, of 3]
    by (simp_all add: chars32_def)
  then show ?thesis using room glue32 [OF n] by (simp add: session_read_u32_def byte_char_bits)
qed

lemma read_u64:
  assumes d: "drop offset data = chars64 i @ rest"
  shows "session_read_u64 data (length data) offset = Some (word_of_int i, offset + 8)"
proof -
  let ?w = "word_of_int i :: 64 word"
  have "chars64 i \<noteq> []" by (simp add: chars64_def)
  note room = drop_room [OF d this]
  have at: "of_nat (byte (data ! (offset + k))) = take_bit 8 (drop_bit (56 - 8 * k) ?w)" if "k < 8" for k
  proof -
    have "data ! (offset + k) = chars64 i ! k" using at_drop [OF d, of k] that by simp
    also have "\<dots> = char_of (unat (drop_bit (56 - 8 * k) ?w))"
      using that unfolding chars64_def less_Suc_eq numeral_nat by auto
    finally show ?thesis by (simp add: word_byte)
  qed
  have "foldl (\<lambda>v k. push_bit 8 v OR of_nat (byte (data ! (offset + k)))) 0 [0..<n] = drop_bit (64 - 8 * n) ?w"
    if "n \<le> 8" for n
    using that
  proof (induction n)
    case 0
    show ?case by (simp add: bit_eq_iff bit_simps)
  next
    case (Suc n)
    have "64 - 8 * n = 8 + (56 - 8 * n)" using Suc.prems by simp
    then have "foldl (\<lambda>v k. push_bit 8 v OR of_nat (byte (data ! (offset + k)))) 0 [0..<Suc n] =
        push_bit 8 (drop_bit (8 + (56 - 8 * n)) ?w) OR take_bit 8 (drop_bit (56 - 8 * n) ?w)"
      using Suc at [of n] by simp
    then show ?case using Suc.prems unfolding glue64_step by simp
  qed
  from this [of 8] show ?thesis using room by (simp add: session_read_u64_def)
qed

lemma int64_kept: "- (2 ^ 63) \<le> i \<Longrightarrow> i < 2 ^ 63 \<Longrightarrow> sint (word_of_int i :: 64 word) = i"
  by (simp add: sint_sbintrunc' signed_take_bit_int_eq_self)

section \<open>The stored form\<close>

definition value_bytes :: "StringMapPayload \<Rightarrow> char list" where
  "value_bytes v =
     (case v of
        SM_VALUE_STRING s \<Rightarrow> char_of (1::nat) # chars32 (length (sv_bytes s)) @ sv_bytes s
      | SM_VALUE_INT64 i \<Rightarrow> char_of (2::nat) # chars64 i
      | SM_VALUE_BOOL b \<Rightarrow> [char_of (3::nat), char_of (of_bool b :: nat)]
      | _ \<Rightarrow> [])"

type_synonym entry = "char list \<times> StringMapValue"

definition entry_bytes :: "entry \<Rightarrow> char list" where
  "entry_bytes e = chars16 (length (fst e)) @ fst e @ value_bytes (value_payload (snd e))"

definition session_bytes :: "entry list \<Rightarrow> char list" where
  "session_bytes es = char_of (1::nat) # chars16 (length es) @ concat (map entry_bytes es)"

text \<open>The values a session can store.\<close>

definition storable :: "StringMapPayload \<Rightarrow> bool" where
  "storable v =
     (case v of
        SM_VALUE_STRING s \<Rightarrow> length (sv_bytes s) \<le> 4294967295
      | SM_VALUE_INT64 i \<Rightarrow> True
      | SM_VALUE_BOOL b \<Rightarrow> True
      | _ \<Rightarrow> False)"

definition int64_ok :: "StringMapPayload \<Rightarrow> bool" where
  "int64_ok v = (case v of SM_VALUE_INT64 i \<Rightarrow> - (2 ^ 63) \<le> i \<and> i < 2 ^ 63 | _ \<Rightarrow> True)"

text \<open>Storing values one by one, as the session's setters do.\<close>

definition store_value :: "char list \<Rightarrow> StringMapPayload \<Rightarrow> Context \<Rightarrow> (bool \<times> Context) option" where
  "store_value k v c =
     (case v of
        SM_VALUE_STRING s \<Rightarrow> on_session_map (\<lambda>M A. sm_set_string_view M A (View k) (View (sv_bytes s))) c
      | SM_VALUE_INT64 i \<Rightarrow> on_session_map (\<lambda>M A. sm_set_value M A (View k) (sm_int i)) c
      | SM_VALUE_BOOL b \<Rightarrow> on_session_map (\<lambda>M A. sm_set_value M A (View k) (sm_bool b)) c
      | _ \<Rightarrow> Some (False, c))"

fun store_all :: "entry list \<Rightarrow> Context \<Rightarrow> (bool \<times> Context) option" where
  "store_all [] c = Some (True, c)"
| "store_all ((k, v) # es) c =
     (case store_value k (value_payload v) c of
        None \<Rightarrow> None
      | Some (False, c1) \<Rightarrow> Some (False, c1)
      | Some (True, c1) \<Rightarrow> store_all es c1)"

lemma read_value:
  assumes d: "drop offset data = value_bytes v @ rest" and v: "storable v" "int64_ok v"
  shows "session_read_value data (length data) offset (View k) c =
    map_option (\<lambda>(ok, c1). (if ok then Some (offset + length (value_bytes v)) else None, c1)) (store_value k v c)"
proof -
  have "value_bytes v \<noteq> []" using v by (auto simp: value_bytes_def storable_def split: StringMapPayload.splits)
  note room = drop_room [OF d this]
  show ?thesis
  proof (cases v)
    case (SM_VALUE_STRING s)
    have d1: "drop (offset + 1) data = chars32 (length (sv_bytes s)) @ sv_bytes s @ rest"
      using arg_cong [OF d, of "drop 1"] SM_VALUE_STRING by (simp add: value_bytes_def)
    have small: "length (sv_bytes s) \<le> 4294967295" using v SM_VALUE_STRING by (simp add: storable_def)
    have type: "byte (data ! offset) = 1"
      using at_drop [OF d, of 0] SM_VALUE_STRING by (simp add: value_bytes_def byte_char_bits)
    have "drop (offset + 1 + 4) data = sv_bytes s @ rest"
      using arg_cong [OF d1, of "drop 4"] by (simp add: add.commute)
    moreover have len: "offset + length (value_bytes v) = offset + 1 + 4 + length (sv_bytes s)"
      by (simp add: value_bytes_def SM_VALUE_STRING)
    moreover have "\<not> length (sv_bytes s) > length data - (offset + 1 + 4)" using room len by linarith
    ultimately show ?thesis using SM_VALUE_STRING
      by (simp only: session_read_value_def type read_u32 [OF d1 small] store_value_def Let_def if_True if_False
          option.case prod.case StringMapPayload.case simp_thms) simp
  next
    case (SM_VALUE_INT64 i)
    have d1: "drop (offset + 1) data = chars64 i @ rest"
      using arg_cong [OF d, of "drop 1"] SM_VALUE_INT64 by (simp add: value_bytes_def)
    have type: "byte (data ! offset) = 2"
      using at_drop [OF d, of 0] SM_VALUE_INT64 by (simp add: value_bytes_def byte_char_bits)
    have "sint (word_of_int i :: 64 word) = i" using v SM_VALUE_INT64 by (auto simp: int64_ok_def intro: int64_kept)
    then show ?thesis using room SM_VALUE_INT64
      by (simp add: session_read_value_def type read_u64 [OF d1, simplified] store_value_def value_bytes_def Let_def
          add.commute cong: if_cong)
  next
    case (SM_VALUE_BOOL b)
    have type: "byte (data ! offset) = 3" "byte (data ! (offset + 1)) = of_bool b"
      using at_drop [OF d, of 0] at_drop [OF d, of 1] SM_VALUE_BOOL by (simp_all add: value_bytes_def byte_char_bits)
    then show ?thesis using room SM_VALUE_BOOL
      by (simp add: session_read_value_def store_value_def value_bytes_def Let_def cong: if_cong)
  qed (use v in \<open>simp_all add: storable_def\<close>)
qed

lemma read_entries:
  assumes "drop offset data = concat (map entry_bytes es) @ rest"
    and "\<forall>(k, v)\<in>set es. length k \<le> 65535 \<and> storable (value_payload v) \<and> int64_ok (value_payload v)"
  shows "session_read_entries data (length data) (length es) offset c =
    map_option (\<lambda>(ok, c1). (if ok then Some (offset + length (concat (map entry_bytes es))) else None, c1))
      (store_all es c)"
  using assms
proof (induction es arbitrary: offset c)
  case (Cons e es)
  obtain k v where e: "e = (k, v)" by (cases e)
  let ?vb = "value_bytes (value_payload v)"
  have ok: "length k \<le> 65535" "storable (value_payload v)" "int64_ok (value_payload v)" using Cons.prems(2) e by auto
  have nonempty: "?vb \<noteq> []" using ok by (auto simp: value_bytes_def storable_def split: StringMapPayload.splits)
  have d0: "drop offset data = chars16 (length k) @ (k @ ?vb @ concat (map entry_bytes es) @ rest)"
    using Cons.prems(1) unfolding e list.map concat.simps entry_bytes_def [of "(k, v)"] by simp
  have "chars16 (length k) \<noteq> []" by (simp add: chars16_def)
  note room = drop_room [OF d0 this]
  have d1: "drop (offset + 2) data = k @ ?vb @ concat (map entry_bytes es) @ rest"
    using room by simp
  have d2: "drop (offset + 2 + length k) data = ?vb @ (concat (map entry_bytes es) @ rest)"
    using arg_cong [OF d1, of "drop (length k)"] by (simp add: add.commute add.left_commute)
  have d3: "drop (offset + 2 + length k + length ?vb) data = concat (map entry_bytes es) @ rest"
    using drop_room(2) [OF d2 nonempty] .
  have key: "take (length k) (drop (offset + 2) data) = k" by (simp only: d1) simp
  have fits: "\<not> (offset + 2 > length data \<or> length data - (offset + 2) < length k + 1)"
    using room nonempty by (cases ?vb) auto
  note IH = Cons.IH [OF d3]
  have step: "session_read_entries data (length data) (length (e # es)) offset c =
      (case session_read_value data (length data) (offset + 2 + length k) (View k) c of
         None \<Rightarrow> None
       | Some (None, c1) \<Rightarrow> Some (None, c1)
       | Some (Some offset2, c1) \<Rightarrow> session_read_entries data (length data) (length es) offset2 c1)"
    unfolding list.size(4) add_Suc_right add_0_right session_read_entries.simps read_u16 [OF d0 ok(1)]
      option.case prod.case key if_not_P [OF fits] ..
  show ?case
  proof (cases "store_value k (value_payload v) c")
    case None
    then show ?thesis unfolding step read_value [OF d2 ok(2,3)] by (simp add: e)
  next
    case (Some r)
    obtain stored c1 where r: "r = (stored, c1)" by (cases r)
    have rv: "session_read_value data (length data) (offset + 2 + length k) (View k) c =
        Some (if stored then Some (offset + 2 + length k + length ?vb) else None, c1)"
      unfolding read_value [OF d2 ok(2,3)] Some r by simp
    have total: "offset + length (concat (map entry_bytes (e # es))) =
        offset + 2 + length k + length ?vb + length (concat (map entry_bytes es))"
      by (simp add: e entry_bytes_def [of "(k, v)"])
    show ?thesis
      using Some r e IH [of c1] Cons.prems(2) unfolding step rv total by (cases stored) simp_all
  qed
qed simp

lemma deserialize_bytes:
  assumes "length es \<le> 65535" "length (session_bytes es) \<le> 16384"
    and "\<forall>(k, v)\<in>set es. length k \<le> 65535 \<and> storable (value_payload v) \<and> int64_ok (value_payload v)"
  shows "session_deserialize m d (Some (session_bytes es)) (length (session_bytes es)) =
    (case session_map_init m d of (False, d1) \<Rightarrow> Some (False, d1) | (True, d1) \<Rightarrow> store_all es d1)"
proof -
  have d1: "drop 1 (session_bytes es) = chars16 (length es) @ concat (map entry_bytes es)"
    by (simp add: session_bytes_def)
  have d3: "drop 3 (session_bytes es) = concat (map entry_bytes es) @ []"
    using arg_cong [OF d1, of "drop 2"] by (simp add: eval_nat_numeral)
  have len: "length (session_bytes es) = 3 + length (concat (map entry_bytes es))"
    by (simp add: session_bytes_def)
  have first: "byte (session_bytes es ! 0) = 1" by (simp add: session_bytes_def byte_char_bits)
  note R = read_entries [OF d3 assms(3)]
  show ?thesis
    using assms(2) first len unfolding session_deserialize_def option.case read_u16 [OF d1 assms(1)] prod.case R
    by (auto simp: SESSION_MAX_BYTES_def option.map_comp comp_def split: prod.splits bool.splits if_splits intro!: option.map_ident_strong)
qed

section \<open>Writing\<close>

lemma and_then_True: "and_then r f = (True, s', h') \<longleftrightarrow> (\<exists>s h. r = (True, s, h) \<and> f s h = (True, s', h'))"
  by (auto simp: and_then_def split: prod.splits bool.splits)

text \<open>A write that adds exactly some bytes when it succeeds.\<close>

context allocator_laws
begin

definition adds :: "('h String \<Rightarrow> 'h \<Rightarrow> bool \<times> 'h String \<times> 'h) \<Rightarrow> char list \<Rightarrow> bool" where
  "adds f bytes \<longleftrightarrow> (\<forall>s h s' h'. ready s h \<longrightarrow> f s h = (True, s', h') \<longrightarrow>
     ready s' h' \<and> string_content s' = string_content s @ bytes)"

lemma adds_then: "adds f a \<Longrightarrow> adds g b \<Longrightarrow> adds (\<lambda>s h. and_then (f s h) g) (a @ b)"
  unfolding adds_def and_then_True by (metis append.assoc)

lemma adds_chars: "adds (append_chars ns) (map char_of ns)"
  unfolding adds_def append_chars_def
proof (intro allI impI)
  fix s h s' h'
  let ?ps = "map (\<lambda>n. Append (View [char_of n])) ns :: Piece list"
  assume r: "ready s h" and e: "string_emit s h ?ps = (True, s', h')"
  have ok: "\<forall>p\<in>set ?ps. piece_ok p" by simp
  have all_chars: "pieces_text ?ps = map char_of ns" by (induction ns) auto
  show "ready s' h' \<and> string_content s' = string_content s @ map char_of ns"
    using emit_spec [OF r ok e] unfolding all_chars by simp
qed

lemma adds_view:
  assumes "ready s h" "string_append s h (Outside v) = (True, s', h')"
  shows "ready s' h' \<and> string_content s' = string_content s @ sv_bytes v \<and> sv_length v = length (sv_bytes v)"
proof -
  have src: "source_ok s (Outside v)" by (simp add: source_ok_def)
  have "stringv_valid v" using assms(2) by (auto simp: string_append_def source_valid_def split: if_splits)
  then have "sv_length v = length (sv_bytes v)" by (cases v) (auto simp: stringv_valid_def)
  then show ?thesis using append_spec [OF assms(1) src assms(2)] by (simp add: source_bytes_def)
qed

lemma write_u16: "adds (session_write_u16 n) (chars16 n)" and write_u16_small:
    "session_write_u16 n s h = (True, s', h') \<Longrightarrow> n \<le> 65535"
  using adds_chars [of "[drop_bit 8 n, n]"]
  by (auto simp: session_write_u16_def adds_def chars16_def UINT16_MAX_def split: if_splits)

lemma write_u32: "adds (session_write_u32 n) (chars32 n)"
  using adds_chars [of "[drop_bit 24 n, drop_bit 16 n, drop_bit 8 n, n]"]
  by (auto simp: session_write_u32_def adds_def chars32_def split: if_splits)

lemma write_u64: "adds (session_write_u64 i) (chars64 i)"
proof -
  have "session_write_u64 i = append_chars (map (\<lambda>shift. unat (drop_bit shift (word_of_int i :: 64 word))) [56, 48, 40, 32, 24, 16, 8, 0])"
    by (intro ext) (simp add: session_write_u64_def)
  moreover have "chars64 i = map char_of (map (\<lambda>shift. unat (drop_bit shift (word_of_int i :: 64 word))) [56, 48, 40, 32, 24, 16, 8, 0])"
    by (simp add: chars64_def)
  ultimately show ?thesis using adds_chars by metis
qed

lemma write_key:
  assumes "ready s h" "session_write_key key s h = (True, s', h')"
  shows "ready s' h' \<and> string_content s' = string_content s @ chars16 (length (sv_bytes key)) @ sv_bytes key \<and>
    length (sv_bytes key) \<le> 65535"
proof -
  obtain s1 h1 where 1: "session_write_u16 (sv_length key) s h = (True, s1, h1)"
      and 2: "string_append s1 h1 (Outside key) = (True, s', h')"
    using assms(2) by (auto simp: session_write_key_def and_then_True split: if_splits)
  have "ready s1 h1" "string_content s1 = string_content s @ chars16 (sv_length key)"
    using write_u16 [of "sv_length key"] assms(1) 1 unfolding adds_def by blast+
  then show ?thesis using adds_view [OF _ 2] write_u16_small [OF 1] by auto
qed

lemma write_value:
  assumes "ready s h" "session_write_value v s h = (True, s', h')"
  shows "ready s' h' \<and> string_content s' = string_content s @ value_bytes (value_payload v) \<and> storable (value_payload v)"
proof (cases "value_payload v")
  case (SM_VALUE_STRING t)
  obtain s1 h1 s2 h2 where 1: "append_chars [1] s h = (True, s1, h1)"
      and 2: "session_write_u32 (sv_length t) s1 h1 = (True, s2, h2)"
      and 3: "string_append s2 h2 (Outside t) = (True, s', h')" and small: "sv_length t \<le> 4294967295"
    using assms(2) SM_VALUE_STRING
    by (auto simp: session_write_value_def and_then_True UINT32_MAX_def split: if_splits)
  have r1: "ready s1 h1" "string_content s1 = string_content s @ [char_of (1::nat)]"
    using adds_chars [of "[1]"] assms(1) 1 unfolding adds_def by auto
  then have r2: "ready s2 h2" "string_content s2 = string_content s1 @ chars32 (sv_length t)"
    using write_u32 [of "sv_length t"] 2 unfolding adds_def by blast+
  then show ?thesis using r1 adds_view [OF r2(1) 3] small SM_VALUE_STRING
    by (simp add: value_bytes_def storable_def)
next
  case (SM_VALUE_INT64 i)
  obtain s1 h1 where 1: "append_chars [2] s h = (True, s1, h1)" and 2: "session_write_u64 i s1 h1 = (True, s', h')"
    using assms(2) SM_VALUE_INT64 by (auto simp: session_write_value_def and_then_True)
  have r1: "ready s1 h1" "string_content s1 = string_content s @ [char_of (2::nat)]"
    using adds_chars [of "[2]"] assms(1) 1 unfolding adds_def by auto
  then show ?thesis using write_u64 [of i] 2 SM_VALUE_INT64 unfolding adds_def
    by (auto simp: value_bytes_def storable_def)
next
  case (SM_VALUE_BOOL b)
  then show ?thesis using adds_chars [of "[3, of_bool b]"] assms unfolding adds_def
    by (auto simp: session_write_value_def value_bytes_def storable_def)
qed (use assms in \<open>simp_all add: session_write_value_def\<close>)

lemma write_entries:
  assumes "ready s h" "session_write_entries M index s h = (True, s', h')" "map_capacity M < n + index"
    and "string_length s \<le> 16384"
  shows "ready s' h' \<and> string_content s' = string_content s @ concat (map entry_bytes (sm_iterate n M index)) \<and>
    (\<forall>(k, v)\<in>set (sm_iterate n M index). length k \<le> 65535 \<and> storable (value_payload v)) \<and> string_length s' \<le> 16384"
  using assms
proof (induction n arbitrary: index s h)
  case 0
  have "sm_next_const M index = None" using 0(3) by (auto simp: sm_next_const_def split: option.splits)
  then show ?case using 0 by (simp add: session_write_entries.simps)
next
  case (Suc n)
  show ?case
  proof (cases "sm_next_const M index")
    case None
    then show ?thesis using Suc.prems by (simp add: session_write_entries.simps)
  next
    case (Some r)
    obtain next_index key v where r: "r = (next_index, key, v)" by (cases r)
    have adv: "index < next_index" using Some r
      by (auto simp: sm_next_const_def split: option.splits dest: next_from_advances)
    obtain s2 h2 where w: "and_then (session_write_key key s h) (session_write_value v) = (True, s2, h2)"
      and small: "string_length s2 \<le> 16384" and go: "session_write_entries M next_index s2 h2 = (True, s', h')"
      using Suc.prems(2) Some r by (subst (asm) session_write_entries.simps)
        (auto simp: SESSION_MAX_BYTES_def split: prod.splits bool.splits if_splits)
    obtain s1 h1 where 1: "session_write_key key s h = (True, s1, h1)" and 2: "session_write_value v s1 h1 = (True, s2, h2)"
      using w by (auto simp: and_then_True)
    note K = write_key [OF Suc.prems(1) 1]
    note V = write_value [OF K [THEN conjunct1] 2]
    have "map_capacity M < n + next_index" using Suc.prems(3) adv by linarith
    note IH = Suc.IH [OF V [THEN conjunct1] go this small]
    show ?thesis using IH K V Some r by (simp add: entry_bytes_def [of "(_, _)"])
  qed
qed

end

section \<open>Storing what was read\<close>

text \<open>What a value is to a reader: the bytes of a string, not where they are.\<close>

definition plain_value :: "StringMapValue \<Rightarrow> StringMapPayload" where
  "plain_value v = (case value_payload v of SM_VALUE_STRING s \<Rightarrow> SM_VALUE_STRING (View (sv_bytes s)) | p \<Rightarrow> p)"

definition session_map :: "Context \<Rightarrow> char list \<rightharpoonup> StringMapValue" where
  "session_map c = sm_map (session_values (ctx_session c))"

definition session_ok :: "Context \<Rightarrow> bool" where
  "session_ok c \<longleftrightarrow> sm_ok (session_values (ctx_session c)) \<and> ctx_arena c \<noteq> None"

lemma set_value_accepts: "sm_set_value M h key v = Some (True, M', h') \<Longrightarrow> \<not> map_value_rejected v"
  by (auto simp: sm_set_value_def string_map_set_internal_def)

lemma string_copy_plain:
  assumes "sm_string_copy M h (View s) = (v, h')" "\<not> map_value_rejected v"
  shows "plain_value v = SM_VALUE_STRING (View s)"
  using assms
  by (auto simp: sm_string_copy_def string_map_copy_bytes_def view_memory_def view_of_copy_def value_zero_def
      map_value_rejected_def mem_write_def plain_value_def split: if_splits prod.splits option.splits)

text \<open>The context after an operation on the session's map.\<close>

abbreviation map_stored :: "Context \<Rightarrow> Arena \<Rightarrow> Arena StringMap \<Rightarrow> Context" where
  "map_stored c A M \<equiv> c\<lparr>ctx_arena := Some A, ctx_session := (ctx_session c)\<lparr>session_values := M\<rparr>\<rparr>"

lemma on_session_map_call:
  assumes "ctx_arena c = Some A" "f (session_values (ctx_session c)) A = Some (b, M, A1)" "sm_ok M"
  shows "on_session_map f c = Some (b, map_stored c A1 M) \<and> session_ok (map_stored c A1 M) \<and>
    session_map (map_stored c A1 M) = sm_map M"
  using assms by (simp add: on_session_map_def session_ok_def session_map_def)

lemma set_value_effect:
  assumes "sm_ok M"
  shows "\<exists>b M' A'. sm_set_value M A key v = Some (b, M', A') \<and> sm_ok M' \<and>
    (sm_map M' = (if b then (sm_map M)(sv_bytes key \<mapsto> v) else sm_map M))"
  using string_table.set_view [OF assms] by blast

lemma set_string_effect:
  assumes "sm_ok M"
  shows "\<exists>b M' A'. sm_set_string_view M A key (View s) = Some (b, M', A') \<and> sm_ok M' \<and>
    (if b then \<exists>v. sm_map M' = (sm_map M)(sv_bytes key \<mapsto> v) \<and> plain_value v = SM_VALUE_STRING (View s)
     else sm_map M' = sm_map M)"
proof -
  obtain v h where v: "sm_string_copy M A (View s) = (v, h)" by fastforce
  obtain b M' A' where S: "sm_set_value M h key v = Some (b, M', A')" "sm_ok M'"
      "sm_map M' = (if b then (sm_map M)(sv_bytes key \<mapsto> v) else sm_map M)"
    using set_value_effect [OF assms, of h key v] by blast
  then have "plain_value v = SM_VALUE_STRING (View s)" if b
    using that string_copy_plain [OF v] set_value_accepts [of M h key v M' A'] by simp
  then show ?thesis using S v by (auto simp: sm_set_string_view_def)
qed

lemma store_value_effect:
  assumes "session_ok c" "storable (value_payload v)"
  shows "\<exists>b c'. store_value k (value_payload v) c = Some (b, c') \<and> session_ok c' \<and>
    (b \<longrightarrow> (\<exists>v'. session_map c' = (session_map c)(k \<mapsto> v') \<and> plain_value v' = plain_value v))"
proof -
  obtain A where A: "ctx_arena c = Some A" and ok: "sm_ok (session_values (ctx_session c))"
    using assms(1) by (auto simp: session_ok_def)
  have number: "\<exists>b c'. on_session_map (\<lambda>M A. sm_set_value M A (View k) u) c = Some (b, c') \<and> session_ok c' \<and>
      (b \<longrightarrow> (\<exists>v'. session_map c' = (session_map c)(k \<mapsto> v') \<and> plain_value v' = plain_value v))"
    if "plain_value u = plain_value v" for u
  proof -
    obtain b M' A' where S: "sm_set_value (session_values (ctx_session c)) A (View k) u = Some (b, M', A')" "sm_ok M'"
        "sm_map M' = (if b then (session_map c)(k \<mapsto> u) else session_map c)"
      using set_value_effect [OF ok, of A "View k" u] by (auto simp: session_map_def)
    from on_session_map_call [OF A, of "\<lambda>M A. sm_set_value M A (View k) u", OF S(1,2)] S(3) that
    show ?thesis by auto
  qed
  show ?thesis
  proof (cases "value_payload v")
    case (SM_VALUE_STRING s)
    have v: "plain_value v = SM_VALUE_STRING (View (sv_bytes s))" by (simp add: plain_value_def SM_VALUE_STRING)
    obtain b M' A' where S: "sm_set_string_view (session_values (ctx_session c)) A (View k) (View (sv_bytes s)) =
          Some (b, M', A')" "sm_ok M'"
        "if b then \<exists>u. sm_map M' = (session_map c)(k \<mapsto> u) \<and> plain_value u = plain_value v else sm_map M' = session_map c"
      using set_string_effect [OF ok, of A "View k" "sv_bytes s"] unfolding v session_map_def sv_bytes.simps by blast
    from on_session_map_call [OF A, of "\<lambda>M A. sm_set_string_view M A (View k) (View (sv_bytes s))", OF S(1,2)] S(3)
    show ?thesis by (auto simp: store_value_def SM_VALUE_STRING)
  next
    case (SM_VALUE_INT64 i)
    then show ?thesis using number [of "sm_int i"] by (simp add: store_value_def plain_value_def sm_int_def)
  next
    case (SM_VALUE_BOOL t)
    then show ?thesis using number [of "sm_bool t"] by (simp add: store_value_def plain_value_def sm_bool_def)
  qed (use assms in \<open>simp_all add: storable_def\<close>)
qed

lemma store_all_effect:
  assumes "session_ok c" "\<forall>(k, v)\<in>set es. storable (value_payload v)" "distinct (map fst es)"
  shows "\<exists>b c'. store_all es c = Some (b, c') \<and> session_ok c' \<and>
    (b \<longrightarrow> (\<forall>k. map_option plain_value (session_map c' k) =
       (case map_of es k of Some v \<Rightarrow> Some (plain_value v) | None \<Rightarrow> map_option plain_value (session_map c k))))"
  using assms
proof (induction es arbitrary: c)
  case (Cons e es)
  obtain k v where e: "e = (k, v)" by (cases e)
  obtain b c1 where S: "store_value k (value_payload v) c = Some (b, c1)" "session_ok c1"
      "b \<Longrightarrow> \<exists>v'. session_map c1 = (session_map c)(k \<mapsto> v') \<and> plain_value v' = plain_value v"
    using store_value_effect [OF Cons.prems(1)] Cons.prems(2) e by (metis (no_types, lifting) case_prodD list.set_intros(1))
  show ?case
  proof (cases b)
    case False
    then show ?thesis using S e by auto
  next
    case True
    obtain v' where v': "session_map c1 = (session_map c)(k \<mapsto> v')" "plain_value v' = plain_value v" using S True by blast
    obtain b2 c2 where R: "store_all es c1 = Some (b2, c2)" "session_ok c2"
        "b2 \<Longrightarrow> \<forall>k. map_option plain_value (session_map c2 k) =
           (case map_of es k of Some v \<Rightarrow> Some (plain_value v) | None \<Rightarrow> map_option plain_value (session_map c1 k))"
      using Cons.IH [OF S(2)] Cons.prems(2,3) by auto
    have "map_of es k = None" using Cons.prems(3) e by (simp add: map_of_eq_None_iff)
    then show ?thesis using R S(1) e True v' by (auto split: option.splits)
  qed
qed auto

section \<open>Properties\<close>

definition session_entries :: "Context \<Rightarrow> entry list" where
  "session_entries c =
     (let M = session_values (ctx_session c) in sm_iterate (map_capacity M + 1) M sm_iterator)"

lemma session_entries_spec:
  assumes "session_ok c"
  shows "distinct (map fst (session_entries c))" "length (session_entries c) = sm_length (session_values (ctx_session c))"
    "map_of (session_entries c) = session_map c"
proof -
  let ?M = "session_values (ctx_session c)"
  have ok: "sm_ok ?M" using assms by (simp add: session_ok_def)
  have "distinct (map fst (session_entries c)) \<and> length (session_entries c) = sm_length ?M \<and>
      map_of (session_entries c) = session_map c"
  proof (cases "map_slots ?M")
    case None
    then show ?thesis using ok
      by (simp add: session_entries_def sm_next_const_def sm_length_def sm_ok_def sm_map_def session_map_def)
  next
    case (Some slots)
    note D = sm_okD [OF ok Some]
    have "sm_iterate (map_capacity ?M + 1) ?M sm_iterator = occ_pairs slots"
      using iterate_spec [OF Some, of 0 "map_capacity ?M + 1"] D by (simp add: sm_iterator_def)
    then have entries: "session_entries c = occ_pairs slots" by (simp only: session_entries_def Let_def)
    show ?thesis using D Some unfolding entries
      by (simp add: slots_ok_def sm_length_def occ_count_def occ_pairs_def sm_map_def slots_map_def
          session_map_def Let_def)
  qed
  then show "distinct (map fst (session_entries c))" "length (session_entries c) = sm_length ?M"
    "map_of (session_entries c) = session_map c" by simp_all
qed

lemma serialize_bytes:
  assumes good: "arena_good m c" and ok: "session_ok c" and call: "session_serialize m c = (True, s, c')"
  shows "string_content s = session_bytes (session_entries c)" "length (session_entries c) \<le> 65535"
    "\<forall>(k, v)\<in>set (session_entries c). length k \<le> 65535 \<and> storable (value_payload v)"
    "string_length s \<le> 16384" "\<exists>A. ctx_arena c' = Some A \<and> arena_inv A" "string_ok s" "same_but_arena c c'"
proof -
  let ?M = "session_values (ctx_session c)"
  obtain A where A: "ctx_arena c = Some A" "malloc_spec m \<and> arena_inv A"
    using good ok by (auto simp: arena_good_def session_ok_def)
  let ?out = "string_new (arena_allocator m)"
  obtain A1 where c': "c' = c\<lparr>ctx_arena := Some A1\<rparr>" and w: "sm_length ?M \<le> 65535"
      "and_then (append_chars [1] ?out A) (\<lambda>s1 h1. and_then (session_write_u16 (sm_length ?M) s1 h1)
         (session_write_entries ?M sm_iterator)) = (True, s, A1)"
    using call A(1) by (auto simp: session_serialize_def Let_def UINT16_MAX_def split: prod.splits if_splits)
  obtain s1 h1 s2 h2 where 1: "append_chars [1] ?out A = (True, s1, h1)"
      and 2: "session_write_u16 (sm_length ?M) s1 h1 = (True, s2, h2)"
      and 3: "session_write_entries ?M sm_iterator s2 h2 = (True, s, A1)"
    using w(2) by (auto simp: and_then_True)
  have r1: "arena_provider.ready m s1 h1 \<and> string_content s1 = [char_of (1::nat)]"
    using arena_provider.adds_chars [of m "[1]"] arena_provider.ready_new [OF A(2)] 1
    unfolding arena_provider.adds_def by fastforce
  then have r2: "arena_provider.ready m s2 h2" "string_content s2 = char_of (1::nat) # chars16 (sm_length ?M)"
    using arena_provider.write_u16 [of m "sm_length ?M"] 2 unfolding arena_provider.adds_def by auto
  have "string_ok s2" using r2 by (simp add: arena_provider.ready_def)
  then have "string_length s2 \<le> 16384" using string_content_length [of s2] r2(2) by simp
  note W = arena_provider.write_entries [OF r2(1) 3, of "map_capacity ?M + 1", OF _ this]
  have entries: "sm_iterate (map_capacity ?M + 1) ?M sm_iterator = session_entries c"
    by (simp only: session_entries_def Let_def)
  have W': "arena_provider.ready m s A1 \<and> string_content s = string_content s2 @ concat (map entry_bytes (session_entries c)) \<and>
    (\<forall>(k, v)\<in>set (session_entries c). length k \<le> 65535 \<and> storable (value_payload v)) \<and> string_length s \<le> 16384"
    using W unfolding entries by (simp add: sm_iterator_def)
  note L = session_entries_spec(2) [OF ok]
  show "string_content s = session_bytes (session_entries c)" using W' r2(2) L by (simp add: session_bytes_def)
  show "length (session_entries c) \<le> 65535" using w(1) L by simp
  show "\<forall>(k, v)\<in>set (session_entries c). length k \<le> 65535 \<and> storable (value_payload v)" "string_length s \<le> 16384"
    using W' by blast+
  show "\<exists>A. ctx_arena c' = Some A \<and> arena_inv A" "string_ok s"
    using W' c' by (simp_all add: arena_provider.ready_def)
  show "same_but_arena c c'" using A(1) c' by (auto simp: same_but_arena_def)
qed

lemma map_init_fresh:
  assumes "session_values (ctx_session d) = map_zero" "ctx_arena d \<noteq> None"
  shows "\<exists>M. session_map_init m d = (True, d\<lparr>ctx_session := (ctx_session d)\<lparr>session_values := M\<rparr>\<rparr>) \<and>
    session_ok (d\<lparr>ctx_session := (ctx_session d)\<lparr>session_values := M\<rparr>\<rparr>) \<and>
    session_map (d\<lparr>ctx_session := (ctx_session d)\<lparr>session_values := M\<rparr>\<rparr>) = Map.empty"
proof -
  have init: "sm_init map_zero (arena_allocator m) = (True, map_zero\<lparr>map_allocator := arena_allocator m\<rparr>)"
    by (simp add: sm_init_def string_map_initialized_def map_zero_def allocator_zero_def arena_allocator_def)
  have "allocator_alloc (map_allocator (map_zero :: Arena StringMap)) = None" by (simp add: map_zero_def allocator_zero_def)
  then show ?thesis using assms init_spec [OF init] init
    by (auto simp: session_map_init_def session_ok_def session_map_def)
qed

text \<open>C33: Sessions survive storage. Whatever bytes \<open>session_serialize\<close> produces, \<open>session_deserialize\<close> on a
  context that has no session yet does exactly what storing the entries one by one with the setters
  would do, and reports failure only where one of those stores fails (out of memory). When it reports
  success, every key has the value it had: the same type, number, truth value or bytes.\<close>

theorem session_roundtrip:
  assumes "arena_good m c" "session_ok c" "session_serialize m c = (True, s, c')"
    and "\<forall>(k, v)\<in>set (session_entries c). int64_ok (value_payload v)"
    and "session_values (ctx_session d) = map_zero" "ctx_arena d \<noteq> None"
  shows "\<exists>ok d'. session_deserialize m d (Some (string_content s)) (string_length s) = Some (ok, d') \<and>
    store_all (session_entries c) (snd (session_map_init m d)) = Some (ok, d') \<and> session_ok d' \<and>
    (ok \<longrightarrow> (\<forall>k. map_option plain_value (session_map d' k) = map_option plain_value (session_map c k)))"
proof -
  note S = serialize_bytes [OF assms(1-3)]
  have len: "string_length s = length (session_bytes (session_entries c))"
    using string_content_length [OF S(6)] S(1) by simp
  have entries: "\<forall>(k, v)\<in>set (session_entries c). length k \<le> 65535 \<and> storable (value_payload v) \<and> int64_ok (value_payload v)"
    using S(3) assms(4) by blast
  obtain M where M: "session_map_init m d = (True, d\<lparr>ctx_session := (ctx_session d)\<lparr>session_values := M\<rparr>\<rparr>)"
      "session_ok (d\<lparr>ctx_session := (ctx_session d)\<lparr>session_values := M\<rparr>\<rparr>)"
      "session_map (d\<lparr>ctx_session := (ctx_session d)\<lparr>session_values := M\<rparr>\<rparr>) = Map.empty"
    using map_init_fresh [OF assms(5,6)] by blast
  have "\<forall>(k, v)\<in>set (session_entries c). storable (value_payload v)" using entries by blast
  then obtain ok d' where D: "store_all (session_entries c) (d\<lparr>ctx_session := (ctx_session d)\<lparr>session_values := M\<rparr>\<rparr>) = Some (ok, d')"
      "session_ok d'" "ok \<Longrightarrow> \<forall>k. map_option plain_value (session_map d' k) =
        (case map_of (session_entries c) k of Some v \<Rightarrow> Some (plain_value v) | None \<Rightarrow> None)"
    using store_all_effect [OF M(2) _ session_entries_spec(1) [OF assms(2)]] unfolding M(3) option.map by blast
  have "session_deserialize m d (Some (string_content s)) (string_length s) = Some (ok, d')"
    using deserialize_bytes [OF S(2) _ entries, of m d] S(4) unfolding len S(1) M(1) by (simp add: D(1))
  moreover have "map_option plain_value (session_map d' k) = map_option plain_value (session_map c k)" if ok for k
    using D(3) [OF that] session_entries_spec(3) [OF assms(2)] by (auto split: option.splits)
  ultimately show ?thesis using D M(1) by auto
qed

definition demo_session :: Context where
  "demo_session = snd (session_map_init demo_malloc demo_context)"

lemma demo_session_ok: "session_ok demo_session" "session_map demo_session = Map.empty" "arena_good demo_malloc demo_session"
  "session_values (ctx_session demo_session) = map_zero\<lparr>map_allocator := arena_allocator demo_malloc\<rparr>"
  "ctx_arena demo_session = Some demo_arena"
proof -
  have fresh: "session_values (ctx_session demo_context) = map_zero" "ctx_arena demo_context = Some demo_arena"
    by (simp_all add: demo_context_def context_zero_def session_zero_def)
  then obtain M where M: "session_map_init demo_malloc demo_context =
        (True, demo_context\<lparr>ctx_session := (ctx_session demo_context)\<lparr>session_values := M\<rparr>\<rparr>)"
      "session_ok (demo_context\<lparr>ctx_session := (ctx_session demo_context)\<lparr>session_values := M\<rparr>\<rparr>)"
      "session_map (demo_context\<lparr>ctx_session := (ctx_session demo_context)\<lparr>session_values := M\<rparr>\<rparr>) = Map.empty"
    using map_init_fresh [OF fresh(1), of demo_malloc] by auto
  then show "session_ok demo_session" "session_map demo_session = Map.empty" by (simp_all add: demo_session_def)
  show "arena_good demo_malloc demo_session" "ctx_arena demo_session = Some demo_arena"
    using demo_context_good fresh M(1) by (simp_all add: demo_session_def arena_good_def)
  show "session_values (ctx_session demo_session) = map_zero\<lparr>map_allocator := arena_allocator demo_malloc\<rparr>"
    by (simp add: demo_session_def session_map_init_def fresh sm_init_def string_map_initialized_def map_zero_def
        allocator_zero_def arena_allocator_def)
qed

lemma demo_serialize: "\<exists>s c'. session_serialize demo_malloc demo_session = (True, s, c')"
proof -
  have alloc: "arena_alloc demo_malloc demo_arena 17 = (Some (1, 0), demo_arena_at 17 1)"
    by (simp add: arena_eval demo_arena_at_def demo_arena_def demo_block_def arena_init_def arena_zero_def
        demo_malloc_def)
  have load: "arena_load (demo_arena_at 17 (Suc 0)) (Suc 0, 0) 17 = replicate 17 (CHR 0x00)"
    by (simp add: arena_load_def chain_at_def demo_arena_at_def demo_block_def)
  show ?thesis
    by (simp add: session_serialize_def demo_session_ok(4,5) sm_length_def map_zero_def UINT16_MAX_def and_then_def
        session_write_u16_def append_chars_def session_write_entries.simps sm_next_const_def
        string_append_piece_def string_append_def string_reserve_def string_new_buffer_def string_grow.simps
        source_valid_def source_length_def source_bytes_def string_storage_offset_def
        string_rebase_view_def string_put_def mem_write_def sz_sub_def Let_def SIZE_MAX_def
        string_new_def arena_allocator_def arena_realloc_def arena_allocator_alloc_def alloc load
        stringv_valid_def)
qed

theorem session_roundtrip_witness:
  "\<exists>s c' d'. session_serialize demo_malloc demo_session = (True, s, c') \<and>
     session_deserialize demo_malloc demo_context (Some (string_content s)) (string_length s) = Some (True, d')"
proof -
  obtain s c' where s: "session_serialize demo_malloc demo_session = (True, s, c')" using demo_serialize by blast
  have none: "session_entries demo_session = []"
    by (simp add: session_entries_def demo_session_ok(4) sm_next_const_def map_zero_def Let_def)
  have fresh: "session_values (ctx_session demo_context) = map_zero" "ctx_arena demo_context \<noteq> None"
    by (simp_all add: demo_context_def context_zero_def session_zero_def)
  have "\<forall>(k, v)\<in>set (session_entries demo_session). int64_ok (value_payload v)" by (simp add: none)
  from session_roundtrip [OF demo_session_ok(3,1) s this fresh] show ?thesis using s none by auto
qed

section \<open>Committing\<close>

lemma delete_digest_spec:
  assumes "session_delete_digest E c w t = (ok, c', w')"
  shows "(\<exists>d. c' = c\<lparr>ctx_database := d\<rparr>) \<and>
    (ok \<longrightarrow> (\<exists>digest db db1 w1. crypto_generichash E (sv_bytes t) = Some digest \<and> ctx_database c = Some db \<and>
       run_bound E w1 db (sv SESSION_DELETE) [Blob (Some digest) 32] = (True, db1, w')))"
proof -
  have same: "\<exists>d. c = c\<lparr>ctx_database := d\<rparr>" by (rule exI [of _ "ctx_database c"]) simp
  obtain dg w1 where d: "session_digest E w t = (dg, w1)" by fastforce
  show ?thesis
  proof (cases "dg = None \<or> ctx_database c = None")
    case True
    then show ?thesis using assms same by (auto simp: session_delete_digest_def d split: option.splits)
  next
    case False
    then obtain digest db where D: "dg = Some digest" "ctx_database c = Some db" by auto
    obtain ok1 db1 w2 where r: "run_bound E w1 db (sv SESSION_DELETE) [Blob (Some digest) 32] = (ok1, db1, w2)"
      by (metis prod_cases3)
    have hash: "crypto_generichash E (sv_bytes t) = Some digest"
      using d D(1) by (auto simp: session_digest_def split: if_splits prod.splits bool.splits)
    have res: "ok = ok1" "c' = c\<lparr>ctx_database := Some db1\<rparr>" "w' = w2"
      using assms unfolding session_delete_digest_def d D option.case prod.case Let_def r by simp_all
    then show ?thesis using hash D(2) r by auto blast
  qed
qed

lemma generate_token_spec:
  assumes "arena_good m c" "session_generate_token E m c w = (ok, c', w')"
  shows "\<exists>a t. c' = c\<lparr>ctx_arena := a, ctx_session := (ctx_session c)\<lparr>session_token := t\<rparr>\<rparr> \<and> arena_good m c' \<and>
    (ctx_arena c \<noteq> None \<longrightarrow> a \<noteq> None) \<and>
    (ok \<longrightarrow> (\<exists>w1 bytes. randombytes_buf E w1 32 = (bytes, w') \<and>
       string_as_view t = View (c_string (sodium_bin2base64 E bytes))))"
proof -
  have same: "c = c\<lparr>ctx_arena := ctx_arena c, ctx_session := (ctx_session c)\<lparr>session_token := session_token (ctx_session c)\<rparr>\<rparr>"
    by simp
  obtain ready w1 where init: "sodium_init E w = (ready, w1)" by fastforce
  show ?thesis
  proof (cases "ctx_arena c = None \<or> \<not> ready")
    case True
    then have "\<not> ok" "c' = c" using assms(2)
      by (auto simp: session_generate_token_def init split: option.splits)
    then show ?thesis using same assms(1) by blast
  next
    case False
    then obtain A where A: "ctx_arena c = Some A" and ready: ready by auto
    obtain bytes w2 where b: "randombytes_buf E w1 SESSION_TOKEN_BYTES = (bytes, w2)" by fastforce
    obtain t A1 where t: "string_from (arena_allocator m) A (View (c_string (sodium_bin2base64 E bytes))) = (t, A1)" by fastforce
    have inv: "malloc_spec m" "arena_inv A" using assms(1) A by (simp_all add: arena_good_def)
    have res: "ok = (string_data t \<noteq> None)" "w' = w2"
        "c' = c\<lparr>ctx_arena := Some A1, ctx_session := (ctx_session c)\<lparr>session_token := t\<rparr>\<rparr>"
      using assms(2) ready unfolding session_generate_token_def A option.case init
      by (simp_all add: b t Let_def)
    have "arena_good m c'" using arena_copy(1) [OF inv t] inv by (simp add: res arena_good_def)
    moreover have "string_as_view t = View (c_string (sodium_bin2base64 E bytes))" if ok
      using arena_copy(2) [OF inv t] that res by simp
    ultimately show ?thesis using res b
      by (intro exI [of _ "Some A1"] exI [of _ t]) (auto simp: SESSION_TOKEN_BYTES_def)
  qed
qed

text \<open>The parameters of the statement that saves a session.\<close>

definition commit_parameters :: "char list \<Rightarrow> buffer option \<Rightarrow> size_t \<Rightarrow> int \<Rightarrow> int \<Rightarrow> Parameter list" where
  "commit_parameters digest data len now expires =
     [Blob (Some digest) 32, Blob data len, Blob (Some digest) 32, Int64 now, Int64 now, Int64 expires]"

abbreviation commit_needed :: "Context \<Rightarrow> bool" where
  "commit_needed c \<equiv> session_loaded (ctx_session c) \<and> session_dirty (ctx_session c) \<and> \<not> session_destroy_flag (ctx_session c)"

abbreviation token_bytes :: "Context \<Rightarrow> char list" where
  "token_bytes c \<equiv> sv_bytes (string_as_view (session_token (ctx_session c)))"

abbreviation old_length :: "Context \<Rightarrow> size_t" where
  "old_length c \<equiv> sv_length (string_as_view (session_token (ctx_session c)))"

lemma commit_steps:
  assumes "commit_needed c" "session_commit E m cfg c w = (True, c', w')"
  obtains c1 w1 c2 w2 rec c3 digest w3 now w4 db db1 c6 where
    "(if session_regenerate_flag (ctx_session c) \<and> old_length c > 0
      then session_delete_digest E c w (string_as_view (session_token (ctx_session c))) else (True, c, w)) = (True, c1, w1)"
    "(if old_length c = 0 \<or> session_regenerate_flag (ctx_session c1)
      then session_generate_token E m c1 w1 else (True, c1, w1)) = (True, c2, w2)"
    "session_serialize m c2 = (True, rec, c3)"
    "session_digest E w2 (string_as_view (session_token (ctx_session c3))) = (Some digest, w3)"
    "clock E w3 = (now, w4)" "ctx_database c3 = Some db"
    "run_bound E w4 db (sv SESSION_REPLACE) (commit_parameters digest (string_data rec) (string_length rec) now
       (now + ceasy_session_ttl_seconds cfg)) = (True, db1, w')"
    "context_set_cookie m ((set_session c3 (\<lambda>s. s\<lparr>session_expires_at := now + ceasy_session_ttl_seconds cfg\<rparr>))
         \<lparr>ctx_database := Some db1\<rparr>) (ceasy_session_cookie_name cfg)
       (string_as_view (session_token (ctx_session c3)))
       ((session_cookie_options cfg)\<lparr>cookie_max_age := ceasy_session_ttl_seconds cfg\<rparr>) = (True, c6)"
    "c' = set_session c6 (\<lambda>s. s\<lparr>session_exists := True, session_dirty := False, session_regenerate_flag := False\<rparr>)"
proof -
  note U = session_commit_def [of E m cfg c w]
  have go: "\<not> (\<not> session_loaded (ctx_session c) \<or> \<not> session_dirty (ctx_session c))" "\<not> session_destroy_flag (ctx_session c)"
    using assms(1) by simp_all
  obtain deleted c1 w1 where 1: "(if session_regenerate_flag (ctx_session c) \<and> old_length c > 0
      then session_delete_digest E c w (string_as_view (session_token (ctx_session c))) else (True, c, w)) = (deleted, c1, w1)"
    by (metis prod_cases3)
  obtain generated c2 w2 where 2: "(if old_length c = 0 \<or> session_regenerate_flag (ctx_session c1)
      then session_generate_token E m c1 w1 else (True, c1, w1)) = (generated, c2, w2)"
    by (metis prod_cases3)
  obtain serialized rec c3 where 3: "session_serialize m c2 = (serialized, rec, c3)" by (metis prod_cases3)
  obtain dg w3 where 4: "session_digest E w2 (string_as_view (session_token (ctx_session c3))) = (dg, w3)" by fastforce
  obtain now w4 where 5: "clock E w3 = (now, w4)" by fastforce
  note V = assms(2) [unfolded U if_not_P [OF go(1)] if_not_P [OF go(2)] Let_def 1 prod.case 2 3 4]
  have a: deleted generated serialized "\<not> string_length rec > SESSION_MAX_BYTES"
    using V by (auto split: if_splits)
  obtain digest where d: "dg = Some digest" using V a by (cases dg) auto
  note V2 = V [unfolded d option.case 5 prod.case, simplified a]
  obtain db where db: "ctx_database c3 = Some db" using V2 by (auto split: option.splits)
  obtain ok db1 w5 where 6: "run_bound E w4 db (sv SESSION_REPLACE) (commit_parameters digest (string_data rec)
       (string_length rec) now (now + ceasy_session_ttl_seconds cfg)) = (ok, db1, w5)" by (metis prod_cases3)
  obtain sent c6 where 7: "context_set_cookie m ((set_session c3 (\<lambda>s. s\<lparr>session_expires_at := now + ceasy_session_ttl_seconds cfg\<rparr>))
         \<lparr>ctx_database := Some db1\<rparr>) (ceasy_session_cookie_name cfg)
       (string_as_view (session_token (ctx_session c3)))
       ((session_cookie_options cfg)\<lparr>cookie_max_age := ceasy_session_ttl_seconds cfg\<rparr>) = (sent, c6)" by fastforce
  have fin: "ok" "sent" "w' = w5"
      "c' = set_session c6 (\<lambda>s. s\<lparr>session_exists := True, session_dirty := False, session_regenerate_flag := False\<rparr>)"
    using V2 6 7 by (auto simp: db commit_parameters_def split: if_splits)
  show thesis using that 1 2 3 4 5 6 7 a d db fin by simp
qed

lemma serialize_frame:
  assumes "arena_good m c" "session_ok c" "session_serialize m c = (True, s, c')"
  shows "arena_good m c'" "\<exists>a. c' = c\<lparr>ctx_arena := a\<rparr>"
  using serialize_bytes(5,7) [OF assms] assms(1) by (auto simp: arena_good_def same_but_arena_def)

lemma commit_effect:
  assumes good: "arena_good m c" and ok: "session_ok c" and need: "commit_needed c"
    and call: "session_commit E m cfg c w = (True, c', w')"
  shows "(let regenerate = session_regenerate_flag (ctx_session c); fresh = (regenerate \<or> old_length c = 0)
    in (regenerate \<and> old_length c > 0 \<longrightarrow>
          (\<exists>digest db db1 w1 w2. crypto_generichash E (token_bytes c) = Some digest \<and>
             run_bound E w1 db (sv SESSION_DELETE) [Blob (Some digest) 32] = (True, db1, w2))) \<and>
       (if fresh then \<exists>w1 bytes w2. randombytes_buf E w1 32 = (bytes, w2) \<and>
             token_bytes c' = c_string (sodium_bin2base64 E bytes)
        else session_token (ctx_session c') = session_token (ctx_session c)) \<and>
       (\<exists>digest (rec :: Arena String) db db1 w1 now. crypto_generichash E (token_bytes c') = Some digest \<and>
          string_content rec = session_bytes (session_entries c) \<and> string_length rec \<le> 16384 \<and>
          run_bound E w1 db (sv SESSION_REPLACE) (commit_parameters digest (string_data rec) (string_length rec) now
            (now + ceasy_session_ttl_seconds cfg)) = (True, db1, w')) \<and>
       response_headers c' = response_headers c @ [\<lparr>nv_name = View ''Set-Cookie'',
         nv_value = View (cookie_text (sv_bytes (ceasy_session_cookie_name cfg)) (token_bytes c')
           ((session_cookie_options cfg)\<lparr>cookie_max_age := ceasy_session_ttl_seconds cfg\<rparr>))\<rparr>] \<and>
       session_exists (ctx_session c') \<and> \<not> session_dirty (ctx_session c') \<and>
       \<not> session_regenerate_flag (ctx_session c') \<and> session_entries c' = session_entries c)"
proof (rule commit_steps [OF need call])
  fix c1 w1 c2 w2 rec c3 digest w3 now w4 db db1 c6
  assume 1: "(if session_regenerate_flag (ctx_session c) \<and> old_length c > 0
      then session_delete_digest E c w (string_as_view (session_token (ctx_session c))) else (True, c, w)) = (True, c1, w1)"
    and 2: "(if old_length c = 0 \<or> session_regenerate_flag (ctx_session c1)
      then session_generate_token E m c1 w1 else (True, c1, w1)) = (True, c2, w2)"
    and 3: "session_serialize m c2 = (True, rec, c3)"
    and 4: "session_digest E w2 (string_as_view (session_token (ctx_session c3))) = (Some digest, w3)"
    and 6: "run_bound E w4 db (sv SESSION_REPLACE) (commit_parameters digest (string_data rec) (string_length rec) now
       (now + ceasy_session_ttl_seconds cfg)) = (True, db1, w')"
    and 7: "context_set_cookie m ((set_session c3 (\<lambda>s. s\<lparr>session_expires_at := now + ceasy_session_ttl_seconds cfg\<rparr>))
         \<lparr>ctx_database := Some db1\<rparr>) (ceasy_session_cookie_name cfg)
       (string_as_view (session_token (ctx_session c3)))
       ((session_cookie_options cfg)\<lparr>cookie_max_age := ceasy_session_ttl_seconds cfg\<rparr>) = (True, c6)"
    and 8: "c' = set_session c6 (\<lambda>s. s\<lparr>session_exists := True, session_dirty := False, session_regenerate_flag := False\<rparr>)"
  let ?regenerate = "session_regenerate_flag (ctx_session c)"
  obtain d where c1: "c1 = c\<lparr>ctx_database := d\<rparr>"
  proof (cases "?regenerate \<and> old_length c > 0")
    case True
    then have "session_delete_digest E c w (string_as_view (session_token (ctx_session c))) = (True, c1, w1)" using 1 by simp
    from delete_digest_spec [OF this] that show thesis by blast
  next
    case False
    then have "c1 = c" using 1 by (auto split: if_splits)
    then show thesis using that [of "ctx_database c"] by simp
  qed
  have good1: "arena_good m c1" "session_ok c1" using good ok by (simp_all add: c1 arena_good_def session_ok_def)
  have deleted: "\<exists>digest db db1 w1 w2. crypto_generichash E (token_bytes c) = Some digest \<and>
      run_bound E w1 db (sv SESSION_DELETE) [Blob (Some digest) 32] = (True, db1, w2)" if "?regenerate \<and> old_length c > 0"
  proof -
    have "session_delete_digest E c w (string_as_view (session_token (ctx_session c))) = (True, c1, w1)" using 1 that by simp
    from delete_digest_spec [OF this] show ?thesis by blast
  qed
  obtain a t where c2: "c2 = c1\<lparr>ctx_arena := a, ctx_session := (ctx_session c1)\<lparr>session_token := t\<rparr>\<rparr>" "arena_good m c2" "a \<noteq> None"
      and token: "if ?regenerate \<or> old_length c = 0 then \<exists>w1 bytes w2. randombytes_buf E w1 32 = (bytes, w2) \<and>
          string_as_view t = View (c_string (sodium_bin2base64 E bytes))
        else t = session_token (ctx_session c)"
  proof (cases "?regenerate \<or> old_length c = 0")
    case True
    then have g: "session_generate_token E m c1 w1 = (True, c2, w2)" using 2 by (auto simp: c1)
    have arena: "ctx_arena c1 \<noteq> None" using good1(2) by (simp add: session_ok_def)
    obtain a t where G: "c2 = c1\<lparr>ctx_arena := a, ctx_session := (ctx_session c1)\<lparr>session_token := t\<rparr>\<rparr>" "arena_good m c2"
        "ctx_arena c1 \<noteq> None \<longrightarrow> a \<noteq> None" "\<exists>w1 bytes. randombytes_buf E w1 32 = (bytes, w2) \<and>
          string_as_view t = View (c_string (sodium_bin2base64 E bytes))"
      using generate_token_spec [OF good1(1) g] by blast
    have "if ?regenerate \<or> old_length c = 0 then \<exists>w1 bytes w2. randombytes_buf E w1 32 = (bytes, w2) \<and>
          string_as_view t = View (c_string (sodium_bin2base64 E bytes)) else t = session_token (ctx_session c)"
      using G(4) True by (metis (no_types, lifting))
    from that [OF G(1,2) _ this] G(3) arena show thesis by blast
  next
    case False
    then have "c2 = c1" using 2 by (auto simp: c1 split: if_splits)
    then have "c2 = c1\<lparr>ctx_arena := ctx_arena c1, ctx_session := (ctx_session c1)\<lparr>session_token := session_token (ctx_session c)\<rparr>\<rparr>"
      by (simp add: c1)
    from that [OF this] show thesis using good1 False 2 by (simp add: session_ok_def c1)
  qed
  have ok2: "session_ok c2" using good1(2) by (simp add: c2 session_ok_def)
  note S = serialize_bytes [OF c2(2) ok2 3] and F = serialize_frame [OF c2(2) ok2 3]
  obtain a3 where c3: "c3 = c2\<lparr>ctx_arena := a3\<rparr>" using F(2) by blast
  let ?c5 = "(set_session c3 (\<lambda>s. s\<lparr>session_expires_at := now + ceasy_session_ttl_seconds cfg\<rparr>))\<lparr>ctx_database := Some db1\<rparr>"
  have "arena_good m ?c5" using F(1) by (simp add: arena_good_def)
  note K = set_cookie_spec [OF this 7, simplified]
  obtain a6 where c6: "c6 = ?c5\<lparr>ctx_arena := a6, response_headers := response_headers ?c5 @
      [\<lparr>nv_name = View ''Set-Cookie'', nv_value = View (cookie_text (sv_bytes (ceasy_session_cookie_name cfg))
         (token_bytes c3) ((session_cookie_options cfg)\<lparr>cookie_max_age := ceasy_session_ttl_seconds cfg\<rparr>))\<rparr>]\<rparr>"
    using K by auto
  have tok: "session_token (ctx_session c') = t" "session_token (ctx_session c3) = t" by (simp_all add: 8 c6 c3 c2)
  have entries: "session_entries c2 = session_entries c" "session_entries c' = session_entries c"
    by (simp_all add: session_entries_def 8 c6 c3 c2 c1)
  have hash: "crypto_generichash E (token_bytes c') = Some digest"
    using 4 unfolding tok by (auto simp: session_digest_def split: if_splits prod.splits bool.splits)
  have saved: "\<exists>digest (rec :: Arena String) db db1 w1 now. crypto_generichash E (token_bytes c') = Some digest \<and>
      string_content rec = session_bytes (session_entries c) \<and> string_length rec \<le> 16384 \<and>
      run_bound E w1 db (sv SESSION_REPLACE) (commit_parameters digest (string_data rec) (string_length rec) now
        (now + ceasy_session_ttl_seconds cfg)) = (True, db1, w')"
    using hash S(1) [unfolded entries(1)] S(4) 6 by blast
  have headers: "response_headers c' = response_headers c @ [\<lparr>nv_name = View ''Set-Cookie'',
      nv_value = View (cookie_text (sv_bytes (ceasy_session_cookie_name cfg)) (token_bytes c')
        ((session_cookie_options cfg)\<lparr>cookie_max_age := ceasy_session_ttl_seconds cfg\<rparr>))\<rparr>]"
    unfolding tok by (simp add: 8 c6 c3 c2 c1 tok)
  have flags: "session_exists (ctx_session c')" "\<not> session_dirty (ctx_session c')" "\<not> session_regenerate_flag (ctx_session c')"
    by (simp_all add: 8)
  have fresh: "if ?regenerate \<or> old_length c = 0 then \<exists>w1 bytes w2. randombytes_buf E w1 32 = (bytes, w2) \<and>
      token_bytes c' = c_string (sodium_bin2base64 E bytes) else session_token (ctx_session c') = session_token (ctx_session c)"
  proof (cases "?regenerate \<or> old_length c = 0")
    case True
    then obtain w1 bytes w2 where "randombytes_buf E w1 32 = (bytes, w2)"
        "string_as_view t = View (c_string (sodium_bin2base64 E bytes))" using token by auto
    then have "\<exists>w1 bytes w2. randombytes_buf E w1 32 = (bytes, w2) \<and> token_bytes c' = c_string (sodium_bin2base64 E bytes)"
      unfolding tok by auto
    then show ?thesis using True by simp
  next
    case False
    then show ?thesis using token by (simp add: tok)
  qed
  show ?thesis unfolding Let_def using deleted fresh saved headers flags entries(2) by blast
qed

text \<open>A commit that fails keeps the session's values and flags, so that it can be tried again.\<close>

lemma commit_failure:
  assumes good: "arena_good m c" and ok: "session_ok c" and need: "commit_needed c"
    and call: "session_commit E m cfg c w = (False, c', w')"
  shows "\<exists>t e. ctx_session c' = (ctx_session c)\<lparr>session_token := t, session_expires_at := e\<rparr>"
proof -
  have go: "\<not> (\<not> session_loaded (ctx_session c) \<or> \<not> session_dirty (ctx_session c))" "\<not> session_destroy_flag (ctx_session c)"
    using need by simp_all
  obtain deleted c1 w1 where 1: "(if session_regenerate_flag (ctx_session c) \<and> old_length c > 0
      then session_delete_digest E c w (string_as_view (session_token (ctx_session c))) else (True, c, w)) = (deleted, c1, w1)"
    by (metis prod_cases3)
  obtain generated c2 w2 where 2: "(if old_length c = 0 \<or> session_regenerate_flag (ctx_session c1)
      then session_generate_token E m c1 w1 else (True, c1, w1)) = (generated, c2, w2)"
    by (metis prod_cases3)
  obtain serialized rec c3 where 3: "session_serialize m c2 = (serialized, rec, c3)" by (metis prod_cases3)
  obtain dg w3 where 4: "session_digest E w2 (string_as_view (session_token (ctx_session c3))) = (dg, w3)" by fastforce
  obtain now w4 where 5: "clock E w3 = (now, w4)" by fastforce
  note V = call [unfolded session_commit_def [of E m cfg c w] if_not_P [OF go(1)] if_not_P [OF go(2)] Let_def 1 prod.case 2 3 4]
  obtain d where c1: "c1 = c\<lparr>ctx_database := d\<rparr>"
  proof (cases "session_regenerate_flag (ctx_session c) \<and> old_length c > 0")
    case True
    then have "session_delete_digest E c w (string_as_view (session_token (ctx_session c))) = (deleted, c1, w1)" using 1 by simp
    from delete_digest_spec [OF this] that show thesis by blast
  next
    case False
    then have "c1 = c" using 1 by (auto split: if_splits)
    then show thesis using that [of "ctx_database c"] by simp
  qed
  have good1: "arena_good m c1" "ctx_arena c1 \<noteq> None" using good ok by (simp_all add: c1 arena_good_def session_ok_def)
  obtain a t where c2: "c2 = c1\<lparr>ctx_arena := a, ctx_session := (ctx_session c1)\<lparr>session_token := t\<rparr>\<rparr>" "arena_good m c2" "a \<noteq> None"
  proof (cases "old_length c = 0 \<or> session_regenerate_flag (ctx_session c1)")
    case True
    then have "session_generate_token E m c1 w1 = (generated, c2, w2)" using 2 by simp
    from generate_token_spec [OF good1(1) this] that good1(2) show thesis by blast
  next
    case False
    then have c2: "c2 = c1" using 2 by auto
    show thesis by (rule that [of "session_token (ctx_session c1)" "ctx_arena c1"]) (use good1 in \<open>simp_all add: c2\<close>)
  qed
  have ok2: "session_ok c2" using ok by (simp add: c2 c1 session_ok_def)
  obtain a3 where c3: "c3 = c2\<lparr>ctx_arena := a3\<rparr>"
    using 3 c2(3) by (auto simp: session_serialize_def c2(1) Let_def split: prod.splits)
  have early: "\<exists>t e. ctx_session x = (ctx_session c)\<lparr>session_token := t, session_expires_at := e\<rparr>" if "x \<in> {c1, c2, c3}" for x
  proof -
    have "\<exists>t e. s = s\<lparr>session_token := t, session_expires_at := e\<rparr>" for s :: Session
      by (rule exI [of _ "session_token s"], rule exI [of _ "session_expires_at s"]) simp
    moreover have "\<exists>t' e. s\<lparr>session_token := t\<rparr> = s\<lparr>session_token := t', session_expires_at := e\<rparr>" for s :: Session
      by (rule exI [of _ t], rule exI [of _ "session_expires_at s"]) simp
    moreover have "ctx_session x = ctx_session c \<or> ctx_session x = (ctx_session c)\<lparr>session_token := t\<rparr>"
      using that by (auto simp: c3 c2 c1)
    ultimately show ?thesis by metis
  qed
  show ?thesis
  proof (cases "\<not> deleted \<or> \<not> generated \<or> \<not> serialized \<or> string_length rec > SESSION_MAX_BYTES \<or> dg = None")
    case True
    then have "c' \<in> {c1, c2, c3}" using V by (auto split: if_splits)
    then show ?thesis by (rule early)
  next
    case False
    then obtain digest where d: deleted generated serialized "\<not> string_length rec > SESSION_MAX_BYTES" "dg = Some digest" by auto
    let ?c4 = "set_session c3 (\<lambda>s. s\<lparr>session_expires_at := now + ceasy_session_ttl_seconds cfg\<rparr>)"
    note V2 = V [unfolded d(5) option.case 5 prod.case, simplified d(1-4)]
    show ?thesis
    proof (cases "ctx_database c3")
      case None
      then have "c' = ?c4" using V2 by simp
      then have "ctx_session c' = (ctx_session c)\<lparr>session_token := t,
          session_expires_at := now + ceasy_session_ttl_seconds cfg\<rparr>" by (simp add: c3 c2 c1)
      then show ?thesis by blast
    next
      case (Some db)
      obtain saved db1 w5 where 6: "run_bound E w4 db (sv SESSION_REPLACE) (commit_parameters digest (string_data rec)
         (string_length rec) now (now + ceasy_session_ttl_seconds cfg)) = (saved, db1, w5)" by (metis prod_cases3)
      let ?c5 = "?c4\<lparr>ctx_database := Some db1\<rparr>"
      obtain sent c6 where 7: "context_set_cookie m ?c5 (ceasy_session_cookie_name cfg)
         (string_as_view (session_token (ctx_session c3)))
         ((session_cookie_options cfg)\<lparr>cookie_max_age := ceasy_session_ttl_seconds cfg\<rparr>) = (sent, c6)" by fastforce
      have "c' = ?c5 \<or> (c' = c6 \<and> \<not> sent)"
        using V2 6 7 by (auto simp: Some commit_parameters_def split: if_splits)
      moreover have "\<exists>a. c6 = ?c5\<lparr>ctx_arena := a\<rparr>" if "\<not> sent"
      proof -
        have "session_serialize m c2 = (True, rec, c3)" using 3 d(3) by simp
        then have "arena_good m ?c5" using serialize_frame(1) [OF c2(2) ok2] by (simp add: arena_good_def)
        from set_cookie_spec [OF this 7] that show ?thesis by auto
      qed
      ultimately have "ctx_session c' = (ctx_session c)\<lparr>session_token := t,
          session_expires_at := now + ceasy_session_ttl_seconds cfg\<rparr>" by (auto simp: c3 c2 c1)
      then show ?thesis by blast
    qed
  qed
qed

text \<open>C34: Committing a session. Nothing happens when nothing is to be saved. A commit that succeeds has
  stored the session's entries under the digest of its token, with the present time and the expiry,
  and has set the cookie to that token. When the token had to change, after signing in for example,
  it is a freshly generated one and the row of the old token has been deleted. A commit that fails
  keeps all values and flags, so the session is still to be saved.\<close>

theorem session_commit_correct:
  assumes "arena_good m c" "session_ok c" "session_commit E m cfg c w = (ok, c', w')"
  shows "(\<not> commit_needed c \<longrightarrow> ok \<and> c' = c \<and> w' = w) \<and>
    (commit_needed c \<and> \<not> ok \<longrightarrow> session_dirty (ctx_session c') \<and> session_entries c' = session_entries c \<and>
       session_regenerate_flag (ctx_session c') = session_regenerate_flag (ctx_session c)) \<and>
    (commit_needed c \<and> ok \<longrightarrow>
      (session_regenerate_flag (ctx_session c) \<and> old_length c > 0 \<longrightarrow>
          (\<exists>digest db db1 w1 w2. crypto_generichash E (token_bytes c) = Some digest \<and>
             run_bound E w1 db (sv SESSION_DELETE) [Blob (Some digest) 32] = (True, db1, w2))) \<and>
      (if session_regenerate_flag (ctx_session c) \<or> old_length c = 0
       then \<exists>w1 bytes w2. randombytes_buf E w1 32 = (bytes, w2) \<and>
             token_bytes c' = c_string (sodium_bin2base64 E bytes)
       else session_token (ctx_session c') = session_token (ctx_session c)) \<and>
      (\<exists>digest (rec :: Arena String) db db1 w1 now. crypto_generichash E (token_bytes c') = Some digest \<and>
          string_content rec = session_bytes (session_entries c) \<and> string_length rec \<le> 16384 \<and>
          run_bound E w1 db (sv SESSION_REPLACE) (commit_parameters digest (string_data rec) (string_length rec) now
            (now + ceasy_session_ttl_seconds cfg)) = (True, db1, w')) \<and>
      response_headers c' = response_headers c @ [\<lparr>nv_name = View ''Set-Cookie'',
         nv_value = View (cookie_text (sv_bytes (ceasy_session_cookie_name cfg)) (token_bytes c')
           ((session_cookie_options cfg)\<lparr>cookie_max_age := ceasy_session_ttl_seconds cfg\<rparr>))\<rparr>] \<and>
      session_exists (ctx_session c') \<and> \<not> session_dirty (ctx_session c') \<and>
      \<not> session_regenerate_flag (ctx_session c') \<and> session_entries c' = session_entries c)"
proof (intro conjI impI)
  assume "\<not> commit_needed c"
  then show "ok" "c' = c" "w' = w" using assms(3) by (auto simp: session_commit_def split: if_splits)
next
  assume need: "commit_needed c \<and> \<not> ok"
  then obtain t e where "ctx_session c' = (ctx_session c)\<lparr>session_token := t, session_expires_at := e\<rparr>"
    using commit_failure [OF assms(1,2), of E cfg w c' w'] assms(3) by auto
  then show "session_dirty (ctx_session c')" "session_entries c' = session_entries c"
    "session_regenerate_flag (ctx_session c') = session_regenerate_flag (ctx_session c)"
    using need by (simp_all add: session_entries_def)
next
  assume need: "commit_needed c \<and> ok"
  then have need': "commit_needed c" and went: "session_commit E m cfg c w = (True, c', w')" using assms(3) by auto
  note X = commit_effect [OF assms(1,2) need' went, unfolded Let_def]
  {
    assume "session_regenerate_flag (ctx_session c) \<and> old_length c > 0"
    then show "\<exists>digest db db1 w1 w2. crypto_generichash E (token_bytes c) = Some digest \<and>
       run_bound E w1 db (sv SESSION_DELETE) [Blob (Some digest) 32] = (True, db1, w2)" using X by blast
  }
  show "if session_regenerate_flag (ctx_session c) \<or> old_length c = 0
      then \<exists>w1 bytes w2. randombytes_buf E w1 32 = (bytes, w2) \<and> token_bytes c' = c_string (sodium_bin2base64 E bytes)
      else session_token (ctx_session c') = session_token (ctx_session c)" using X by blast
  show "\<exists>digest (rec :: Arena String) db db1 w1 now. crypto_generichash E (token_bytes c') = Some digest \<and>
      string_content rec = session_bytes (session_entries c) \<and> string_length rec \<le> 16384 \<and>
      run_bound E w1 db (sv SESSION_REPLACE) (commit_parameters digest (string_data rec) (string_length rec) now
        (now + ceasy_session_ttl_seconds cfg)) = (True, db1, w')" using X by blast
  show "response_headers c' = response_headers c @ [\<lparr>nv_name = View ''Set-Cookie'',
      nv_value = View (cookie_text (sv_bytes (ceasy_session_cookie_name cfg)) (token_bytes c')
        ((session_cookie_options cfg)\<lparr>cookie_max_age := ceasy_session_ttl_seconds cfg\<rparr>))\<rparr>]" using X by blast
  show "session_exists (ctx_session c')" "\<not> session_dirty (ctx_session c')" "\<not> session_regenerate_flag (ctx_session c')"
    "session_entries c' = session_entries c" using X by blast+
qed

definition demo_dirty :: Context where
  "demo_dirty = set_session demo_session (\<lambda>s. s\<lparr>session_loaded := True, session_dirty := True\<rparr>)"

theorem session_commit_correct_witness:
  "\<exists>c'. session_commit null_env demo_malloc config_zero demo_dirty () = (False, c', ()) \<and>
     session_dirty (ctx_session c')"
proof -
  have good: "arena_good demo_malloc demo_dirty" "session_ok demo_dirty"
    using demo_session_ok by (simp_all add: demo_dirty_def arena_good_def session_ok_def)
  have need: "commit_needed demo_dirty"
    by (simp add: demo_dirty_def demo_session_def session_map_init_def demo_context_def context_zero_def
        session_zero_def split: prod.split)
  have "session_token (ctx_session demo_dirty) = string_zero"
    by (simp add: demo_dirty_def demo_session_def session_map_init_def demo_context_def context_zero_def
        session_zero_def split: prod.split)
  then have token: "old_length demo_dirty = 0" by (simp add: string_as_view_def string_zero_def sv_zero_def)
  have "sodium_init null_env () = (False, ())" by (simp add: null_env_def)
  then have "fst (session_commit null_env demo_malloc config_zero demo_dirty ()) = False"
    using need token demo_session_ok(5)
    by (simp add: session_commit_def Let_def session_generate_token_def) (simp add: demo_dirty_def)
  then obtain c' where c': "session_commit null_env demo_malloc config_zero demo_dirty () = (False, c', ())"
    by (metis fst_conv old.unit.exhaust surj_pair)
  from session_commit_correct [OF good this] need c' show ?thesis by blast
qed

section \<open>The operations return\<close>

definition session_wf :: "Context \<Rightarrow> bool" where
  "session_wf c \<longleftrightarrow> ctx_arena c \<noteq> None \<and>
     (sm_ok (session_values (ctx_session c)) \<or>
      session_values (ctx_session c) = map_zero \<and> \<not> session_loaded (ctx_session c))"

lemma session_ok_wf: "session_ok c \<Longrightarrow> session_wf c"
  by (simp add: session_ok_def session_wf_def)

lemma wf_loaded: "session_wf c \<Longrightarrow> session_loaded (ctx_session c) \<Longrightarrow> session_ok c"
  by (auto simp: session_ok_def session_wf_def)

text \<open>What a part of the outside state or the arena does not touch.\<close>

definition same_session :: "Context \<Rightarrow> Context \<Rightarrow> bool" where
  "same_session c c' \<longleftrightarrow> ctx_session c' = ctx_session c \<and> (ctx_arena c \<noteq> None \<longrightarrow> ctx_arena c' \<noteq> None)"

lemma same_session_ok: "same_session c c' \<Longrightarrow> session_ok c \<Longrightarrow> session_ok c'"
  by (simp add: same_session_def session_ok_def)

lemma cookie_same_session: "context_cookie c name = (v, c') \<Longrightarrow> same_session c c'"
  by (auto simp: context_cookie_def cookie_parse_def same_session_def Let_def split: prod.splits bool.splits if_splits)

lemma delete_same_session: "session_delete_digest E c w t = (ok, c', w') \<Longrightarrow> same_session c c'"
  by (drule delete_digest_spec) (auto simp: same_session_def)

lemma set_cookie_same_session:
  "context_set_cookie m c name val options = (ok, c') \<Longrightarrow> same_session c c'"
  by (auto simp: context_set_cookie_def context_add_header_def same_session_def Let_def
      split: option.splits prod.splits if_splits)

text \<open>A call on the session's map.\<close>

definition map_total :: "(Arena StringMap \<Rightarrow> Arena \<Rightarrow> (bool \<times> Arena StringMap \<times> Arena) option) \<Rightarrow> bool" where
  "map_total f \<longleftrightarrow> (\<forall>M A. sm_ok M \<longrightarrow> (\<exists>b M' A'. f M A = Some (b, M', A') \<and> sm_ok M'))"

lemma map_total_set [simp]: "map_total (\<lambda>M A. sm_set_value M A key v)"
  using set_value_effect unfolding map_total_def by meson

lemma map_total_string [simp]: "map_total (\<lambda>M A. sm_set_string_view M A key v)"
  unfolding map_total_def
proof (intro allI impI)
  fix M :: "Arena StringMap" and A
  assume "sm_ok M"
  then show "\<exists>b M' A'. sm_set_string_view M A key v = Some (b, M', A') \<and> sm_ok M'"
    using set_value_effect [of M "snd (sm_string_copy M A v)" key "fst (sm_string_copy M A v)"]
    by (auto simp: sm_set_string_view_def split: prod.splits)
qed

lemma map_total_clear [simp]: "map_total (\<lambda>M A. Some (True, sm_clear M A))"
  unfolding map_total_def by (metis clear_spec surj_pair)

lemma remove_ok: "sm_ok M \<Longrightarrow> sm_remove M A key = (b, M', A') \<Longrightarrow> sm_ok M'"
  using string_table.remove_view [of M key A b M' A']
  by (cases "string_map_key_valid key") (auto simp: sm_remove_def)

lemma map_total_remove [simp]: "map_total (\<lambda>M A. Some (sm_remove M A key))"
  unfolding map_total_def using remove_ok by (metis prod_cases3)

lemma on_session_map_total:
  assumes "session_ok c" "map_total f"
  shows "\<exists>b A A' M. on_session_map f c = Some (b, map_stored c A' M) \<and> session_ok (map_stored c A' M) \<and>
    ctx_arena c = Some A \<and> f (session_values (ctx_session c)) A = Some (b, M, A')"
proof -
  obtain A where A: "ctx_arena c = Some A" and ok: "sm_ok (session_values (ctx_session c))"
    using assms(1) by (auto simp: session_ok_def)
  obtain b M A' where f: "f (session_values (ctx_session c)) A = Some (b, M, A')" "sm_ok M"
    using assms(2) ok unfolding map_total_def by blast
  show ?thesis using on_session_map_call [where f = f, OF A f] A f by blast
qed

text \<open>Decoding a stored session, whatever its bytes are.\<close>

lemma on_map_returns:
  assumes "session_ok c" "map_total f"
  shows "\<exists>b c'. on_session_map f c = Some (b, c') \<and> session_ok c' \<and>
    session_loaded (ctx_session c') = session_loaded (ctx_session c)"
  using on_session_map_total [OF assms] by fastforce

lemma read_value_total:
  assumes "session_ok c"
  shows "\<exists>r c'. session_read_value data len offset key c = Some (r, c') \<and> session_ok c' \<and>
    session_loaded (ctx_session c') = session_loaded (ctx_session c)"
proof -
  have stored: "\<exists>r c'. map_option (\<lambda>(ok, c1). (if ok then Some k else None, c1)) (on_session_map f c) = Some (r, c') \<and>
      session_ok c' \<and> session_loaded (ctx_session c') = session_loaded (ctx_session c)"
    if f: "map_total f" for f and k :: nat
  proof -
    obtain b c' where "on_session_map f c = Some (b, c')" "session_ok c'"
        "session_loaded (ctx_session c') = session_loaded (ctx_session c)"
      using on_map_returns [OF assms f] by blast
    then show ?thesis by (intro exI [of _ "if b then Some k else None"] exI [of _ c']) simp
  qed
  show ?thesis using assms unfolding session_read_value_def Let_def
    by (auto simp del: map_option_eq_Some split: option.splits prod.splits intro!: stored)
qed

lemma read_entries_total:
  assumes "session_ok c"
  shows "\<exists>r c'. session_read_entries data len count offset c = Some (r, c') \<and> session_ok c' \<and>
    session_loaded (ctx_session c') = session_loaded (ctx_session c)"
  using assms
proof (induction count arbitrary: offset c)
  case (Suc count)
  show ?case
  proof (cases "session_read_u16 data len offset")
    case None
    then show ?thesis using Suc.prems by simp
  next
    case (Some r)
    obtain key_length offset1 where r: "r = (key_length, offset1)" by (cases r)
    obtain q c1 where V: "session_read_value data len (offset1 + key_length) (View (take key_length (drop offset1 data))) c =
        Some (q, c1)" "session_ok c1" "session_loaded (ctx_session c1) = session_loaded (ctx_session c)"
      using read_value_total [OF Suc.prems] by blast
    show ?thesis using Suc.IH [OF V(2)] Suc.prems V Some r by (auto split: option.splits)
  qed
qed simp

lemma map_init_total:
  assumes "session_wf c"
  shows "\<exists>c'. session_map_init m c = (True, c') \<and> session_ok c' \<and>
    session_loaded (ctx_session c') = session_loaded (ctx_session c) \<and> ctx_database c' = ctx_database c"
proof (cases "sm_ok (session_values (ctx_session c))")
  case True
  then show ?thesis using assms
    by (auto simp: session_map_init_def sm_ok_def string_map_initialized_def session_ok_def session_wf_def)
next
  case False
  then have "session_values (ctx_session c) = map_zero" "ctx_arena c \<noteq> None" using assms by (auto simp: session_wf_def)
  from map_init_fresh [OF this, of m] show ?thesis by auto
qed

lemma deserialize_total:
  assumes "session_ok c"
  shows "\<exists>b c'. session_deserialize m c blob len = Some (b, c') \<and> session_ok c' \<and>
    session_loaded (ctx_session c') = session_loaded (ctx_session c)"
proof -
  obtain c1 where I: "session_map_init m c = (True, c1)" "session_ok c1"
      "session_loaded (ctx_session c1) = session_loaded (ctx_session c)"
    using map_init_total [OF session_ok_wf [OF assms]] by blast
  have R: "\<exists>r c'. session_read_entries data len count 3 c1 = Some (r, c') \<and> session_ok c' \<and>
      session_loaded (ctx_session c') = session_loaded (ctx_session c1)" for data count
    using read_entries_total [OF I(2)] .
  show ?thesis
  proof (cases blob)
    case None
    then show ?thesis using assms by (auto simp: session_deserialize_def)
  next
    case (Some data)
    show ?thesis
    proof (cases "len = 0 \<or> len > SESSION_MAX_BYTES \<or> byte (data ! 0) \<noteq> 1 \<or> session_read_u16 data len 1 = None")
      case True
      then show ?thesis using assms Some by (auto simp: session_deserialize_def)
    next
      case False
      then obtain count next_offset where u: "session_read_u16 data len 1 = Some (count, next_offset)" by auto
      obtain r c' where E: "session_read_entries data len count 3 c1 = Some (r, c')" "session_ok c'"
          "session_loaded (ctx_session c') = session_loaded (ctx_session c1)" using R by blast
      then show ?thesis using False Some I u by (simp add: session_deserialize_def)
    qed
  qed
qed

lemma load_total:
  assumes "session_wf c"
  shows "\<exists>b c' w'. session_load E m cfg c w = Some (b, c', w') \<and> session_wf c' \<and>
    (b \<longrightarrow> session_ok c' \<and> session_loaded (ctx_session c'))"
proof (cases "ctx_database c")
  case None
  then show ?thesis using assms by (auto simp: session_load_def split: option.splits)
next
  case (Some db)
  obtain A where A: "ctx_arena c = Some A" using assms by (auto simp: session_wf_def)
  have "session_wf (set_session c (\<lambda>s. s\<lparr>session_loaded := True\<rparr>)) \<or> session_values (ctx_session c) = map_zero"
    using assms by (auto simp: session_wf_def)
  then obtain c1 where I: "session_map_init m (set_session c (\<lambda>s. s\<lparr>session_loaded := True\<rparr>)) = (True, c1)" "session_ok c1"
      "session_loaded (ctx_session c1)"
  proof
    assume "session_wf (set_session c (\<lambda>s. s\<lparr>session_loaded := True\<rparr>))"
    from map_init_total [OF this, of m] show thesis using that by auto
  next
    assume "session_values (ctx_session c) = map_zero"
    then have "session_values (ctx_session (set_session c (\<lambda>s. s\<lparr>session_loaded := True\<rparr>))) = map_zero"
        "ctx_arena (set_session c (\<lambda>s. s\<lparr>session_loaded := True\<rparr>)) \<noteq> None" using A by simp_all
    from map_init_fresh [OF this, of m] show thesis using that by auto
  qed
  obtain cookie c2 where K: "context_cookie c1 (ceasy_session_cookie_name cfg) = (cookie, c2)" by fastforce
  have ok2: "session_ok c2" "session_loaded (ctx_session c2)"
    using same_session_ok [OF cookie_same_session [OF K] I(2)] I(3) cookie_same_session [OF K] by (simp_all add: same_session_def)
  obtain dg w1 where D: "session_digest E w cookie = (dg, w1)" by fastforce
  note U = session_load_def [of E m cfg c w, unfolded A Some prod.case option.case I(1) bool.case K Let_def D]
  have keep: "session_ok (x\<lparr>ctx_database := d\<rparr>) \<longleftrightarrow> session_ok x" for x d by (simp add: session_ok_def)
  show ?thesis
  proof (cases "sv_length cookie = 0 \<or> dg = None")
    case True
    then show ?thesis using U ok2 session_ok_wf by auto
  next
    case False
    then obtain digest where digest: "dg = Some digest" "sv_length cookie \<noteq> 0" by auto
    obtain b statement db1 w2 where P: "prepare_bound E w1 db (sv SESSION_SELECT) [Blob (Some digest) 32] = ((b, statement), db1, w2)"
      by (metis surj_pair)
    obtain step db2 w3 where S: "database_step E w2 db1 statement = (step, db2, w3)" by (metis prod_cases3)
    let ?c3 = "c2\<lparr>ctx_database := Some db2\<rparr>"
    obtain blob blob_length where B: "database_column_blob E w3 statement 0 = (blob, blob_length)" by fastforce
    obtain now w4 where T: "clock E w3 = (now, w4)" by fastforce
    note V = U [unfolded digest(1) option.case P prod.case S B T if_not_P [OF digest(2)]]
    have ok3: "session_ok ?c3" "session_loaded (ctx_session ?c3)" using ok2 keep by simp_all
    show ?thesis
    proof (cases "b \<and> step = DATABASE_STEP_ROW")
      case False
      then show ?thesis using V ok2 ok3 keep session_ok_wf by (cases b) (auto simp: session_ok_def session_wf_def)
    next
      case True
      let ?read = "if database_column_int64 E w3 statement 1 \<le> now then Some (False, ?c3)
        else session_deserialize m ?c3 blob blob_length"
      obtain good c4 where R: "?read = Some (good, c4)" "session_ok c4" "session_loaded (ctx_session c4)"
        using deserialize_total [OF ok3(1), of m blob blob_length] ok3 by (cases "database_column_int64 E w3 statement 1 \<le> now") auto
      obtain A4 where A4: "ctx_arena c4 = Some A4" using R(2) by (auto simp: session_ok_def)
      obtain token A5 where token: "string_from (arena_allocator m) A4 cookie = (token, A5)" by fastforce
      obtain gone c5 w5 where G: "session_delete_digest E c4 (database_statement_destroy E w4 statement) cookie = (gone, c5, w5)"
        by (metis prod_cases3)
      have ok5: "session_ok c5" "session_loaded (ctx_session c5)"
        using same_session_ok [OF delete_same_session [OF G] R(2)] R(3) delete_same_session [OF G] by (simp_all add: same_session_def)
      show ?thesis using True R A4 token G ok5 session_ok_wf unfolding V
        by (cases good) (auto simp: session_ok_def session_wf_def)
    qed
  qed
qed

end
