(* ===== verification/SessionOps.thy ===== *)
theory SessionOps
  imports SessionLaws
begin

text \<open>
  The session's clients: getters and setters, CSRF tokens, sign-in and flash messages. Every operation
  returns and keeps the session well formed, and each is characterised on a session that is loaded.
\<close>

section \<open>Getters and setters\<close>

lemma ensure_total:
  assumes "session_wf c"
  shows "\<exists>b c' w'. session_ensure E m cfg c w = Some (b, c', w') \<and> session_wf c' \<and>
    (b \<longrightarrow> session_ok c' \<and> session_loaded (ctx_session c'))"
  using load_total [OF assms, of E m cfg w] wf_loaded [OF assms] assms by (auto simp: session_ensure_def)

lemma ensure_loaded: "session_loaded (ctx_session c) \<Longrightarrow> session_ensure E m cfg c w = Some (True, c, w)"
  by (simp add: session_ensure_def)

text \<open>An operation in one of the three shapes the code has: it returns, keeps the session well formed, and
  leaves a loaded one loaded.\<close>

definition returns_wf :: "('a \<times> Context \<times> 'w) option \<Rightarrow> bool" where
  "returns_wf result \<longleftrightarrow> (\<exists>r c' w'. result = Some (r, c', w') \<and> session_wf c')"

lemma returns_wfI: "session_wf c' \<Longrightarrow> returns_wf (Some (r, c', w'))"
  by (auto simp: returns_wf_def)

lemma ensure_cases:
  assumes "session_wf c"
  obtains c1 w1 where "session_ensure E m cfg c w = Some (False, c1, w1)" "session_wf c1"
  | c1 w1 where "session_ensure E m cfg c w = Some (True, c1, w1)" "session_wf c1" "session_ok c1"
      "session_loaded (ctx_session c1)"
  using ensure_total [OF assms, of E m cfg w] by (metis (full_types))

lemma stored_loaded [simp]: "session_loaded (ctx_session (map_stored c A M)) = session_loaded (ctx_session c)"
  by simp

lemma flags_ok:
  "session_ok (set_session c (\<lambda>s. s\<lparr>session_destroy_flag := a, session_dirty := b\<rparr>)) \<longleftrightarrow> session_ok c"
  "session_ok (set_session c (\<lambda>s. s\<lparr>session_dirty := b\<rparr>)) \<longleftrightarrow> session_ok c"
  "session_ok (set_session c (\<lambda>s. s\<lparr>session_regenerate_flag := d, session_dirty := b\<rparr>)) \<longleftrightarrow> session_ok c"
  "session_ok (set_session c (\<lambda>s. s\<lparr>session_destroy_flag := a, session_regenerate_flag := d, session_dirty := b,
     session_exists := e\<rparr>)) \<longleftrightarrow> session_ok c"
  by (simp_all add: session_ok_def)

lemma set_returns:
  assumes "session_wf c" "map_total store"
  shows "returns_wf (session_set E m cfg c w rejected store)"
proof (rule ensure_cases [OF assms(1), of E m cfg w])
  fix c1 w1
  assume "session_ensure E m cfg c w = Some (False, c1, w1)" "session_wf c1"
  then show ?thesis by (simp add: session_set_def returns_wfI)
next
  fix c1 w1
  assume e: "session_ensure E m cfg c w = Some (True, c1, w1)" "session_wf c1" "session_ok c1"
  obtain b A A' M where s: "on_session_map store c1 = Some (b, map_stored c1 A' M)" "session_ok (map_stored c1 A' M)"
    using on_session_map_total [OF e(3) assms(2)] by blast
  show ?thesis
  proof (cases rejected)
    case True
    then show ?thesis using e by (simp add: session_set_def returns_wfI)
  next
    case False
    let ?c2 = "if b then set_session (map_stored c1 A' M) (\<lambda>s. s\<lparr>session_destroy_flag := False, session_dirty := True\<rparr>)
      else map_stored c1 A' M"
    have "session_set E m cfg c w rejected store = Some (b, ?c2, w1)"
      unfolding session_set_def e(1) option.case prod.case bool.case if_not_P [OF False] s(1) by simp
    moreover have "session_ok ?c2" using s(2) by (simp add: flags_ok(1) session_ok_def)
    ultimately show ?thesis using session_ok_wf by (auto simp: returns_wf_def)
  qed
qed

text \<open>On a loaded session: what a setter that succeeds does.\<close>

lemma set_loaded:
  assumes "session_loaded (ctx_session c)" "session_ok c" "map_total store"
    and "session_set E m cfg c w rejected store = Some (True, c', w')"
  shows "\<not> rejected \<and> w' = w \<and> session_loaded (ctx_session c') \<and> session_ok c' \<and>
    session_dirty (ctx_session c') \<and> session_regenerate_flag (ctx_session c') = session_regenerate_flag (ctx_session c) \<and>
    (\<exists>A A'. store (session_values (ctx_session c)) A = Some (True, session_values (ctx_session c'), A'))"
proof -
  obtain b A A' M where s: "on_session_map store c = Some (b, map_stored c A' M)" "session_ok (map_stored c A' M)"
      "store (session_values (ctx_session c)) A = Some (b, M, A')"
    using on_session_map_total [OF assms(2,3)] by blast
  have "\<not> rejected" using assms(4) by (auto simp: session_set_def ensure_loaded [OF assms(1)])
  moreover from this have "b" "c' = set_session (map_stored c A' M) (\<lambda>s. s\<lparr>session_destroy_flag := False, session_dirty := True\<rparr>)"
      "w' = w"
    using assms(4) s(1) by (auto simp: session_set_def ensure_loaded [OF assms(1)] split: if_splits)
  ultimately show ?thesis using s(2,3) assms(1) by (auto simp: session_ok_def)
qed

lemma get_returns:
  assumes "session_wf c" shows "returns_wf (session_get E m cfg c w get)"
proof -
  obtain b c1 w1 where "session_ensure E m cfg c w = Some (b, c1, w1)" "session_wf c1"
    using ensure_total [OF assms, of E m cfg w] by blast
  then show ?thesis by (simp add: session_get_def returns_wfI)
qed

lemma get_loaded:
  "session_loaded (ctx_session c) \<Longrightarrow> session_get E m cfg c w get = Some (get (session_values (ctx_session c)), c, w)"
  by (simp add: session_get_def ensure_loaded)

lemma delete_returns:
  assumes "session_wf c" shows "returns_wf (session_delete E m cfg c w key)"
proof (rule ensure_cases [OF assms, of E m cfg w])
  fix c1 w1
  assume "session_ensure E m cfg c w = Some (False, c1, w1)" "session_wf c1"
  then show ?thesis by (simp add: session_delete_def returns_wfI)
next
  fix c1 w1
  assume e: "session_ensure E m cfg c w = Some (True, c1, w1)" "session_ok c1"
  obtain b A A' M where s: "on_session_map (\<lambda>M A. Some (sm_remove M A key)) c1 = Some (b, map_stored c1 A' M)"
      "session_ok (map_stored c1 A' M)"
    using on_session_map_total [OF e(2) map_total_remove] by blast
  show ?thesis using e s session_ok_wf by (cases b) (auto simp: session_delete_def returns_wf_def session_ok_def)
qed

lemma clear_returns:
  assumes "session_wf c" shows "returns_wf (session_clear E m cfg c w)"
proof (rule ensure_cases [OF assms, of E m cfg w])
  fix c1 w1
  assume "session_ensure E m cfg c w = Some (False, c1, w1)" "session_wf c1"
  then show ?thesis by (simp add: session_clear_def returns_wfI)
next
  fix c1 w1
  assume e: "session_ensure E m cfg c w = Some (True, c1, w1)" "session_ok c1"
  obtain b A A' M where s: "on_session_map (\<lambda>M A. Some (True, sm_clear M A)) c1 = Some (b, map_stored c1 A' M)"
      "session_ok (map_stored c1 A' M)"
    using on_session_map_total [OF e(2) map_total_clear] by blast
  show ?thesis using e s session_ok_wf by (auto simp: session_clear_def returns_wf_def session_ok_def)
qed

lemma regenerate_returns:
  assumes "session_wf c" shows "returns_wf (session_regenerate E m cfg c w)"
proof (rule ensure_cases [OF assms, of E m cfg w])
  fix c1 w1
  assume "session_ensure E m cfg c w = Some (False, c1, w1)" "session_wf c1"
  then show ?thesis by (simp add: session_regenerate_def returns_wfI)
next
  fix c1 w1
  assume "session_ensure E m cfg c w = Some (True, c1, w1)" "session_ok c1"
  then show ?thesis using session_ok_wf by (auto simp: session_regenerate_def returns_wf_def session_ok_def)
qed

lemma delete_cookie_same_session: "context_delete_cookie m c name options = (ok, c') \<Longrightarrow> same_session c c'"
  unfolding context_delete_cookie_def by (rule set_cookie_same_session)

lemma destroy_returns:
  assumes "session_wf c" shows "returns_wf (session_destroy E m cfg c w)"
proof (rule ensure_cases [OF assms, of E m cfg w])
  fix c1 w1
  assume "session_ensure E m cfg c w = Some (False, c1, w1)" "session_wf c1"
  then show ?thesis by (simp add: session_destroy_def returns_wfI)
next
  fix c1 w1
  assume e: "session_ensure E m cfg c w = Some (True, c1, w1)" "session_ok c1"
  let ?token = "string_as_view (session_token (ctx_session c1))"
  obtain deleted c2 w2 where d: "(if sv_length ?token > 0 then session_delete_digest E c1 w1 ?token else (True, c1, w1)) =
      (deleted, c2, w2)" by (metis prod_cases3)
  have ok2: "session_ok c2"
  proof (cases "sv_length ?token > 0")
    case True
    then have "session_delete_digest E c1 w1 ?token = (deleted, c2, w2)" using d by simp
    from same_session_ok [OF delete_same_session [OF this] e(2)] show ?thesis .
  next
    case False
    then show ?thesis using d e(2) by simp
  qed
  obtain b A A' M where s: "on_session_map (\<lambda>M A. Some (True, sm_clear M A)) c2 = Some (b, map_stored c2 A' M)"
      "session_ok (map_stored c2 A' M)"
    using on_session_map_total [OF ok2 map_total_clear] by blast
  let ?c4 = "set_session (map_stored c2 A' M) (\<lambda>s. s\<lparr>session_destroy_flag := True, session_regenerate_flag := True,
     session_dirty := False, session_exists := False\<rparr>)"
  obtain sent c5 where k: "context_delete_cookie m ?c4 (ceasy_session_cookie_name cfg) (session_cookie_options cfg) = (sent, c5)"
    by fastforce
  have "session_ok ?c4" using s(2) by (simp add: session_ok_def)
  then have "session_ok c5" using same_session_ok [OF delete_cookie_same_session [OF k]] by blast
  moreover have "session_destroy E m cfg c w = (if \<not> deleted then Some (False, c2, w2) else Some (True, c5, w2))"
    unfolding session_destroy_def e(1) option.case prod.case bool.case Let_def d s(1)
    by (simp only: option.map prod.case Let_def k if_cancel)
  ultimately show ?thesis using ok2 session_ok_wf by (auto simp: returns_wf_def)
qed

section \<open>Tokens, sign-in and messages\<close>

lemma returns_wf_cases:
  assumes "returns_wf result" obtains r c' w' where "result = Some (r, c', w')" "session_wf c'"
  using assms by (auto simp: returns_wf_def)

lemma setters_return:
  "session_wf c \<Longrightarrow> returns_wf (session_set_string E m cfg c w key v)"
  "session_wf c \<Longrightarrow> returns_wf (session_set_int64 E m cfg c w key i)"
  "session_wf c \<Longrightarrow> returns_wf (session_set_bool E m cfg c w key b)"
  unfolding session_set_string_def session_set_int64_def session_set_bool_def by (simp_all add: set_returns)

lemma getters_return:
  "session_wf c \<Longrightarrow> returns_wf (session_get_string E m cfg c w key)"
  "session_wf c \<Longrightarrow> returns_wf (session_get_int64 E m cfg c w key)"
  "session_wf c \<Longrightarrow> returns_wf (session_get_bool E m cfg c w key)"
  unfolding session_get_string_def session_get_int64_def session_get_bool_def by (simp_all add: get_returns)

lemma token_returns:
  assumes "session_wf c" shows "returns_wf (csrf_token E m cfg c w)"
proof -
  obtain A where arena: "ctx_arena c = Some A" using assms by (auto simp: session_wf_def)
  obtain r c1 w1 where g: "session_get_string E m cfg c w (sv CSRF_KEY) = Some (r, c1, w1)" "session_wf c1"
    using getters_return(1) [OF assms] by (rule returns_wf_cases)
  show ?thesis
  proof (cases r)
    case (Some token)
    then show ?thesis using g arena by (simp add: csrf_token_def returns_wfI)
  next
    case None
    obtain ready w2 where i: "sodium_init E w1 = (ready, w2)" by fastforce
    obtain bytes w3 where b: "randombytes_buf E w2 32 = (bytes, w3)" by fastforce
    let ?v = "stringv_from_cstr (Some (sodium_bin2base64 E bytes))"
    obtain stored c2 w4 where s: "session_set_string E m cfg c1 w3 (sv CSRF_KEY) ?v = Some (stored, c2, w4)" "session_wf c2"
      using setters_return(1) [OF g(2)] by (rule returns_wf_cases)
    obtain t c3 w5 where t: "session_get_string E m cfg c2 w4 (sv CSRF_KEY) = Some (t, c3, w5)" "session_wf c3"
      using getters_return(1) [OF s(2)] by (rule returns_wf_cases)
    show ?thesis using None g arena i b s t
      by (cases ready; cases stored) (simp_all add: csrf_token_def returns_wfI Let_def)
  qed
qed

lemma verify_returns:
  assumes "session_wf c" shows "returns_wf (csrf_verify E m cfg c w token)"
proof -
  obtain expected c1 w1 where t: "csrf_token E m cfg c w = Some (expected, c1, w1)" "session_wf c1"
    using token_returns [OF assms] by (rule returns_wf_cases)
  obtain ready w2 where "sodium_init E w1 = (ready, w2)" by fastforce
  then show ?thesis using t by (cases ready) (simp_all add: csrf_verify_def returns_wfI)
qed

lemma auth_returns:
  assumes "session_wf c"
  shows "returns_wf (auth_login E m cfg c w user)" "returns_wf (auth_user_id E m cfg c w)"
    "returns_wf (auth_signed_in E m cfg c w)" "returns_wf (auth_logout E m cfg c w)"
proof -
  obtain b c1 w1 where r: "session_regenerate E m cfg c w = Some (b, c1, w1)" "session_wf c1"
    using regenerate_returns [OF assms] by (rule returns_wf_cases)
  show "returns_wf (auth_login E m cfg c w user)"
    using assms r setters_return(2) [OF r(2), of E m cfg w1] by (cases b) (simp_all add: auth_login_def returns_wfI)
  obtain i c2 w2 where g: "session_get_int64 E m cfg c w (sv AUTH_USER_KEY) = Some (i, c2, w2)" "session_wf c2"
    using getters_return(2) [OF assms] by (rule returns_wf_cases)
  show "returns_wf (auth_user_id E m cfg c w)" "returns_wf (auth_signed_in E m cfg c w)"
    using g by (simp_all add: auth_signed_in_def auth_user_id_def returns_wfI)
  show "returns_wf (auth_logout E m cfg c w)"
    unfolding auth_logout_def by (rule destroy_returns [OF assms])
qed

lemma flash_key_frame: "flash_key m c key = (r, c') \<Longrightarrow> same_session c c'"
  by (auto simp: flash_key_def same_session_def Let_def split: option.splits prod.splits if_splits)

lemma same_session_wf: "same_session c c' \<Longrightarrow> session_wf c \<Longrightarrow> session_wf c'"
  by (auto simp: same_session_def session_wf_def)

lemma flash_returns:
  assumes "session_wf c"
  shows "returns_wf (flash_set E m cfg c w key message)" "returns_wf (flash_get E m cfg c w key)"
proof -
  obtain r c1 where k: "flash_key m c key = (r, c1)" by fastforce
  have wf1: "session_wf c1" by (rule same_session_wf [OF flash_key_frame [OF k] assms])
  show "returns_wf (flash_set E m cfg c w key message)"
    using k wf1 setters_return(1) [OF wf1, of E m cfg w] by (cases r) (simp_all add: flash_set_def returns_wfI)
  show "returns_wf (flash_get E m cfg c w key)"
  proof (cases r)
    case None
    then show ?thesis using k wf1 by (simp add: flash_get_def returns_wfI)
  next
    case (Some full_key)
    obtain v c2 w2 where g: "session_get_string E m cfg c1 w (string_as_view full_key) = Some (v, c2, w2)" "session_wf c2"
      using getters_return(1) [OF wf1] by (rule returns_wf_cases)
    show ?thesis
    proof (cases v)
      case None
      then show ?thesis using k Some g by (simp add: flash_get_def returns_wfI)
    next
      case message: (Some message)
      obtain A where A: "ctx_arena c2 = Some A" using g(2) by (auto simp: session_wf_def)
      obtain copy A1 where copy: "string_from (arena_allocator m) A message = (copy, A1)" by fastforce
      let ?c3 = "c2\<lparr>ctx_arena := Some A1\<rparr>"
      have wf3: "session_wf ?c3" using g(2) by (simp add: session_wf_def)
      obtain d c4 w4 where del: "session_delete E m cfg ?c3 w2 (string_as_view full_key) = Some (d, c4, w4)" "session_wf c4"
        using delete_returns [OF wf3] by (rule returns_wf_cases)
      show ?thesis using k Some g message A copy wf3 del by (simp add: flash_get_def returns_wfI Let_def)
    qed
  qed
qed



section \<open>What a successful store leaves\<close>

lemma set_effect:
  assumes "session_wf c" "map_total store" "session_set E m cfg c w rejected store = Some (True, c', w')"
  shows "session_loaded (ctx_session c') \<and> session_ok c' \<and> \<not> rejected \<and>
    (\<exists>c1 A A'. session_ok c1 \<and> store (session_values (ctx_session c1)) A = Some (True, session_values (ctx_session c'), A'))"
proof (rule ensure_cases [OF assms(1), of E m cfg w])
  fix c1 w1
  assume "session_ensure E m cfg c w = Some (False, c1, w1)"
  then show ?thesis using assms(3) by (simp add: session_set_def)
next
  fix c1 w1
  assume e: "session_ensure E m cfg c w = Some (True, c1, w1)" "session_ok c1" "session_loaded (ctx_session c1)"
  have "session_set E m cfg c1 w1 rejected store = Some (True, c', w')"
    using assms(3) e(1) by (simp add: session_set_def ensure_loaded [OF e(3)])
  from set_loaded [OF e(3,2) assms(2) this] e(2) show ?thesis by blast
qed

lemma stored_string:
  assumes "session_wf c" "session_set_string E m cfg c w key (View s) = Some (True, c', w')" "string_map_key_valid key"
  shows "session_loaded (ctx_session c') \<and> session_ok c' \<and>
    (\<exists>v. sm_get_string (session_values (ctx_session c')) key = Some v \<and> sv_bytes v = s)"
proof -
  note S = set_effect [OF assms(1) map_total_string assms(2) [unfolded session_set_string_def]]
  obtain c1 A A' where c1: "session_ok c1" "sm_set_string_view (session_values (ctx_session c1)) A key (View s) =
      Some (True, session_values (ctx_session c'), A')" using S by blast
  have ok: "sm_ok (session_values (ctx_session c1))" "sm_ok (session_values (ctx_session c'))"
    using c1(1) S by (simp_all add: session_ok_def)
  obtain v where v: "sm_map (session_values (ctx_session c')) = (sm_map (session_values (ctx_session c1)))(sv_bytes key \<mapsto> v)"
      "plain_value v = SM_VALUE_STRING (View s)"
    using set_string_effect [OF ok(1), of A key s] c1(2) by auto
  then have "sm_get_const (session_values (ctx_session c')) key = Some v"
    using string_table.get_view [OF ok(2) assms(3)] by simp
  moreover obtain t where "value_payload v = SM_VALUE_STRING t" "sv_bytes t = s"
    using v(2) by (auto simp: plain_value_def split: StringMapPayload.splits)
  ultimately show ?thesis using S by (simp add: sm_get_string_def)
qed

lemma csrf_token_spec:
  assumes wf: "session_wf c" and call: "csrf_token E m cfg c w = Some (expected, c', w')" and some: "sv_length expected \<noteq> 0"
  shows "sm_get_string (session_values (ctx_session c')) (sv CSRF_KEY) = Some expected \<and>
    (\<forall>c1 w1. session_get_string E m cfg c w (sv CSRF_KEY) = Some (None, c1, w1) \<longrightarrow>
       (\<exists>w2 bytes w3. randombytes_buf E w2 32 = (bytes, w3) \<and> sv_bytes expected = c_string (sodium_bin2base64 E bytes)))"
proof -
  obtain A where arena: "ctx_arena c = Some A" using wf by (auto simp: session_wf_def)
  obtain r c1 w1 where g: "session_get_string E m cfg c w (sv CSRF_KEY) = Some (r, c1, w1)" "session_wf c1"
    using getters_return(1) [OF wf] by (rule returns_wf_cases)
  show ?thesis
  proof (cases r)
    case (Some token)
    then have "expected = token" "c' = c1" using call g(1) arena by (simp_all add: csrf_token_def)
    moreover have "sm_get_string (session_values (ctx_session c1)) (sv CSRF_KEY) = Some token"
      using g(1) Some by (auto simp: session_get_string_def session_get_def split: if_splits)
    ultimately show ?thesis using g(1) Some by simp
  next
    case None
    obtain ready w2 where i: "sodium_init E w1 = (ready, w2)" by fastforce
    obtain bytes w3 where b: "randombytes_buf E w2 32 = (bytes, w3)" by fastforce
    let ?t = "c_string (sodium_bin2base64 E bytes)"
    have v: "stringv_from_cstr (Some (sodium_bin2base64 E bytes)) = View ?t" by (simp add: stringv_from_cstr_def c_string_def)
    obtain stored c2 w4 where s: "session_set_string E m cfg c1 w3 (sv CSRF_KEY) (View ?t) = Some (stored, c2, w4)"
      using setters_return(1) [OF g(2)] by (rule returns_wf_cases)
    have ready: ready and stored: stored
      using call g(1) arena None i b s some by (auto simp: csrf_token_def v sv_zero_def split: if_splits bool.splits)
    have key: "string_map_key_valid (sv CSRF_KEY)" by (simp add: string_map_key_valid_def sv_def)
    obtain u where u: "session_loaded (ctx_session c2)" "sm_get_string (session_values (ctx_session c2)) (sv CSRF_KEY) = Some u"
        "sv_bytes u = ?t"
      using stored_string [OF g(2) _ key, of E m cfg w3 ?t c2 w4] s stored by auto
    have "expected = u" "c' = c2"
      using call g(1) arena None i b s ready stored u(2)
      by (simp_all add: csrf_token_def v session_get_string_def get_loaded [OF u(1)])
    then show ?thesis using u b by blast
  qed
qed

lemma verify_true:
  assumes "session_wf c" "\<forall>a b. sodium_memcmp E a b \<longleftrightarrow> a = b" "csrf_verify E m cfg c w token = Some (True, c', w')"
  shows "sv_length token \<noteq> 0 \<and>
    (\<exists>v. sm_get_string (session_values (ctx_session c')) (sv CSRF_KEY) = Some v \<and> sv_bytes v = sv_bytes token) \<and>
    (\<forall>c1 w1. session_get_string E m cfg c w (sv CSRF_KEY) = Some (None, c1, w1) \<longrightarrow>
       (\<exists>w2 bytes w3. randombytes_buf E w2 32 = (bytes, w3) \<and> sv_bytes token = c_string (sodium_bin2base64 E bytes)))"
proof -
  obtain expected c1 w1 where t: "csrf_token E m cfg c w = Some (expected, c1, w1)"
    using token_returns [OF assms(1)] by (rule returns_wf_cases)
  have "sv_length expected = sv_length token" "sv_length expected \<noteq> 0" "c' = c1" "sv_bytes expected = sv_bytes token"
    using assms(2,3) t by (auto simp: csrf_verify_def split: if_splits prod.splits bool.splits)
  then show ?thesis using csrf_token_spec [OF assms(1) t] by auto
qed


text \<open>A first value in an empty map, when memory is given.\<close>

lemma first_set:
  assumes init: "string_map_initialized M" and M: "M = map_zero\<lparr>map_allocator := a\<rparr>"
    and key: "key = View k" "k \<noteq> []" and acc: "\<not> map_value_rejected v"
    and alloc: "map_alloc M h (length k) = (Some b1, h1)" "map_alloc M h1 896 = (Some b2, h2)"
  shows "\<exists>M'. sm_set_value M h key v = Some (True, M', h2)"
proof -
  have h: "hash_index w 16 < 16" for w using hash_index_less [OF pow16] by simp
  have probe: "string_map_probe (Suc n) (replicate 16 slot_zero) 16 key w (hash_index w 16) None = (None, None)" for n w
    using h [of w] by (simp add: string_map_probe.simps(2) slot_zero_def Let_def)
  have skip: "string_map_skip_occupied n (replicate 16 slot_zero) 16 (hash_index w 16) = Some (hash_index w 16)" for n w
    using h [of w] by (subst string_map_skip_occupied.simps) (simp add: slot_zero_def)
  have m: "map_slots M = None" "map_length M = 0" "map_capacity M = 0"
    by (simp_all add: M map_zero_def)
  have rehash: "string_map_prepare_capacity M h1 = Some (True, M\<lparr>map_slots := Some (replicate 16 slot_zero),
      map_capacity := 16, map_tombstone_count := 0\<rparr>, h2)"
    using alloc(2) init m by (simp add: string_map_prepare_capacity_def string_map_rehash_def STRING_MAP_INITIAL_CAPACITY_def
        string_map_slot_bytes_def sizeof_StringMapSlot_def SIZE_MAX_def)
  have copy: "string_map_copy_key M h key = (Some (View (take (length k) (mem_write b1 0 k))), h1)"
    using alloc(1) key by (simp add: string_map_copy_key_def string_map_copy_bytes_def view_memory_def view_of_copy_def)
  have find: "string_map_find_index (M\<lparr>map_slots := Some (replicate 16 slot_zero), map_capacity := 16,
      map_tombstone_count := 0\<rparr>) key w = (None, None)" for w
    using probe [of 15 w] init key(1)
    by (simp add: string_map_find_index_def string_map_initialized_def string_map_key_valid_def)
  have find1: "string_map_find_index M x w = (None, None)" for x w
    by (simp add: string_map_find_index_def m)
  show ?thesis
    unfolding sm_set_value_def string_map_set_internal_def
    using acc init by (simp add: m find1 key(1) string_map_key_valid_def copy [unfolded key(1)] rehash Let_def
        find [unfolded key(1)] skip)
qed

definition demo_token_env :: "unit env" where
  "demo_token_env = null_env\<lparr>sodium_init := (\<lambda>w. (True, w)), sodium_bin2base64 := (\<lambda>t. ''x'')\<rparr>"

definition demo_loaded :: Context where
  "demo_loaded = set_session demo_session (\<lambda>s. s\<lparr>session_loaded := True\<rparr>)"

lemma demo_loaded_facts: "session_ok demo_loaded" "session_loaded (ctx_session demo_loaded)" "ctx_arena demo_loaded = Some demo_arena"
  "session_values (ctx_session demo_loaded) = map_zero\<lparr>map_allocator := arena_allocator demo_malloc\<rparr>"
  using demo_session_ok by (simp_all add: demo_loaded_def session_ok_def)

lemma demo_token_store:
  "\<exists>M A. sm_set_string_view (map_zero\<lparr>map_allocator := arena_allocator demo_malloc\<rparr>) demo_arena (sv CSRF_KEY) (View ''x'') =
     Some (True, M, A)"
proof -
  let ?M = "map_zero\<lparr>map_allocator := arena_allocator demo_malloc\<rparr> :: Arena StringMap"
  have init: "string_map_initialized ?M" by (simp add: string_map_initialized_def arena_allocator_def)
  have a1: "arena_alloc demo_malloc demo_arena 1 = (Some (1, 0), demo_arena_at 1 1)"
    by (simp add: arena_eval demo_arena_at_def demo_arena_def demo_block_def arena_init_def arena_zero_def
        demo_malloc_def)
  have a2: "arena_alloc demo_malloc (demo_arena_at 1 1) 18 = (Some (1, 16), demo_arena_at 34 2)"
    by (simp add: arena_eval demo_arena_at_def demo_arena_def demo_block_def arena_init_def arena_zero_def)
  have a3: "\<exists>p A. arena_alloc demo_malloc (demo_arena_at 34 2) 896 = (Some p, A)"
    by (simp add: arena_eval demo_arena_at_def demo_arena_def demo_block_def arena_init_def arena_zero_def
        demo_malloc_def)
  then obtain p A where a3: "arena_alloc demo_malloc (demo_arena_at 34 2) 896 = (Some p, A)" by blast
  have alloc: "map_alloc ?M B n = arena_allocator_alloc demo_malloc B n" for B n
    by (simp add: map_alloc_def arena_allocator_def)
  obtain b0 where b0: "map_alloc ?M demo_arena 1 = (Some b0, demo_arena_at 1 1)"
    using a1 by (simp add: alloc arena_allocator_alloc_def)
  obtain b1 where b1: "map_alloc ?M (demo_arena_at 1 1) 18 = (Some b1, demo_arena_at 34 2)"
    using a2 by (simp add: alloc arena_allocator_alloc_def)
  obtain b2 where b2: "map_alloc ?M (demo_arena_at 34 2) 896 = (Some b2, A)"
    using a3 by (simp add: alloc arena_allocator_alloc_def)
  obtain v where v: "sm_string_copy ?M demo_arena (View ''x'') = (v, demo_arena_at 1 1)" "\<not> map_value_rejected v"
    using b0 init by (simp add: sm_string_copy_def string_map_copy_bytes_def view_memory_def view_of_copy_def
        string_map_key_valid_def map_value_rejected_def)
  have "length CSRF_KEY = 18" "CSRF_KEY \<noteq> []" by (simp_all add: CSRF_KEY_def)
  then show ?thesis
    using first_set [OF init refl _ _ v(2), of "sv CSRF_KEY" CSRF_KEY "demo_arena_at 1 1" b1 "demo_arena_at 34 2" b2 A] b1 b2 v(1)
    by (auto simp: sm_set_string_view_def sv_def)
qed


section \<open>Signing in\<close>

lemma stored_int:
  assumes "session_wf c" "session_set_int64 E m cfg c w key i = Some (True, c', w')" "string_map_key_valid key"
  shows "session_loaded (ctx_session c') \<and> session_ok c' \<and> sm_get_int (session_values (ctx_session c')) key = Some i"
proof -
  note S = set_effect [OF assms(1) map_total_set assms(2) [unfolded session_set_int64_def]]
  obtain c1 A A' where c1: "session_ok c1" "sm_set_value (session_values (ctx_session c1)) A key (sm_int i) =
      Some (True, session_values (ctx_session c'), A')" using S by blast
  have ok: "sm_ok (session_values (ctx_session c1))" "sm_ok (session_values (ctx_session c'))"
    using c1(1) S by (simp_all add: session_ok_def)
  have "sm_map (session_values (ctx_session c')) = (sm_map (session_values (ctx_session c1)))(sv_bytes key \<mapsto> sm_int i)"
    using set_value_effect [OF ok(1), of A key "sm_int i"] c1(2) by auto
  then have "sm_get_const (session_values (ctx_session c')) key = Some (sm_int i)"
    using string_table.get_view [OF ok(2) assms(3)] by simp
  then show ?thesis using S by (simp add: sm_get_int_def sm_int_def)
qed

lemma login_effect:
  assumes wf: "session_wf c" and call: "auth_login E m cfg c w user = Some (True, c1, w1)"
  shows "0 < user \<and> session_ok c1 \<and> session_loaded (ctx_session c1) \<and> session_dirty (ctx_session c1) \<and>
    session_regenerate_flag (ctx_session c1) \<and> \<not> session_destroy_flag (ctx_session c1) \<and>
    sm_get_int (session_values (ctx_session c1)) (sv AUTH_USER_KEY) = Some user"
proof (rule ensure_cases [OF wf, of E m cfg w])
  fix c2 w2
  assume "session_ensure E m cfg c w = Some (False, c2, w2)"
  then show ?thesis using call by (simp add: auth_login_def session_regenerate_def split: if_splits)
next
  fix c2 w2
  assume e: "session_ensure E m cfg c w = Some (True, c2, w2)" "session_ok c2" "session_loaded (ctx_session c2)"
  let ?c3 = "set_session c2 (\<lambda>s. s\<lparr>session_regenerate_flag := True, session_dirty := True\<rparr>)"
  have r: "session_regenerate E m cfg c w = Some (True, ?c3, w2)" using e(1) by (simp add: session_regenerate_def)
  have user: "0 < user" using call by (auto simp: auth_login_def split: if_splits)
  have set: "session_set_int64 E m cfg ?c3 w2 (sv AUTH_USER_KEY) user = Some (True, c1, w1)"
    using call user by (simp add: auth_login_def r)
  have ok3: "session_ok ?c3" "session_loaded (ctx_session ?c3)" using e by (simp_all add: session_ok_def)
  have key: "string_map_key_valid (sv AUTH_USER_KEY)" by (simp add: string_map_key_valid_def sv_def)
  note L = set_loaded [OF ok3(2,1) map_total_set set [unfolded session_set_int64_def]]
  have "\<not> session_destroy_flag (ctx_session c1)"
  proof -
    obtain b A A' M where s: "on_session_map (\<lambda>M A. sm_set_value M A (sv AUTH_USER_KEY) (sm_int user)) ?c3 = Some (b, map_stored ?c3 A' M)"
      using on_session_map_total [OF ok3(1) map_total_set] by blast
    then show ?thesis using set
      by (auto simp: session_set_int64_def session_set_def ensure_loaded ok3(2) e(3) split: if_splits)
  qed
  then show ?thesis using L stored_int [OF session_ok_wf [OF ok3(1)] set key] user by simp
qed

text \<open>C37: Signing in. After a successful sign-in the user is the one signed in, and the next commit that
  succeeds gives the client a token generated for it: the row of the token it came with is deleted and
  the token is not kept, so a token fixed before the sign-in is worth nothing after it.\<close>

theorem login_renews_token:
  assumes "session_wf c" "arena_good m c1" "auth_login E m cfg c w user = Some (True, c1, w1)"
    and "session_commit E m cfg c1 w1 = (saved, c2, w2)"
  shows "auth_user_id E m cfg c1 w1 = Some (Some user, c1, w1) \<and>
    (if saved then
      (\<exists>w3 bytes w4. randombytes_buf E w3 32 = (bytes, w4) \<and> token_bytes c2 = c_string (sodium_bin2base64 E bytes)) \<and>
      (old_length c1 > 0 \<longrightarrow> (\<exists>digest db db1 w3 w4. crypto_generichash E (token_bytes c1) = Some digest \<and>
         run_bound E w3 db (sv SESSION_DELETE) [Blob (Some digest) 32] = (True, db1, w4)))
     else session_regenerate_flag (ctx_session c2) \<and> session_dirty (ctx_session c2))"
proof -
  note L = login_effect [OF assms(1,3)]
  have need: "commit_needed c1" using L by simp
  have ok: "session_ok c1" using L by simp
  have user: "auth_user_id E m cfg c1 w1 = Some (Some user, c1, w1)"
    using L by (simp add: auth_user_id_def session_get_int64_def get_loaded)
  show ?thesis
  proof (cases saved)
    case True
    then have "session_commit E m cfg c1 w1 = (True, c2, w2)" using assms(4) by simp
    note C = commit_effect [OF assms(2) ok need this, unfolded Let_def]
    then show ?thesis using user L True by simp
  next
    case False
    then obtain t e where "ctx_session c2 = (ctx_session c1)\<lparr>session_token := t, session_expires_at := e\<rparr>"
      using commit_failure [OF assms(2) ok need, of E cfg w1 c2 w2] assms(4) by auto
    then show ?thesis using user L False by simp
  qed
qed

lemma demo_login: "\<exists>A M. auth_login null_env demo_malloc config_zero demo_loaded () 7 =
    Some (True, set_session (map_stored demo_loaded A M) (\<lambda>s. s\<lparr>session_destroy_flag := False, session_dirty := True,
      session_regenerate_flag := True\<rparr>), ()) \<and> arena_inv A"
proof -
  note F = demo_loaded_facts
  let ?M = "map_zero\<lparr>map_allocator := arena_allocator demo_malloc\<rparr> :: Arena StringMap"
  let ?B = "demo_arena_at 20 1"
  have init: "string_map_initialized ?M" by (simp add: string_map_initialized_def arena_allocator_def)
  have a1: "arena_alloc demo_malloc demo_arena 20 = (Some (1, 0), ?B)"
    by (simp add: arena_eval demo_arena_at_def demo_arena_def demo_block_def arena_init_def arena_zero_def
        demo_malloc_def)
  have "\<exists>p A. arena_alloc demo_malloc ?B 896 = (Some p, A)"
    by (simp add: arena_eval demo_arena_at_def demo_arena_def demo_block_def arena_init_def arena_zero_def
        demo_malloc_def)
  then obtain p A where a2: "arena_alloc demo_malloc ?B 896 = (Some p, A)" by blast
  have inv: "arena_inv A"
    using arena_alloc_inv(1) [OF arena_alloc_inv(1) [OF demo_arena_inv demo_malloc_spec a1] demo_malloc_spec a2] .
  have alloc: "map_alloc ?M C n = arena_allocator_alloc demo_malloc C n" for C n
    by (simp add: map_alloc_def arena_allocator_def)
  obtain b1 where b1: "map_alloc ?M demo_arena 20 = (Some b1, ?B)" using a1 by (simp add: alloc arena_allocator_alloc_def)
  obtain b2 where b2: "map_alloc ?M ?B 896 = (Some b2, A)" using a2 by (simp add: alloc arena_allocator_alloc_def)
  have acc: "\<not> map_value_rejected (sm_int 7)" by (simp add: map_value_rejected_def sm_int_def)
  have key: "length AUTH_USER_KEY = 20" "AUTH_USER_KEY \<noteq> []" by (simp_all add: AUTH_USER_KEY_def)
  obtain M where "sm_set_value ?M demo_arena (sv AUTH_USER_KEY) (sm_int 7) = Some (True, M, A)"
    using first_set [OF init refl _ _ acc, of "sv AUTH_USER_KEY" AUTH_USER_KEY demo_arena b1 ?B b2 A] b1 b2 key
    by (auto simp: sv_def)
  then have "auth_login null_env demo_malloc config_zero demo_loaded () 7 =
    Some (True, set_session (map_stored demo_loaded A M) (\<lambda>s. s\<lparr>session_destroy_flag := False, session_dirty := True,
      session_regenerate_flag := True\<rparr>), ())"
    using F by (simp add: auth_login_def session_regenerate_def ensure_loaded session_set_int64_def session_set_def
        on_session_map_def)
  then show ?thesis using inv by blast
qed

theorem login_renews_token_witness:
  "\<exists>c. auth_login null_env demo_malloc config_zero demo_loaded () 7 = Some (True, c, ()) \<and>
     auth_user_id null_env demo_malloc config_zero c () = Some (Some 7, c, ())"
proof -
  obtain A M where L: "auth_login null_env demo_malloc config_zero demo_loaded () 7 =
      Some (True, set_session (map_stored demo_loaded A M) (\<lambda>s. s\<lparr>session_destroy_flag := False, session_dirty := True,
        session_regenerate_flag := True\<rparr>), ())" (is "_ = Some (True, ?c, ())") and A: "arena_inv A"
    using demo_login by blast
  have good: "arena_good demo_malloc ?c" using A by (simp add: arena_good_def demo_malloc_spec)
  obtain saved c2 w2 where S: "session_commit null_env demo_malloc config_zero ?c () = (saved, c2, w2)" by (metis prod_cases3)
  from login_renews_token [OF session_ok_wf [OF demo_loaded_facts(1)] good L S] L show ?thesis by blast
qed

end
