(* ===== verification/Response.thy ===== *)
theory Response
  imports Session
begin

text \<open>
  Sending responses (\<open>src/src/ceasy.c\<close>, up to \<open>context_redirect\<close>) and reading the request.

  The socket is part of the outside: \<open>sock_send\<close> gives the result of \<open>send\<close> and whether \<open>errno\<close> is
  \<open>EINTR\<close>, \<open>sock_recv\<close> the bytes received (\<open>None\<close> for a result of zero or less). The loop over \<open>send\<close>
  retries after an interruption without a bound, so sending is a partial function: \<open>None\<close> is a call
  that does not return. The header text is built in the context's arena or, without one, on the heap.
\<close>

section \<open>Sending\<close>

partial_function (option) send_from :: "'w env \<Rightarrow> int \<Rightarrow> StringView \<Rightarrow> size_t \<Rightarrow> 'w \<Rightarrow> (bool \<times> 'w) option" where
  "send_from E fd message sent w =
     (if sent < sv_length message then
        (let r = sock_send E w fd (drop sent (sv_bytes message)); result = fst r; w1 = snd (snd r)
         in if result < 0 then (if fst (snd r) then send_from E fd message sent w1 else Some (False, w1))
            else if result = 0 then Some (False, w1)
            else send_from E fd message (sent + nat result) w1)
      else Some (True, w))"

declare send_from.simps [code]

definition ceasy_send_all :: "'w env \<Rightarrow> int \<Rightarrow> StringView \<Rightarrow> 'w \<Rightarrow> (bool \<times> 'w) option" where
  "ceasy_send_all E fd message w = send_from E fd message 0 w"

text \<open>\<open>context_set_header\<close> calls joined by \<open>&&\<close>.\<close>

fun set_headers :: "malloc_fn \<Rightarrow> Context \<Rightarrow> (StringView \<times> StringView) list \<Rightarrow> bool \<times> Context" where
  "set_headers m c [] = (True, c)"
| "set_headers m c ((name, val) # rest) =
     (case context_set_header m c name val of
        (False, c1) \<Rightarrow> (False, c1)
      | (True, c1) \<Rightarrow> set_headers m c1 rest)"

definition standard_headers :: "Context \<Rightarrow> (StringView \<times> StringView) list" where
  "standard_headers c =
     [(sv ''X-Content-Type-Options'', sv ''nosniff''),
      (sv ''Referrer-Policy'', sv ''strict-origin-when-cross-origin''),
      (sv ''X-Frame-Options'', sv ''SAMEORIGIN'')] @
     (if sv_length (request_id c) = 0 then [] else [(sv ''X-Request-ID'', request_id c)])"

definition ceasy_prepare_response ::
    "'w env \<Rightarrow> malloc_fn \<Rightarrow> CeasyConfig \<Rightarrow> Context \<Rightarrow> 'w \<Rightarrow> bool \<times> Context \<times> 'w" where
  "ceasy_prepare_response E m cfg c w =
     (case session_commit E m cfg c w of
        (False, c1, w1) \<Rightarrow> (False, c1, w1)
      | (True, c1, w1) \<Rightarrow>
          if ctx_arena c1 = None then (True, c1, w1)
          else (let (ok, c2) = set_headers m c1 (standard_headers c1) in (ok, c2, w1)))"

definition ceasy_append_response_headers :: "Context \<Rightarrow> Piece list" where
  "ceasy_append_response_headers c =
     concat (map (\<lambda>item. [Append (nv_name item), Append (sv '': ''), Append (nv_value item), Append (sv CRLF)])
       (response_headers c))"

text \<open>The header text built piece by piece, sent, followed by the body, and released.\<close>

definition send_text_and_body ::
    "'w env \<Rightarrow> int \<Rightarrow> StringView \<Rightarrow> StringView \<Rightarrow> 'w \<Rightarrow> (bool \<times> 'w) option" where
  "send_text_and_body E fd header body w =
     (case ceasy_send_all E fd header w of
        None \<Rightarrow> None
      | Some (sent, w1) \<Rightarrow>
          if sent \<and> sv_length body > 0 then ceasy_send_all E fd body w1 else Some (sent, w1))"

definition send_pieces ::
    "'w env \<Rightarrow> malloc_fn \<Rightarrow> Context \<Rightarrow> 'w \<Rightarrow> Piece list \<Rightarrow> StringView \<Rightarrow> (bool \<times> Context \<times> 'w) option" where
  "send_pieces E m c w pieces body =
     (case ctx_arena c of
        Some A \<Rightarrow>
          (let (ok, header, A1) = string_emit (string_new (arena_allocator m)) A pieces;
               c1 = c\<lparr>ctx_arena := Some (snd (string_destroy header A1))\<rparr>
           in if \<not> ok then Some (False, c1, w)
              else map_option (\<lambda>(sent, w1). (sent, if sent then c1\<lparr>response_sent := True\<rparr> else c1, w1))
                     (send_text_and_body E (client_fd c) (string_as_view header) body w))
      | None \<Rightarrow>
          (let (ok, header, w1) = string_emit (string_new (allocator_heap (env_heap E))) w pieces
           in if \<not> ok then Some (False, c, snd (string_destroy header w1))
              else map_option (\<lambda>(sent, w2). (sent, if sent then c\<lparr>response_sent := True\<rparr> else c,
                       snd (string_destroy header w2)))
                     (send_text_and_body E (client_fd c) (string_as_view header) body w1)))"

definition context_send_bytes ::
    "'w env \<Rightarrow> malloc_fn \<Rightarrow> CeasyConfig \<Rightarrow> Context \<Rightarrow> 'w \<Rightarrow> StringView \<Rightarrow> StringView \<Rightarrow> StringView \<Rightarrow>
     (bool \<times> Context \<times> 'w) option" where
  "context_send_bytes E m cfg c w status content_type body =
     (if response_sent c \<or> client_fd c < 0 \<or> \<not> sv_has_data status \<or> \<not> sv_has_data content_type \<or>
         (sv_length body > 0 \<and> \<not> sv_has_data body)
      then Some (False, c, w)
      else case ceasy_prepare_response E m cfg c w of
        (False, c1, w1) \<Rightarrow> Some (False, c1, w1)
      | (True, c1, w1) \<Rightarrow>
          send_pieces E m c1 w1
            ([Append (sv ''HTTP/1.1 ''), Append status, Append (sv (CRLF @ ''Content-Type: '')), Append content_type,
              Append (sv CRLF)] @
             ceasy_append_response_headers c1 @
             [Format (''Content-Length: '' @ show_nat (sv_length body) @ CRLF @ ''Connection: close'' @ CRLF @ CRLF)])
            body)"

definition context_send_response where
  "context_send_response E m cfg c w status content_type body =
     context_send_bytes E m cfg c w status content_type body"

definition context_send_text where
  "context_send_text E m cfg c w status body =
     context_send_bytes E m cfg c w status (sv ''text/plain; charset=utf-8'') body"

definition context_send_html where
  "context_send_html E m cfg c w status body =
     context_send_bytes E m cfg c w status (sv ''text/html; charset=utf-8'') body"

definition context_redirect ::
    "'w env \<Rightarrow> malloc_fn \<Rightarrow> CeasyConfig \<Rightarrow> Context \<Rightarrow> 'w \<Rightarrow> StringView \<Rightarrow> (bool \<times> Context \<times> 'w) option" where
  "context_redirect E m cfg c w location =
     (if response_sent c \<or> client_fd c < 0 \<or> \<not> sv_has_data location then Some (False, c, w)
      else case ceasy_prepare_response E m cfg c w of
        (False, c1, w1) \<Rightarrow> Some (False, c1, w1)
      | (True, c1, w1) \<Rightarrow>
          send_pieces E m c1 w1
            ([Append (sv (''HTTP/1.1 303 See Other'' @ CRLF @ ''Location: '')), Append location, Append (sv CRLF)] @
             ceasy_append_response_headers c1 @
             [Append (sv (''Content-Length: 0'' @ CRLF @ ''Connection: close'' @ CRLF @ CRLF))])
            sv_zero)"

section \<open>Receiving\<close>

text \<open>The loop of \<open>ceasy_read_request\<close>: the bytes received so far are parsed after each \<open>recv\<close>. \<open>recv\<close>
  gives at most the room that is left.\<close>

function read_request_loop ::
    "'w env \<Rightarrow> int \<Rightarrow> size_t \<Rightarrow> char list \<Rightarrow> Request \<Rightarrow> 'w \<Rightarrow> RequestParseResult \<times> Request \<times> 'w" where
  "read_request_loop E fd capacity received request w =
     (if \<not> length received < capacity then (REQUEST_PARSE_PAYLOAD_TOO_LARGE, request, w)
      else case sock_recv E w fd (capacity - length received) of
        (None, w1) \<Rightarrow> (REQUEST_PARSE_BAD_REQUEST, request, w1)
      | (Some bytes, w1) \<Rightarrow>
          (let bytes' = take (capacity - length received) bytes
           in if bytes' = [] then (REQUEST_PARSE_BAD_REQUEST, request, w1)
              else (let (parsed, request1) = request_parse request (View (received @ bytes'))
                    in if parsed \<noteq> REQUEST_PARSE_INCOMPLETE then (parsed, request1, w1)
                       else read_request_loop E fd capacity (received @ bytes') request1 w1)))"
  by auto
termination
  by (relation "measure (\<lambda>(_, _, capacity, received, _, _). capacity - length received)")
     (auto simp: min_def intro!: diff_less_mono2 split: if_splits)

declare read_request_loop.simps [simp del]

definition ceasy_read_request :: "'w env \<Rightarrow> malloc_fn \<Rightarrow> Context \<Rightarrow> 'w \<Rightarrow> RequestParseResult \<times> Context \<times> 'w" where
  "ceasy_read_request E m c w =
     (let capacity = CEASY_MAX_HEADER_BYTES + CEASY_MAX_REQUEST_BODY
      in case ctx_arena c of
           None \<Rightarrow> (REQUEST_PARSE_BAD_REQUEST, c, w)
         | Some A \<Rightarrow>
             (case arena_alloc m A capacity of
                (None, A1) \<Rightarrow> (REQUEST_PARSE_BAD_REQUEST, c\<lparr>ctx_arena := Some A1\<rparr>, w)
              | (Some _, A1) \<Rightarrow>
                  (let (result, request, w1) = read_request_loop E (client_fd c) capacity [] (ctx_request c) w
                   in (result, c\<lparr>ctx_arena := Some A1, ctx_request := request\<rparr>, w1))))"

definition ceasy_method_name :: "HttpMethod \<Rightarrow> string" where
  "ceasy_method_name meth =
     (case meth of HTTP_METHOD_GET \<Rightarrow> ''GET'' | HTTP_METHOD_POST \<Rightarrow> ''POST'' | HTTP_METHOD_PATCH \<Rightarrow> ''PATCH''
      | HTTP_METHOD_PUT \<Rightarrow> ''PUT'' | HTTP_METHOD_DELETE \<Rightarrow> ''DELETE'' | HTTP_METHOD_UNKNOWN \<Rightarrow> [])"

end
