(* ===== verification/ResponseLaws.thy ===== *)
theory ResponseLaws
  imports Response SessionOps RouterLaws
begin

text \<open>
  What reaches the peer: the response head line by line and the body, when a call to send a response
  succeeds, and never more than a beginning of them when it fails.
\<close>

section \<open>The socket\<close>

text \<open>
  \<open>send\<close> as documented: a positive result is the number of bytes that went to the peer, taken from the
  front of the message; any other result means that none did. \<open>peer fd w\<close> is what the peer of a
  socket has been sent so far.
\<close>

definition socket_sends :: "'w env \<Rightarrow> (int \<Rightarrow> 'w \<Rightarrow> char list) \<Rightarrow> bool" where
  "socket_sends E peer \<longleftrightarrow>
     (\<forall>w fd bytes r i w1. sock_send E w fd bytes = (r, i, w1) \<longrightarrow>
        (if 0 < r then nat r \<le> length bytes \<and> peer fd w1 = peer fd w @ take (nat r) bytes else peer fd w1 = peer fd w))"

lemma send_from_spec:
  assumes "send_from E fd v start w = Some y" "socket_sends E peer" "start \<le> sv_length v" "length (sv_bytes v) = sv_length v"
  shows "\<exists>k. start + k \<le> sv_length v \<and> peer fd (snd y) = peer fd w @ take k (drop start (sv_bytes v)) \<and>
    (fst y \<longleftrightarrow> start + k = sv_length v)"
  using assms
proof (induction E fd v start w y rule: send_from.raw_induct [rotated, consumes 1, case_names 1])
  case (1 rec E fd v start w y)
  obtain r i w1 where s: "sock_send E w fd (drop start (sv_bytes v)) = (r, i, w1)" by (metis prod_cases3)
  have honest: "if 0 < r then nat r \<le> sv_length v - start \<and> peer fd w1 = peer fd w @ take (nat r) (drop start (sv_bytes v))
      else peer fd w1 = peer fd w" if "start < sv_length v"
    using "1.prems"(1) s "1.prems"(3) unfolding socket_sends_def by (metis length_drop)
  show ?case
  proof (cases "start < sv_length v")
    case False
    then have "y = (True, w)" "start = sv_length v" using "1.hyps" "1.prems"(2) by auto
    then show ?thesis by (intro exI [of _ 0]) simp
  next
    case True
    consider "r < 0 \<and> i" | "(r < 0 \<and> \<not> i) \<or> r = 0" | "0 < r" by linarith
    then show ?thesis
    proof cases
      case 1
      then have "rec E fd v start w1 = Some y" using "1.hyps" True s by (simp add: Let_def)
      from "1.IH" [OF this "1.prems"] honest [OF True] 1 show ?thesis by simp
    next
      case 2
      then have "y = (False, w1)" using "1.hyps" True s by (auto simp: Let_def)
      then show ?thesis using honest [OF True] True 2 by (intro exI [of _ 0]) auto
    next
      case 3
      have more: "start + nat r \<le> sv_length v" using honest [OF True] 3 True by auto
      have "rec E fd v (start + nat r) w1 = Some y" using "1.hyps" True s 3 by (simp add: Let_def)
      from "1.IH" [OF this "1.prems"(1) more "1.prems"(3)] obtain k where
        k: "start + nat r + k \<le> sv_length v" "peer fd (snd y) = peer fd w1 @ take k (drop (start + nat r) (sv_bytes v))"
          "fst y \<longleftrightarrow> start + nat r + k = sv_length v" by blast
      have "peer fd (snd y) = peer fd w @ take (nat r + k) (drop start (sv_bytes v))"
        unfolding take_add k(2) using honest [OF True] 3 by (simp add: add.commute)
      then show ?thesis using k by (intro exI [of _ "nat r + k"]) (simp add: add.assoc)
    qed
  qed
qed

lemma send_all_spec:
  assumes "ceasy_send_all E fd v w = Some (ok, w')" "socket_sends E peer" "sv_has_data v \<or> sv_length v = 0"
  shows "\<exists>k. k \<le> sv_length v \<and> peer fd w' = peer fd w @ take k (sv_bytes v) \<and> (ok \<longleftrightarrow> k = sv_length v)"
proof -
  have "length (sv_bytes v) = sv_length v" using assms(3) by (cases v) auto
  from send_from_spec [OF assms(1) [unfolded ceasy_send_all_def] assms(2) _ this] show ?thesis by auto
qed

text \<open>Interruptions end: some measure of the outside shrinks with each of them.\<close>

definition interruptions_end :: "'w env \<Rightarrow> bool" where
  "interruptions_end E \<longleftrightarrow>
     (\<exists>f :: 'w \<Rightarrow> nat. \<forall>w fd bytes r w1. sock_send E w fd bytes = (r, True, w1) \<longrightarrow> r < 0 \<longrightarrow> f w1 < f w)"

lemma send_from_returns:
  assumes "interruptions_end E"
  shows "\<exists>ok w'. send_from E fd v start w = Some (ok, w')"
proof -
  obtain f :: "'a \<Rightarrow> nat" where f: "\<And>w fd bytes r w1. sock_send E w fd bytes = (r, True, w1) \<Longrightarrow> r < 0 \<Longrightarrow> f w1 < f w"
    using assms unfolding interruptions_end_def by blast
  show ?thesis
  proof (induction "(start, w)" arbitrary: start w
      rule: wf_induct_rule [OF wf_mlex [OF wf_measure], of "\<lambda>(start, w). sv_length v - start" "\<lambda>(start, w). f w"])
    case (1 start w)
    obtain r i w1 where s: "sock_send E w fd (drop start (sv_bytes v)) = (r, i, w1)" by (metis prod_cases3)
    show ?case
    proof (cases "start < sv_length v")
      case False
      then show ?thesis by (subst send_from.simps) auto
    next
      case True
      consider "r < 0 \<and> i" | "(r < 0 \<and> \<not> i) \<or> r = 0" | "0 < r" by linarith
      then show ?thesis
      proof cases
        case a: 1
        then have "f w1 < f w" using f s by simp
        then have "\<exists>ok w'. send_from E fd v start w1 = Some (ok, w')" by (intro 1) (simp add: mlex_prod_def)
        then show ?thesis using a True s by (subst send_from.simps) (simp add: Let_def)
      next
        case 2
        then show ?thesis using True s by (subst send_from.simps) (auto simp: Let_def)
      next
        case c: 3
        then have "sv_length v - (start + nat r) < sv_length v - start" using True by (simp add: diff_less_mono2)
        then have "\<exists>ok w'. send_from E fd v (start + nat r) w1 = Some (ok, w')"
          by (intro 1) (simp add: mlex_prod_def)
        then show ?thesis using c True s by (subst send_from.simps) (simp add: Let_def)
      qed
    qed
  qed
qed

lemma send_text_returns:
  assumes "interruptions_end E"
  shows "\<exists>ok w'. send_text_and_body E fd head body w = Some (ok, w')"
proof -
  obtain ok w1 where 1: "ceasy_send_all E fd head w = Some (ok, w1)"
    unfolding ceasy_send_all_def using send_from_returns [OF assms] by blast
  have "\<exists>ok w'. ceasy_send_all E fd body w1 = Some (ok, w')"
    unfolding ceasy_send_all_def using send_from_returns [OF assms] by blast
  then show ?thesis using 1 by (simp add: send_text_and_body_def)
qed

lemma send_pieces_returns:
  assumes "interruptions_end E"
  shows "\<exists>ok c' w'. send_pieces E m c w ps body = Some (ok, c', w')"
proof (cases "ctx_arena c")
  case None
  obtain built head w1 where e: "string_emit (string_new (allocator_heap (env_heap E))) w ps = (built, head, w1)" by (metis prod_cases3)
  obtain ok w2 where "send_text_and_body E (client_fd c) (string_as_view head) body w1 = Some (ok, w2)"
    using send_text_returns [OF assms] by blast
  then show ?thesis using None e by (auto simp: send_pieces_def)
next
  case (Some A)
  obtain built head A1 where e: "string_emit (string_new (arena_allocator m)) A ps = (built, head, A1)" by (metis prod_cases3)
  obtain ok w2 where "send_text_and_body E (client_fd c) (string_as_view head) body w = Some (ok, w2)"
    using send_text_returns [OF assms] by blast
  then show ?thesis using Some e by (auto simp: send_pieces_def Let_def)
qed

lemma send_bytes_returns:
  assumes "interruptions_end E"
  shows "\<exists>ok c' w'. context_send_bytes E m cfg c w status content_type body = Some (ok, c', w')"
proof -
  obtain prepared c1 w1 where "ceasy_prepare_response E m cfg c w = (prepared, c1, w1)" by (metis prod_cases3)
  then show ?thesis using send_pieces_returns [OF assms] by (cases prepared) (auto simp: context_send_bytes_def)
qed

text \<open>A header text followed by a body.\<close>

lemma send_text_spec:
  assumes "send_text_and_body E fd (View head) body w = Some (ok, w')" "socket_sends E peer" "sv_has_data body \<or> sv_length body = 0"
  shows "\<exists>k. k \<le> length (head @ sv_bytes body) \<and> peer fd w' = peer fd w @ take k (head @ sv_bytes body) \<and>
    (ok \<longleftrightarrow> k = length (head @ sv_bytes body))"
proof -
  have len: "length (sv_bytes body) = sv_length body" using assms(3) by (cases body) auto
  obtain ok1 w1 where 1: "ceasy_send_all E fd (View head) w = Some (ok1, w1)"
    using assms(1) by (auto simp: send_text_and_body_def split: option.splits)
  obtain k where k: "k \<le> length head" "peer fd w1 = peer fd w @ take k head" "ok1 \<longleftrightarrow> k = length head"
    using send_all_spec [OF 1 assms(2)] by auto
  show ?thesis
  proof (cases "ok1 \<and> sv_length body > 0")
    case False
    then have "ok = ok1" "w' = w1" using assms(1) 1 by (auto simp: send_text_and_body_def)
    then show ?thesis using k False len by (intro exI [of _ k]) auto
  next
    case True
    then have "ceasy_send_all E fd body w1 = Some (ok, w')" using assms(1) 1 by (simp add: send_text_and_body_def)
    from send_all_spec [OF this assms(2,3)] obtain j where
      "j \<le> sv_length body" "peer fd w' = peer fd w1 @ take j (sv_bytes body)" "ok \<longleftrightarrow> j = sv_length body" by blast
    then show ?thesis using k True len by (intro exI [of _ "length head + j"]) auto
  qed
qed

section \<open>The head of a response\<close>

definition header_line :: "ResponseHeader \<Rightarrow> char list" where
  "header_line h = sv_bytes (nv_name h) @ '': '' @ sv_bytes (nv_value h)"

definition response_lines :: "char list \<Rightarrow> char list \<Rightarrow> ResponseHeader list \<Rightarrow> nat \<Rightarrow> char list list" where
  "response_lines status content_type headers n =
     [''HTTP/1.1 '' @ status, ''Content-Type: '' @ content_type] @ map header_line headers @
     [''Content-Length: '' @ show_nat n, ''Connection: close'']"

definition head_text :: "char list list \<Rightarrow> char list" where
  "head_text ls = concat (map (\<lambda>l. l @ CRLF) ls) @ CRLF"

lemma head_text_simps [simp]: "head_text [] = CRLF" "head_text (l # ls) = l @ CRLF @ head_text ls"
  by (simp_all add: head_text_def)

lemma head_text_append: "head_text (ls @ ks) = concat (map (\<lambda>l. l @ CRLF) ls) @ head_text ks"
  by (simp add: head_text_def)

text \<open>Whoever cuts what arrives at line feeds reads the lines, each ended by a carriage return, and the empty one.\<close>

lemma pieces_head: "\<forall>l\<in>set ls. no_line_break l \<Longrightarrow>
    take (Suc (length ls)) (pieces_at (CHR 0x0A) (head_text ls @ body)) = map (\<lambda>l. l @ [CHR 0x0D]) (ls @ [[]])"
proof (induction ls)
  case Nil
  have "pieces_at (CHR 0x0A) ([CHR 0x0D] @ CHR 0x0A # body) = [CHR 0x0D] # pieces_at (CHR 0x0A) body"
    by (rule pieces_first) simp
  then show ?case by (simp add: CRLF_def)
next
  case (Cons l ls)
  have "pieces_at (CHR 0x0A) ((l @ [CHR 0x0D]) @ CHR 0x0A # (head_text ls @ body)) =
      (l @ [CHR 0x0D]) # pieces_at (CHR 0x0A) (head_text ls @ body)"
    using Cons.prems by (intro pieces_first) (simp add: no_line_break_def)
  then show ?case using Cons by (simp add: CRLF_def)
qed

definition content_pieces :: "StringView \<Rightarrow> StringView \<Rightarrow> Context \<Rightarrow> nat \<Rightarrow> Piece list" where
  "content_pieces status content_type c n =
     [Append (sv ''HTTP/1.1 ''), Append status, Append (sv (CRLF @ ''Content-Type: '')), Append content_type,
      Append (sv CRLF)] @ ceasy_append_response_headers c @
     [Format (''Content-Length: '' @ show_nat n @ CRLF @ ''Connection: close'' @ CRLF @ CRLF)]"

lemma header_pieces_text: "pieces_text (ceasy_append_response_headers c) = concat (map (\<lambda>l. l @ CRLF) (map header_line (response_headers c)))"
proof -
  have "pieces_text (concat (map (\<lambda>item. [Append (nv_name item), Append (sv '': ''), Append (nv_value item), Append (sv CRLF)]) hs)) =
      concat (map (\<lambda>l. l @ CRLF) (map header_line hs))" for hs
    by (induction hs) (simp_all add: header_line_def sv_def)
  then show ?thesis by (simp add: ceasy_append_response_headers_def)
qed

lemma content_pieces_text:
  "pieces_text (content_pieces status content_type c n) =
     head_text (response_lines (sv_bytes status) (sv_bytes content_type) (response_headers c) n)"
  unfolding content_pieces_def response_lines_def map_append concat_append header_pieces_text
  by (simp add: sv_def head_text_append)

lemma content_pieces_ok: "\<forall>p\<in>set (content_pieces status content_type c n). piece_ok p"
  by (auto simp: content_pieces_def ceasy_append_response_headers_def)

lemma show_nat_clean: "no_line_break (show_nat n)"
proof -
  have "\<not> is_digit (CHR 0x0D)" "\<not> is_digit (CHR 0x0A)" by (simp_all add: is_digit_def byte_def)
  then show ?thesis unfolding no_line_break_def using show_nat_digits by metis
qed

lemma response_lines_clean:
  assumes "no_line_break status" "no_line_break content_type" "\<forall>h\<in>set headers. header_clean h"
  shows "\<forall>l\<in>set (response_lines status content_type headers n). no_line_break l"
  using assms show_nat_clean [of n]
  by (auto simp: response_lines_def header_line_def header_clean_def no_line_break_def)

section \<open>The headers every response has\<close>

definition lower :: "char list \<Rightarrow> char list" where
  "lower s = map stringv_ascii_lower s"

definition has_header :: "ResponseHeader list \<Rightarrow> char list \<Rightarrow> char list \<Rightarrow> bool" where
  "has_header hs name val \<longleftrightarrow> (\<exists>h\<in>set hs. lower (sv_bytes (nv_name h)) = lower name \<and> sv_bytes (nv_value h) = val)"

lemma has_header_append [simp]: "has_header (hs @ ks) name val \<longleftrightarrow> has_header hs name val \<or> has_header ks name val"
  by (auto simp: has_header_def)

lemma set_header_frame:
  assumes "arena_good m c" "context_set_header m c name val = (ok, c')"
  shows "\<exists>a hs. c' = c\<lparr>ctx_arena := a, response_headers := hs\<rparr> \<and> (ctx_arena c \<noteq> None \<longrightarrow> a \<noteq> None)"
proof -
  obtain a hs where 1: "c' = c\<lparr>ctx_arena := a, response_headers := hs\<rparr>"
  proof (cases ok)
    case True
    then have "c' = c\<lparr>ctx_arena := ctx_arena c', response_headers :=
        (case first_index (\<lambda>i. stringv_equal_ignore_case (nv_name (response_headers c ! i)) name)
                (length (response_headers c)) of
           Some i \<Rightarrow> (response_headers c)[i := (response_headers c ! i)\<lparr>nv_value := View (sv_bytes val)\<rparr>]
         | None \<Rightarrow> response_headers c @ [\<lparr>nv_name = View (sv_bytes name), nv_value = View (sv_bytes val)\<rparr>])\<rparr>"
      using set_header_spec [OF assms] by (simp only: if_True)
    then show thesis by (rule that)
  next
    case False
    then obtain a where "c' = c\<lparr>ctx_arena := a\<rparr>" using set_header_spec [OF assms] by auto
    then have "c' = c\<lparr>ctx_arena := a, response_headers := response_headers c\<rparr>" by simp
    then show thesis by (rule that)
  qed
  have "ctx_arena c \<noteq> None \<longrightarrow> ctx_arena c' \<noteq> None" using assms(2)
    by (auto simp: context_set_header_def context_add_header_def Let_def split: option.splits prod.splits if_splits)
  then have "ctx_arena c \<noteq> None \<longrightarrow> a \<noteq> None" unfolding 1 by simp
  then show ?thesis using 1 by blast
qed

lemma set_header_has:
  assumes good: "arena_good m c" and ok: "headers_ok c" and call: "context_set_header m c (View name) val = (True, c')"
  shows "has_header (response_headers c') name (sv_bytes val)"
    and "\<And>n v. has_header (response_headers c) n v \<Longrightarrow> lower n \<noteq> lower name \<Longrightarrow> has_header (response_headers c') n v"
proof -
  note S = set_header_spec [OF good call]
  let ?hs = "response_headers c"
  let ?found = "first_index (\<lambda>i. stringv_equal_ignore_case (nv_name (?hs ! i)) (View name)) (length ?hs)"
  define new :: "ResponseHeader list" where "new = (case ?found of
      Some i \<Rightarrow> ?hs[i := (?hs ! i)\<lparr>nv_value := View (sv_bytes val)\<rparr>]
    | None \<Rightarrow> ?hs @ [\<lparr>nv_name = View name, nv_value = View (sv_bytes val)\<rparr>])"
  have "c' = c\<lparr>ctx_arena := ctx_arena c', response_headers := new\<rparr>" using S by (simp add: new_def cong: option.case_cong)
  then obtain a where "c' = c\<lparr>ctx_arena := a, response_headers := new\<rparr>" by blast
  then have hs: "response_headers c' = new" by simp
  have both: "has_header new name (sv_bytes val) \<and> (\<forall>n v. has_header ?hs n v \<longrightarrow> lower n \<noteq> lower name \<longrightarrow> has_header new n v)"
  proof (cases ?found)
    case None
    then have "new = ?hs @ [\<lparr>nv_name = View name, nv_value = View (sv_bytes val)\<rparr>]" by (simp add: new_def)
    moreover have "has_header [\<lparr>nv_name = View name, nv_value = View (sv_bytes val)\<rparr>] name (sv_bytes val)"
      by (simp add: has_header_def)
    ultimately show ?thesis by simp
  next
    case (Some i)
    then have i: "i < length ?hs" "stringv_equal_ignore_case (nv_name (?hs ! i)) (View name)" by (simp_all add: loop_simps)
    have "sv_has_data (nv_name (?hs ! i))" using ok i by (simp add: headers_ok_def header_clean_def)
    then obtain b where b: "nv_name (?hs ! i) = View b" by (cases "nv_name (?hs ! i)") auto
    have same: "lower b = lower name" using i(2) by (simp add: b view_equal_ignore_case lower_def)
    have new: "new = ?hs[i := (?hs ! i)\<lparr>nv_value := View (sv_bytes val)\<rparr>]" using Some by (simp add: new_def)
    have at: "(?hs ! i)\<lparr>nv_value := View (sv_bytes val)\<rparr> \<in> set new" unfolding new using i(1) by (simp add: set_update_memI)
    have "has_header new name (sv_bytes val)" unfolding has_header_def
      by (rule bexI [OF _ at]) (use b same in simp)
    moreover have "has_header new n v" if h: "has_header ?hs n v" and other: "lower n \<noteq> lower name" for n v
    proof -
      obtain j where j: "j < length ?hs" "lower (sv_bytes (nv_name (?hs ! j))) = lower n" "sv_bytes (nv_value (?hs ! j)) = v"
        using h by (auto simp: has_header_def in_set_conv_nth)
      have "j \<noteq> i" using j(2) other b same by auto
      then have "new ! j = ?hs ! j" "j < length new" using j(1) by (simp_all add: new)
      then show ?thesis using j(2,3) unfolding has_header_def by (metis nth_mem)
    qed
    ultimately show ?thesis by blast
  qed
  show "has_header (response_headers c') name (sv_bytes val)" using both by (simp add: hs)
  show "has_header (response_headers c') n v" if "has_header ?hs n v" "lower n \<noteq> lower name" for n v
    using both that by (simp add: hs)
qed

lemma set_headers_has:
  assumes "arena_good m c" "headers_ok c" "set_headers m c hs = (True, c')"
    and "distinct (map (\<lambda>(n, v). lower (sv_bytes n)) hs)" "\<forall>(n, v)\<in>set hs. sv_has_data n"
  shows "arena_good m c' \<and> headers_ok c' \<and>
    (\<exists>a rs. c' = c\<lparr>ctx_arena := a, response_headers := rs\<rparr> \<and> (ctx_arena c \<noteq> None \<longrightarrow> a \<noteq> None)) \<and>
    (\<forall>(n, v)\<in>set hs. has_header (response_headers c') (sv_bytes n) (sv_bytes v)) \<and>
    (\<forall>n v. has_header (response_headers c) n v \<longrightarrow> (\<forall>(k, u)\<in>set hs. lower n \<noteq> lower (sv_bytes k)) \<longrightarrow>
       has_header (response_headers c') n v)"
  using assms
proof (induction hs arbitrary: c)
  case Nil
  then have same: "c' = c" by simp
  have "c = c\<lparr>ctx_arena := ctx_arena c, response_headers := response_headers c\<rparr>" by simp
  then have "\<exists>a rs. c = c\<lparr>ctx_arena := a, response_headers := rs\<rparr> \<and> (ctx_arena c \<noteq> None \<longrightarrow> a \<noteq> None)" by blast
  then show ?case unfolding same using Nil.prems(1,2) by simp
next
  case (Cons p hs)
  obtain n v where p: "p = (n, v)" by fastforce
  obtain name where n: "n = View name" using Cons.prems(5) p by (cases n) auto
  obtain c1 where set1: "context_set_header m c (View name) v = (True, c1)" "set_headers m c1 hs = (True, c')"
    using Cons.prems(3) p n by (auto split: prod.splits bool.splits)
  note H = set_header_has [OF Cons.prems(1,2) set1(1)]
  have ok1: "arena_good m c1" "headers_ok c1" using set_header_ok [OF Cons.prems(1,2) set1(1)] by blast+
  note IH = Cons.IH [OF ok1 set1(2)]
  have d: "distinct (map (\<lambda>(n, v). lower (sv_bytes n)) hs)" "\<forall>(n, v)\<in>set hs. sv_has_data n"
    using Cons.prems(4,5) by auto
  have fresh: "\<forall>(k, u)\<in>set hs. lower name \<noteq> lower (sv_bytes k)" using Cons.prems(4) p n by force
  obtain a rs where f1: "c1 = c\<lparr>ctx_arena := a, response_headers := rs\<rparr>" "ctx_arena c \<noteq> None \<longrightarrow> a \<noteq> None"
    using set_header_frame [OF Cons.prems(1) set1(1)] by blast
  obtain b ts where f2: "c' = c1\<lparr>ctx_arena := b, response_headers := ts\<rparr>" "ctx_arena c1 \<noteq> None \<longrightarrow> b \<noteq> None"
    using IH [OF d] by blast
  have f3: "c' = c\<lparr>ctx_arena := b, response_headers := ts\<rparr>" unfolding f2(1) f1(1) by simp
  have f4: "ctx_arena c \<noteq> None \<longrightarrow> b \<noteq> None" using f1 f2(2) by simp
  show ?case
  proof (intro conjI)
    show "arena_good m c'" "headers_ok c'" using IH [OF d] by blast+
    show "\<exists>a rs. c' = c\<lparr>ctx_arena := a, response_headers := rs\<rparr> \<and> (ctx_arena c \<noteq> None \<longrightarrow> a \<noteq> None)" using f3 f4 by blast
    have keep: "\<forall>n v. has_header (response_headers c1) n v \<longrightarrow> (\<forall>(k, u)\<in>set hs. lower n \<noteq> lower (sv_bytes k)) \<longrightarrow>
       has_header (response_headers c') n v" using IH [OF d] by blast
    show "\<forall>(n, v)\<in>set (p # hs). has_header (response_headers c') (sv_bytes n) (sv_bytes v)"
      using IH [OF d] H(1) keep fresh p n by simp
    show "\<forall>n v. has_header (response_headers c) n v \<longrightarrow> (\<forall>(k, u)\<in>set (p # hs). lower n \<noteq> lower (sv_bytes k)) \<longrightarrow>
       has_header (response_headers c') n v" using H(2) keep p n by simp
  qed
qed

section \<open>Before a response is sent\<close>

lemma commit_frame:
  assumes good: "arena_good m c" and ok: "headers_ok c" and wf: "session_wf c"
    and call: "session_commit E m cfg c w = (True, c', w')"
  shows "arena_good m c' \<and> headers_ok c' \<and> ctx_arena c' \<noteq> None \<and> client_fd c' = client_fd c \<and>
    response_sent c' = response_sent c \<and> request_id c' = request_id c"
proof (cases "commit_needed c")
  case False
  then have "c' = c" using call by (auto simp: session_commit_def split: if_splits)
  then show ?thesis using good ok wf by (simp add: session_wf_def)
next
  case need: True
  have sok: "session_ok c" using wf_loaded [OF wf] need by blast
  show ?thesis
  proof (rule commit_steps [OF need call])
    fix c1 w1 c2 w2 rec c3 digest w3 now w4 db db1 c6
    assume 1: "(if session_regenerate_flag (ctx_session c) \<and> old_length c > 0
        then session_delete_digest E c w (string_as_view (session_token (ctx_session c))) else (True, c, w)) = (True, c1, w1)"
      and 2: "(if old_length c = 0 \<or> session_regenerate_flag (ctx_session c1)
        then session_generate_token E m c1 w1 else (True, c1, w1)) = (True, c2, w2)"
      and 3: "session_serialize m c2 = (True, rec, c3)"
      and 7: "context_set_cookie m ((set_session c3 (\<lambda>s. s\<lparr>session_expires_at := now + ceasy_session_ttl_seconds cfg\<rparr>))
           \<lparr>ctx_database := Some db1\<rparr>) (ceasy_session_cookie_name cfg)
         (string_as_view (session_token (ctx_session c3)))
         ((session_cookie_options cfg)\<lparr>cookie_max_age := ceasy_session_ttl_seconds cfg\<rparr>) = (True, c6)"
      and 8: "c' = set_session c6 (\<lambda>s. s\<lparr>session_exists := True, session_dirty := False, session_regenerate_flag := False\<rparr>)"
    obtain d where c1: "c1 = c\<lparr>ctx_database := d\<rparr>"
    proof (cases "session_regenerate_flag (ctx_session c) \<and> old_length c > 0")
      case True
      then have "session_delete_digest E c w (string_as_view (session_token (ctx_session c))) = (True, c1, w1)" using 1 by simp
      from delete_digest_spec [OF this] that show thesis by blast
    next
      case False
      then have "c1 = c\<lparr>ctx_database := ctx_database c\<rparr>" using 1 by (auto split: if_splits)
      then show thesis by (rule that)
    qed
    have good1: "arena_good m c1" "session_ok c1" "ctx_arena c1 \<noteq> None"
      using good sok by (simp_all add: c1 arena_good_def session_ok_def)
    obtain a t where c2: "c2 = c1\<lparr>ctx_arena := a, ctx_session := (ctx_session c1)\<lparr>session_token := t\<rparr>\<rparr>"
      and g2: "arena_good m c2" and a: "a \<noteq> None"
    proof (cases "old_length c = 0 \<or> session_regenerate_flag (ctx_session c1)")
      case True
      then have "session_generate_token E m c1 w1 = (True, c2, w2)" using 2 by simp
      from generate_token_spec [OF good1(1) this] good1(3) that show thesis by blast
    next
      case False
      then have "c2 = c1\<lparr>ctx_arena := ctx_arena c1, ctx_session := (ctx_session c1)\<lparr>session_token := session_token (ctx_session c1)\<rparr>\<rparr>"
        "arena_good m c2" using 2 good1 by auto
      then show thesis using that good1(3) by blast
    qed
    have sok2: "session_ok c2" using good1(2) a by (simp add: c2 session_ok_def)
    note S = serialize_frame [OF g2 sok2 3]
    obtain b where c3: "c3 = c2\<lparr>ctx_arena := b\<rparr>" using S(2) by blast
    define c5 where "c5 = (set_session c3 (\<lambda>s. s\<lparr>session_expires_at := now + ceasy_session_ttl_seconds cfg\<rparr>))
           \<lparr>ctx_database := Some db1\<rparr>"
    note 7 = 7 [folded c5_def]
    have g3: "arena_good m c5" using S(1) by (simp add: c5_def arena_good_def)
    have h3: "headers_ok c5" using ok by (simp add: headers_ok_def c5_def c3 c2 c1)
    have C: "arena_good m c6 \<and> headers_ok c6" by (rule set_cookie_ok [OF g3 h3 7])
    obtain e hs where c6: "c6 = c5\<lparr>ctx_arena := e, response_headers := hs\<rparr>" using set_cookie_spec [OF g3 7] by auto
    have "b \<noteq> None" using serialize_bytes(5) [OF g2 sok2 3] c3 by auto
    then have "ctx_arena c6 \<noteq> None" using set_cookie_same_session [OF 7] by (simp add: same_session_def c5_def c3)
    moreover have "client_fd c6 = client_fd c \<and> response_sent c6 = response_sent c \<and> request_id c6 = request_id c"
      by (simp add: c6 c5_def c3 c2 c1)
    ultimately show ?thesis using C by (simp add: 8 arena_good_def headers_ok_def)
  qed
qed

definition secured :: "Context \<Rightarrow> bool" where
  "secured c \<longleftrightarrow> has_header (response_headers c) ''X-Content-Type-Options'' ''nosniff'' \<and>
     has_header (response_headers c) ''Referrer-Policy'' ''strict-origin-when-cross-origin'' \<and>
     has_header (response_headers c) ''X-Frame-Options'' ''SAMEORIGIN'' \<and>
     (sv_length (request_id c) \<noteq> 0 \<longrightarrow> has_header (response_headers c) ''X-Request-ID'' (sv_bytes (request_id c)))"

lemma response_prepare_spec:
  assumes "arena_good m c" "headers_ok c" "session_wf c" "ceasy_prepare_response E m cfg c w = (True, c', w')"
  shows "arena_good m c' \<and> headers_ok c' \<and> ctx_arena c' \<noteq> None \<and> client_fd c' = client_fd c \<and>
    response_sent c' = response_sent c \<and> secured c'"
proof -
  obtain c1 where 1: "session_commit E m cfg c w = (True, c1, w')" and
    2: "ctx_arena c1 \<noteq> None \<Longrightarrow> set_headers m c1 (standard_headers c1) = (True, c')"
    using assms(4) by (auto simp: ceasy_prepare_response_def split: prod.splits bool.splits if_splits)
  note C = commit_frame [OF assms(1-3) 1]
  have hs: "set_headers m c1 (standard_headers c1) = (True, c')" using 2 C by blast
  have names: "lower ''X-Content-Type-Options'' = ''x-content-type-options''" "lower ''Referrer-Policy'' = ''referrer-policy''"
    "lower ''X-Frame-Options'' = ''x-frame-options''" "lower ''X-Request-ID'' = ''x-request-id''" by code_simp+
  have d: "distinct (map (\<lambda>(n, v). lower (sv_bytes n)) (standard_headers c1))"
    by (simp add: standard_headers_def sv_def names)
  have v: "\<forall>(n, v)\<in>set (standard_headers c1). sv_has_data n"
    by (simp add: standard_headers_def sv_def)
  note H = set_headers_has [OF conjunct1 [OF C] conjunct1 [OF conjunct2 [OF C]] hs d v]
  obtain a rs where c': "c' = c1\<lparr>ctx_arena := a, response_headers := rs\<rparr>" "ctx_arena c1 \<noteq> None \<longrightarrow> a \<noteq> None" using H by blast
  have all: "\<forall>(n, v)\<in>set (standard_headers c1). has_header (response_headers c') (sv_bytes n) (sv_bytes v)" using H by blast
  have "request_id c' = request_id c1" by (simp add: c')
  then have "secured c'" using all by (simp add: secured_def standard_headers_def sv_def split: if_splits)
  then show ?thesis using H C c' by simp
qed

section \<open>Sending\<close>

lemma send_pieces_spec:
  assumes socket: "socket_sends E peer" and good: "arena_good m c" "ctx_arena c \<noteq> None"
    and ps: "\<forall>p\<in>set ps. piece_ok p" "pieces_text ps \<noteq> []" and body: "sv_has_data body \<or> sv_length body = 0"
    and call: "send_pieces E m c w ps body = Some (ok, c', w')"
  shows "\<exists>k. peer (client_fd c) w' = peer (client_fd c) w @ take k (pieces_text ps @ sv_bytes body) \<and>
    (ok \<longrightarrow> k = length (pieces_text ps @ sv_bytes body)) \<and> (\<not> ok \<longrightarrow> k < length (pieces_text ps @ sv_bytes body)) \<and>
    response_sent c' = (ok \<or> response_sent c) \<and> response_headers c' = response_headers c"
proof -
  let ?all = "pieces_text ps @ sv_bytes body"
  obtain A where A: "ctx_arena c = Some A" and inv: "malloc_spec m \<and> arena_inv A"
    using good by (auto simp: arena_good_def)
  obtain built head A1 where e: "string_emit (string_new (arena_allocator m)) A ps = (built, head, A1)" by (metis prod_cases3)
  define c1 where "c1 = c\<lparr>ctx_arena := Some (snd (string_destroy head A1))\<rparr>"
  show ?thesis
  proof (cases built)
    case False
    then have "ok = False" "c' = c1" "w' = w" using call by (simp_all add: send_pieces_def A e Let_def c1_def)
    then show ?thesis using ps(2) by (intro exI [of _ 0]) (simp add: c1_def)
  next
    case True
    have "arena_provider.ready m head A1" "string_content head = pieces_text ps"
      using arena_provider.emit_new [OF inv ps(1) e] True by simp_all
    then have view: "string_as_view head = View (pieces_text ps)"
      using arena_provider.view_of_string [of m head A1] ps(2) by simp
    obtain sent w1 where s: "send_text_and_body E (client_fd c) (View (pieces_text ps)) body w = Some (sent, w1)"
        "ok = sent" "w' = w1" "c' = (if sent then c1\<lparr>response_sent := True\<rparr> else c1)"
      using call True by (auto simp: send_pieces_def A e Let_def c1_def view)
    from send_text_spec [OF s(1) socket body] obtain k where
      k: "k \<le> length ?all" "peer (client_fd c) w1 = peer (client_fd c) w @ take k ?all" "sent \<longleftrightarrow> k = length ?all" by blast
    have "response_sent c' = (ok \<or> response_sent c)" "response_headers c' = response_headers c" using s by (simp_all add: c1_def)
    then show ?thesis using k s by (intro exI [of _ k]) auto
  qed
qed

text \<open>
  The peer has got a whole response, made from the context as it was prepared; or a beginning of it only.
\<close>

definition delivered where
  "delivered E m cfg peer c w status content_type body c' w' \<longleftrightarrow>
     (\<exists>c1 w1. ceasy_prepare_response E m cfg c w = (True, c1, w1) \<and> secured c1 \<and> response_headers c' = response_headers c1 \<and>
        (let ls = response_lines (sv_bytes status) (sv_bytes content_type) (response_headers c1) (sv_length body);
             received = head_text ls @ sv_bytes body
         in peer (client_fd c) w' = peer (client_fd c) w1 @ received \<and>
            (no_line_break (sv_bytes status) \<and> no_line_break (sv_bytes content_type) \<longrightarrow>
               take (Suc (length ls)) (pieces_at (CHR 0x0A) received) = map (\<lambda>l. l @ [CHR 0x0D]) (ls @ [[]]))))"

definition cut_short where
  "cut_short E m cfg peer c w status content_type body w' \<longleftrightarrow>
     (\<exists>c1 w1 k. ceasy_prepare_response E m cfg c w = (True, c1, w1) \<and>
        (let received = head_text (response_lines (sv_bytes status) (sv_bytes content_type) (response_headers c1)
              (sv_length body)) @ sv_bytes body
         in k < length received \<and> peer (client_fd c) w' = peer (client_fd c) w1 @ take k received))"

lemma send_bytes_spec:
  assumes "socket_sends E peer" "arena_good m c" "headers_ok c" "session_wf c"
    and "context_send_bytes E m cfg c w status content_type body = Some (ok, c', w')"
  shows "if ok then \<not> response_sent c \<and> response_sent c' \<and> delivered E m cfg peer c w status content_type body c' w'
    else c' = c \<and> w' = w \<or> ceasy_prepare_response E m cfg c w = (False, c', w') \<or>
      \<not> response_sent c' \<and> cut_short E m cfg peer c w status content_type body w'"
proof -
  define refused where "refused \<longleftrightarrow> response_sent c \<or> client_fd c < 0 \<or> \<not> sv_has_data status \<or> \<not> sv_has_data content_type \<or>
         (sv_length body > 0 \<and> \<not> sv_has_data body)"
  note U = assms(5) [unfolded context_send_bytes_def refused_def [symmetric]]
  show ?thesis
  proof (cases refused)
    case True
    then show ?thesis using U by simp
  next
    case False
    have fresh: "\<not> response_sent c" "sv_has_data body \<or> sv_length body = 0" using False by (auto simp: refused_def)
    obtain prepared c1 w1 where p: "ceasy_prepare_response E m cfg c w = (prepared, c1, w1)" by (metis prod_cases3)
    show ?thesis
    proof (cases prepared)
      case False
      then show ?thesis using U p \<open>\<not> refused\<close> by simp
    next
      case True
      then have p: "ceasy_prepare_response E m cfg c w = (True, c1, w1)" using p by simp
      note P = response_prepare_spec [OF assms(2-4) p]
      let ?ps = "content_pieces status content_type c1 (sv_length body)"
      let ?ls = "response_lines (sv_bytes status) (sv_bytes content_type) (response_headers c1) (sv_length body)"
      let ?all = "head_text ?ls @ sv_bytes body"
      have "send_pieces E m c1 w1 ?ps body = Some (ok, c', w')"
        using U p \<open>\<not> refused\<close> by (simp add: content_pieces_def)
      from send_pieces_spec [OF assms(1) _ _ content_pieces_ok _ fresh(2) this] P obtain k where
        k: "peer (client_fd c) w' = peer (client_fd c) w1 @ take k ?all" "ok \<longrightarrow> k = length ?all"
          "\<not> ok \<longrightarrow> k < length ?all" "response_sent c' = (ok \<or> response_sent c)" "response_headers c' = response_headers c1"
        unfolding content_pieces_text by (auto simp: head_text_def CRLF_def)
      have lines: "take (Suc (length ?ls)) (pieces_at (CHR 0x0A) ?all) = map (\<lambda>l. l @ [CHR 0x0D]) (?ls @ [[]])"
        if "no_line_break (sv_bytes status)" "no_line_break (sv_bytes content_type)"
        using that P by (intro pieces_head response_lines_clean) (simp_all add: headers_ok_def)
      show ?thesis
      proof (cases ok)
        case ok: True
        have "peer (client_fd c) w' = peer (client_fd c) w1 @ ?all" using k ok by simp
        moreover have "secured c1" "response_sent c'" using P k(4) ok by blast+
        ultimately have "delivered E m cfg peer c w status content_type body c' w'"
          unfolding delivered_def Let_def using p lines k(5) by (intro exI [of _ c1] exI [of _ w1]) simp
        then show ?thesis using ok fresh(1) \<open>response_sent c'\<close> by simp
      next
        case failed: False
        then have "k < length ?all" "\<not> response_sent c'" using k fresh by auto
        then have "cut_short E m cfg peer c w status content_type body w'"
          unfolding cut_short_def Let_def using k(1) p by (intro exI [of _ c1] exI [of _ w1] exI [of _ k]) simp
        then show ?thesis using failed \<open>\<not> response_sent c'\<close> by simp
      qed
    qed
  qed
qed

text \<open>C39: What the peer gets. When interruptions of the system call end, the call returns. When it succeeds,
  the session had been committed and the security headers set, and the peer has received exactly the status
  line, the content type, the response headers in their order, the length of the body, \<open>Connection: close\<close>,
  an empty line, and the body; the response counts as sent. The lines cannot be forged from header values:
  cut at line feeds, what arrived begins with exactly these lines. When it fails, nothing was done, or the
  preparation failed, or only a beginning was sent and the response does not count as sent.\<close>

theorem context_send_bytes_correct:
  assumes "socket_sends E peer" "arena_good m c" "headers_ok c" "session_wf c"
  shows "(interruptions_end E \<longrightarrow>
      (\<exists>ok c' w'. context_send_bytes E m cfg c w status content_type body = Some (ok, c', w'))) \<and>
    (\<forall>ok c' w'. context_send_bytes E m cfg c w status content_type body = Some (ok, c', w') \<longrightarrow>
      (if ok then \<not> response_sent c \<and> response_sent c' \<and> delivered E m cfg peer c w status content_type body c' w'
       else c' = c \<and> w' = w \<or> ceasy_prepare_response E m cfg c w = (False, c', w') \<or>
         \<not> response_sent c' \<and> cut_short E m cfg peer c w status content_type body w'))"
  using send_bytes_returns [of E m cfg c w status content_type body] send_bytes_spec [OF assms, of cfg w status content_type body]
  by blast

text \<open>A socket that takes at most a hundred bytes at a time.\<close>

definition wire_env :: "char list env" where
  "wire_env = null_env\<lparr>sock_send := (\<lambda>w fd bytes. (int (min 100 (length bytes)), False, w @ take 100 bytes))\<rparr>"

lemma wire_env_sends: "socket_sends wire_env (\<lambda>fd w. w)" "interruptions_end wire_env"
  by (auto simp: socket_sends_def interruptions_end_def wire_env_def min_def)

lemma demo_headers_ok: "headers_ok demo_session"
  by (simp add: headers_ok_def demo_session_def session_map_init_def demo_context_def context_zero_def split: prod.split)

theorem context_send_bytes_correct_witness:
  "\<exists>ok c' w'. context_send_bytes wire_env demo_malloc config_zero demo_session [] (sv ''200 OK'') (sv ''text/plain'') (sv ''hi'') =
       Some (ok, c', w') \<and>
     (ok \<longrightarrow> delivered wire_env demo_malloc config_zero (\<lambda>fd w. w) demo_session [] (sv ''200 OK'') (sv ''text/plain'') (sv ''hi'') c' w')"
proof -
  have good: "arena_good demo_malloc demo_session" "session_wf demo_session"
    using demo_session_ok session_ok_wf by (simp_all add: arena_good_def)
  note R = context_send_bytes_correct [OF wire_env_sends(1) good(1) demo_headers_ok good(2),
      of config_zero "[]" "sv ''200 OK''" "sv ''text/plain''" "sv ''hi''"]
  obtain ok c' w' where "context_send_bytes wire_env demo_malloc config_zero demo_session [] (sv ''200 OK'') (sv ''text/plain'') (sv ''hi'') =
       Some (ok, c', w')" using R wire_env_sends(2) by blast
  then show ?thesis using R by (cases ok) auto
qed

end
