(* ===== verification/Asset.thy ===== *)
theory Asset
  imports Response
begin

text \<open>
  Static files: the check of a requested path and the loading of files under \<open>public\<close>
  (\<open>src/src/asset/asset.c\<close>), the content type of a file name (\<open>src/src/asset/mime.c\<close>), and the assets
  compiled into the program (\<open>src/src/asset/bundle.c\<close>).

  The file system is a record of functions like the rest of the outside. A failed call says whether
  \<open>errno\<close> is \<open>ENOENT\<close> or \<open>ENOTDIR\<close>. The weak symbol \<open>ceasy_asset_bundle\<close> is a parameter: the bundle
  the program is linked with.
\<close>

record 'w files =
  fs_getcwd :: "'w \<Rightarrow> char list option"
  fs_realpath :: "'w \<Rightarrow> char list \<Rightarrow> char list option \<times> bool"
  fs_open :: "'w \<Rightarrow> char list \<Rightarrow> nat option \<times> bool \<times> 'w"
  fs_size :: "'w \<Rightarrow> nat \<Rightarrow> int option \<times> 'w"
  fs_rewind :: "'w \<Rightarrow> nat \<Rightarrow> bool \<times> 'w"
  fs_read :: "'w \<Rightarrow> nat \<Rightarrow> size_t \<Rightarrow> char list \<times> 'w"
  fs_close :: "'w \<Rightarrow> nat \<Rightarrow> bool \<times> 'w"

record AssetData =
  asset_type :: StringView
  asset_data :: StringView

datatype AssetLoadResult = ASSET_LOAD_MISSING | ASSET_LOAD_FOUND | ASSET_LOAD_ERROR

record EmbeddedAsset =
  embedded_path :: StringView
  embedded_type :: StringView
  embedded_data :: StringView

type_synonym AssetBundle = "EmbeddedAsset list option"

definition asset_zero :: AssetData where
  "asset_zero = \<lparr>asset_type = sv_zero, asset_data = sv_zero\<rparr>"

definition CEASY_MAX_ASSET_BYTES :: int where "CEASY_MAX_ASSET_BYTES = 32 * 1024 * 1024"
definition PATH_MAX :: nat where "PATH_MAX = 4096"

section \<open>Content types\<close>

definition asset_content_type :: "StringView \<Rightarrow> StringView" where
  "asset_content_type path =
     (if sv_length path > 0 \<and> \<not> sv_has_data path then sv ''application/octet-stream''
      else
        (let slash = (case last_index (\<lambda>i. sv_bytes path ! i = CHR ''/'') (sv_length path) of
                        None \<Rightarrow> 0 | Some i \<Rightarrow> i + 1);
             dot = (case last_index (\<lambda>i. i \<ge> slash \<and> sv_bytes path ! i = CHR ''.'') (sv_length path) of
                      None \<Rightarrow> sv_length path | Some i \<Rightarrow> i)
         in if dot = sv_length path \<or> dot + 1 \<ge> sv_length path then sv ''application/octet-stream''
            else
              (let extension = stringv_from path dot; is = (\<lambda>e. stringv_equal_ignore_case extension (sv e))
               in if is ''.css'' then sv ''text/css; charset=utf-8''
                  else if is ''.js'' then sv ''text/javascript; charset=utf-8''
                  else if is ''.html'' then sv ''text/html; charset=utf-8''
                  else if is ''.txt'' then sv ''text/plain; charset=utf-8''
                  else if is ''.json'' then sv ''application/json; charset=utf-8''
                  else if is ''.svg'' then sv ''image/svg+xml''
                  else if is ''.png'' then sv ''image/png''
                  else if is ''.jpg'' \<or> is ''.jpeg'' then sv ''image/jpeg''
                  else if is ''.gif'' then sv ''image/gif''
                  else if is ''.webp'' then sv ''image/webp''
                  else if is ''.ico'' then sv ''image/x-icon''
                  else if is ''.woff'' then sv ''font/woff''
                  else if is ''.woff2'' then sv ''font/woff2''
                  else sv ''application/octet-stream'')))"

section \<open>Paths\<close>

definition asset_hex_digit :: "char \<Rightarrow> nat option" where
  "asset_hex_digit c =
     (if byte c \<ge> byte (CHR ''0'') \<and> byte c \<le> byte (CHR ''9'') then Some (byte c - byte (CHR ''0''))
      else if byte c \<ge> byte (CHR ''a'') \<and> byte c \<le> byte (CHR ''f'') then Some (byte c - byte (CHR ''a'') + 10)
      else if byte c \<ge> byte (CHR ''A'') \<and> byte c \<le> byte (CHR ''F'') then Some (byte c - byte (CHR ''A'') + 10)
      else None)"

text \<open>The decoding loop over the bytes of the request path.\<close>

definition asset_char_ok :: "char \<Rightarrow> bool" where
  "asset_char_ok c \<longleftrightarrow> \<not> (c = CHR 0x00 \<or> c = CHR 0x5C \<or> c = CHR '':'')"

fun asset_decode :: "char list \<Rightarrow> char list option" where
  "asset_decode [] = Some []"
| "asset_decode (c # rest) =
     (if c = CHR ''%'' then
        (case rest of
           h # l # rest' \<Rightarrow>
             (case (asset_hex_digit h, asset_hex_digit l) of
                (Some high, Some low) \<Rightarrow>
                  (let v = char_of (push_bit 4 high OR low)
                   in if asset_char_ok v then map_option (Cons v) (asset_decode rest') else None)
              | _ \<Rightarrow> None)
         | _ \<Rightarrow> None)
      else if asset_char_ok c then map_option (Cons c) (asset_decode rest) else None)"

text \<open>The loop over the segments of the decoded path, from an index and the start of its segment.\<close>

function asset_segments_loop :: "char list \<Rightarrow> size_t \<Rightarrow> size_t \<Rightarrow> size_t \<Rightarrow> bool" where
  "asset_segments_loop bytes output_length index segment_start =
     (if \<not> index \<le> output_length then True
      else if index \<noteq> output_length \<and> bytes ! index \<noteq> CHR ''/'' then
        asset_segments_loop bytes output_length (index + 1) segment_start
      else if index = segment_start \<or>
              (index - segment_start = 1 \<and> bytes ! segment_start = CHR ''.'') \<or>
              (index - segment_start = 2 \<and> bytes ! segment_start = CHR ''.'' \<and> bytes ! (segment_start + 1) = CHR ''.'')
      then False
      else asset_segments_loop bytes output_length (index + 1) (index + 1))"
  by auto
termination
  by (relation "measure (\<lambda>(_, output_length, index, _). output_length + 1 - index)") auto

declare asset_segments_loop.simps [simp del]

definition asset_normalize_path :: "malloc_fn \<Rightarrow> Context \<Rightarrow> StringView \<Rightarrow> StringView option \<times> Context" where
  "asset_normalize_path m c request_path =
     (case ctx_arena c of
        None \<Rightarrow> (None, c)
      | Some A \<Rightarrow>
          if \<not> sv_has_data request_path \<or> sv_length request_path < 2 \<or> sv_bytes request_path ! 0 \<noteq> CHR ''/'' \<or>
             sv_length request_path > SIZE_MAX - 1
          then (None, c)
          else
            (case arena_alloc m A (sv_length request_path + 1) of
               (None, A1) \<Rightarrow> (None, c\<lparr>ctx_arena := Some A1\<rparr>)
             | (Some _, A1) \<Rightarrow>
                 (case asset_decode (sv_bytes request_path) of
                    None \<Rightarrow> (None, c\<lparr>ctx_arena := Some A1\<rparr>)
                  | Some bytes \<Rightarrow>
                      (if asset_segments_loop bytes (length bytes) 1 1 then Some (View bytes) else None,
                       c\<lparr>ctx_arena := Some A1\<rparr>))))"

definition asset_path_within_root :: "char list \<Rightarrow> char list \<Rightarrow> bool" where
  "asset_path_within_root root path \<longleftrightarrow>
     take (length root) path = root \<and> (length path = length root \<or> path ! length root = CHR ''/'')"

section \<open>Loading\<close>

definition not_found :: "bool \<Rightarrow> AssetLoadResult" where
  "not_found missing = (if missing then ASSET_LOAD_MISSING else ASSET_LOAD_ERROR)"

text \<open>Reading the open file; closing it is part of every branch.\<close>

definition asset_read_file ::
    "'w files \<Rightarrow> malloc_fn \<Rightarrow> Context \<Rightarrow> 'w \<Rightarrow> StringView \<Rightarrow> nat \<Rightarrow> AssetLoadResult \<times> AssetData \<times> Context \<times> 'w" where
  "asset_read_file F m c w path input =
     (let fail = (\<lambda>c1 w1. (ASSET_LOAD_ERROR, asset_zero, c1, snd (fs_close F w1 input)))
      in case fs_size F w input of
           (None, w1) \<Rightarrow> fail c w1
         | (Some file_size, w1) \<Rightarrow>
             if file_size < 0 \<or> file_size > CEASY_MAX_ASSET_BYTES then fail c w1
             else
               (case fs_rewind F w1 input of
                  (False, w2) \<Rightarrow> fail c w2
                | (True, w2) \<Rightarrow>
                    (let (bytes, c1, w3) =
                       (if file_size > 0 then
                          (case ctx_arena c of
                             None \<Rightarrow> (None, c, w2)
                           | Some A \<Rightarrow>
                               (case arena_alloc m A (nat file_size) of
                                  (None, A1) \<Rightarrow> (None, c\<lparr>ctx_arena := Some A1\<rparr>, w2)
                                | (Some _, A1) \<Rightarrow>
                                    (let (bytes, w3) = fs_read F w2 input (nat file_size)
                                     in (if length bytes \<noteq> nat file_size then None else Some (View bytes),
                                         c\<lparr>ctx_arena := Some A1\<rparr>, w3))))
                        else (Some sv_zero, c, w2))
                     in case bytes of
                          None \<Rightarrow> fail c1 w3
                        | Some content \<Rightarrow>
                            (let (closed, w4) = fs_close F w3 input
                             in if \<not> closed then (ASSET_LOAD_ERROR, asset_zero, c1, w4)
                                else (ASSET_LOAD_FOUND,
                                      \<lparr>asset_type = asset_content_type path, asset_data = content\<rparr>, c1, w4)))))"

definition asset_load_filesystem_normalized ::
    "'w files \<Rightarrow> malloc_fn \<Rightarrow> Context \<Rightarrow> 'w \<Rightarrow> StringView \<Rightarrow> AssetLoadResult \<times> AssetData \<times> Context \<times> 'w" where
  "asset_load_filesystem_normalized F m c w path =
     (case (ctx_arena c, fs_getcwd F w) of
        (Some _, Some cwd) \<Rightarrow>
          (let public_directory = cwd @ ''/public''
           in if \<not> sv_has_data path \<or> sv_length path < 2 \<or> length public_directory \<ge> PATH_MAX
              then (ASSET_LOAD_ERROR, asset_zero, c, w)
              else case fs_realpath F w public_directory of
                (None, missing) \<Rightarrow> (not_found missing, asset_zero, c, w)
              | (Some public_realpath, _) \<Rightarrow>
                  (let filename = public_realpath @ sv_bytes path
                   in if length filename \<ge> PATH_MAX then (ASSET_LOAD_ERROR, asset_zero, c, w)
                      else case fs_realpath F w filename of
                        (None, missing) \<Rightarrow> (not_found missing, asset_zero, c, w)
                      | (Some filename_realpath, _) \<Rightarrow>
                          if \<not> asset_path_within_root public_realpath filename_realpath
                          then (ASSET_LOAD_ERROR, asset_zero, c, w)
                          else (case fs_open F w filename_realpath of
                                  (None, missing, w1) \<Rightarrow> (not_found missing, asset_zero, c, w1)
                                | (Some input, _, w1) \<Rightarrow> asset_read_file F m c w1 path input)))
      | _ \<Rightarrow> (ASSET_LOAD_ERROR, asset_zero, c, w))"

definition asset_load_filesystem ::
    "'w files \<Rightarrow> malloc_fn \<Rightarrow> Context \<Rightarrow> 'w \<Rightarrow> StringView \<Rightarrow> AssetLoadResult \<times> AssetData \<times> Context \<times> 'w" where
  "asset_load_filesystem F m c w request_path =
     (case asset_normalize_path m c request_path of
        (None, c1) \<Rightarrow> (ASSET_LOAD_ERROR, asset_zero, c1, w)
      | (Some normalized, c1) \<Rightarrow> asset_load_filesystem_normalized F m c1 w normalized)"

definition ceasy_empty_bundle :: AssetBundle where
  "ceasy_empty_bundle = Some []"

definition asset_bundle_find :: "AssetBundle \<Rightarrow> StringView \<Rightarrow> EmbeddedAsset option" where
  "asset_bundle_find bundle path =
     (case bundle of
        None \<Rightarrow> None
      | Some assets \<Rightarrow> List.find (\<lambda>a. stringv_equal (embedded_path a) path) assets)"

definition asset_serve ::
    "'w env \<Rightarrow> 'w files \<Rightarrow> AssetBundle \<Rightarrow> malloc_fn \<Rightarrow> CeasyConfig \<Rightarrow> Context \<Rightarrow> 'w \<Rightarrow> StringView \<Rightarrow>
     (bool \<times> Context \<times> 'w) option" where
  "asset_serve E F bundle m cfg c w request_path =
     (case asset_normalize_path m c request_path of
        (None, c1) \<Rightarrow> Some (False, c1, w)
      | (Some normalized, c1) \<Rightarrow>
          (case asset_load_filesystem_normalized F m c1 w normalized of
             (ASSET_LOAD_FOUND, filesystem, c2, w1) \<Rightarrow>
               context_send_bytes E m cfg c2 w1 (sv ''200 OK'') (asset_type filesystem) (asset_data filesystem)
           | (ASSET_LOAD_ERROR, _, c2, w1) \<Rightarrow> Some (False, c2, w1)
           | (ASSET_LOAD_MISSING, _, c2, w1) \<Rightarrow>
               (case asset_bundle_find bundle normalized of
                  None \<Rightarrow> Some (False, c2, w1)
                | Some embedded \<Rightarrow>
                    context_send_bytes E m cfg c2 w1 (sv ''200 OK'') (embedded_type embedded) (embedded_data embedded))))"

end
