(* ===== verification/AssetLaws.thy ===== *)
theory AssetLaws
  imports Asset RouterLaws
begin

text \<open>
  What static files promise: a requested path is accepted exactly when its decoded form climbs nowhere,
  and the only file ever opened lies under the public directory after links are resolved.
\<close>

text \<open>Segments that name something below the directory they stand in.\<close>

definition segment_safe :: "char list \<Rightarrow> bool" where
  "segment_safe s \<longleftrightarrow> s \<noteq> [] \<and> s \<noteq> ''.'' \<and> s \<noteq> ''..''"

lemma segment_bad:
  assumes "drop start bytes = a @ r" "start \<le> length bytes"
  shows "(length a = 0 \<or> (length a = 1 \<and> bytes ! start = CHR ''.'') \<or>
      (length a = 2 \<and> bytes ! start = CHR ''.'' \<and> bytes ! (start + 1) = CHR ''.'')) \<longleftrightarrow> \<not> segment_safe a"
proof -
  have at: "bytes ! (start + k) = a ! k" if "k < length a" for k
  proof -
    have "bytes ! (start + k) = (a @ r) ! k" unfolding assms(1) [symmetric] using assms(2) by simp
    then show ?thesis using that by (simp add: nth_append)
  qed
  consider "a = []" | x where "a = [x]" | x y where "a = [x, y]" | "2 < length a"
    by (cases a rule: remdups_adj.cases) auto
  then show ?thesis
  proof cases
    case (2 x)
    then show ?thesis using at [of 0] by (simp add: segment_safe_def)
  next
    case (3 x y)
    then show ?thesis using at [of 0] at [of 1] by (simp add: segment_safe_def)
  next
    case 4
    then show ?thesis by (auto simp: segment_safe_def)
  qed (simp add: segment_safe_def)
qed

lemma segments_loop:
  assumes "drop start bytes = a @ drop index bytes" "CHR ''/'' \<notin> set a" "start + length a = index" "index \<le> length bytes"
  shows "asset_segments_loop bytes (length bytes) index start \<longleftrightarrow>
    (\<forall>s\<in>set (pieces_at (CHR ''/'') (drop start bytes)). segment_safe s)"
  using assms
proof (induction "length bytes - index" arbitrary: index start a rule: less_induct)
  case less
  have start: "start \<le> length bytes" "index - start = length a" "(index = start) = (length a = 0)"
    using less.prems by auto
  note bad = segment_bad [OF less.prems(1) start(1)]
  show ?case
  proof (cases "index = length bytes")
    case True
    have past: "asset_segments_loop bytes (length bytes) (Suc (length bytes)) (Suc (length bytes))"
      by (subst asset_segments_loop.simps) simp
    have "asset_segments_loop bytes (length bytes) index start \<longleftrightarrow> segment_safe a"
      using bad True start(2,3) past by (subst asset_segments_loop.simps) simp
    moreover have "pieces_at (CHR ''/'') (drop start bytes) = [a]"
      using pieces_last [OF less.prems(2)] less.prems(1) True by simp
    ultimately show ?thesis by simp
  next
    case False
    then have i: "index < length bytes" using less.prems by simp
    have at: "drop index bytes = bytes ! index # drop (Suc index) bytes" using i by (rule Cons_nth_drop_Suc [symmetric])
    show ?thesis
    proof (cases "bytes ! index = CHR ''/''")
      case slash: True
      have IH: "asset_segments_loop bytes (length bytes) (Suc index) (Suc index) \<longleftrightarrow>
          (\<forall>s\<in>set (pieces_at (CHR ''/'') (drop (Suc index) bytes)). segment_safe s)"
        using less.hyps [of "Suc index" "Suc index" "[]"] i by simp
      have "asset_segments_loop bytes (length bytes) index start \<longleftrightarrow>
          segment_safe a \<and> asset_segments_loop bytes (length bytes) (Suc index) (Suc index)"
        using bad i slash start(2,3) by (subst asset_segments_loop.simps) auto
      moreover have "pieces_at (CHR ''/'') (drop start bytes) = a # pieces_at (CHR ''/'') (drop (Suc index) bytes)"
        using pieces_first [OF less.prems(2)] less.prems(1) at slash by simp
      ultimately show ?thesis using IH by simp
    next
      case other: False
      have next_a: "drop start bytes = (a @ [bytes ! index]) @ drop (Suc index) bytes" using less.prems(1) at by simp
      have free: "CHR ''/'' \<notin> set (a @ [bytes ! index])" using less.prems(2) other by auto
      have "asset_segments_loop bytes (length bytes) index start = asset_segments_loop bytes (length bytes) (Suc index) start"
        using i other by (subst asset_segments_loop.simps) simp
      also have "\<dots> \<longleftrightarrow> (\<forall>s\<in>set (pieces_at (CHR ''/'') (drop start bytes)). segment_safe s)"
        by (rule less.hyps [OF _ next_a free]) (use i less.prems(3) in simp_all)
      finally show ?thesis .
    qed
  qed
qed

lemma decode_chars: "asset_decode s = Some d \<Longrightarrow> \<forall>c\<in>set d. asset_char_ok c"
proof (induction s arbitrary: d rule: length_induct)
  case (1 s)
  show ?case
  proof (cases s)
    case Nil
    then show ?thesis using 1 by simp
  next
    case s: (Cons c rest)
    show ?thesis
    proof (cases "c = CHR ''%''")
      case True
      then obtain h l rest' hi lo where r: "rest = h # l # rest'" "asset_hex_digit h = Some hi" "asset_hex_digit l = Some lo"
        using "1.prems" s by (simp split: list.splits option.splits)
      obtain e where e: "asset_decode rest' = Some e" "d = char_of (push_bit 4 hi OR lo) # e"
          "asset_char_ok (char_of (push_bit 4 hi OR lo))"
        using "1.prems" s True r by (simp add: Let_def split: if_splits) blast
      have "length rest' < length s" using s r by simp
      then have "\<forall>c\<in>set e. asset_char_ok c" using "1.IH" e(1) by blast
      then show ?thesis using e by simp
    next
      case False
      obtain e where e: "asset_decode rest = Some e" "d = c # e" "asset_char_ok c"
        using "1.prems" s False by (simp split: if_splits) blast
      have "length rest < length s" using s by simp
      then have "\<forall>c\<in>set e. asset_char_ok c" using "1.IH" e(1) by blast
      then show ?thesis using e by simp
    qed
  qed
qed

lemma decode_first: "asset_decode (CHR ''/'' # s) = Some d \<Longrightarrow> \<exists>t. d = CHR ''/'' # t"
  by (auto simp: Let_def split: if_splits)

definition path_safe :: "char list \<Rightarrow> bool" where
  "path_safe d \<longleftrightarrow> (\<exists>t. d = CHR ''/'' # t \<and> (\<forall>s\<in>set (pieces_at (CHR ''/'') t). segment_safe s)) \<and>
     (\<forall>c\<in>set d. asset_char_ok c)"

lemma normalize_spec:
  assumes "asset_normalize_path m c (View p) = (r, c')"
  shows "(\<exists>a. c' = c\<lparr>ctx_arena := a\<rparr>) \<and> (\<forall>v. r = Some v \<longrightarrow> (\<exists>d. v = View d \<and> asset_decode p = Some d \<and> path_safe d)) \<and>
    (r = None \<longrightarrow> (\<forall>d. asset_decode p = Some d \<longrightarrow> \<not> path_safe d) \<or> length p < 2 \<or> p ! 0 \<noteq> CHR ''/'' \<or>
       length p > SIZE_MAX - 1 \<or> no_room m c (length p + 1) 0)"
proof (cases "ctx_arena c")
  case None
  then have "r = None" "c' = c" using assms by (simp_all add: asset_normalize_path_def)
  moreover have "c = c\<lparr>ctx_arena := ctx_arena c\<rparr>" by simp
  ultimately have "r = None" "c' = c\<lparr>ctx_arena := ctx_arena c\<rparr>" by simp_all
  moreover have "no_room m c (length p + 1) 0" using None by (simp add: no_room_def)
  ultimately show ?thesis by blast
next
  case (Some A)
  have same: "\<exists>a. c = c\<lparr>ctx_arena := a\<rparr>" by (rule exI [of _ "ctx_arena c"]) simp
  show ?thesis
  proof (cases "length p < 2 \<or> p ! 0 \<noteq> CHR ''/'' \<or> length p > SIZE_MAX - 1")
    case True
    then have "r = None" "c' = c" using assms Some by (auto simp: asset_normalize_path_def)
    then show ?thesis using same True by blast
  next
    case False
    obtain x A1 where a: "arena_alloc m A (length p + 1) = (x, A1)" by fastforce
    obtain q where p: "p = CHR ''/'' # q" using False by (cases p) auto
    have res: "c' = c\<lparr>ctx_arena := Some A1\<rparr>" "r = (if x = None then None else case asset_decode p of None \<Rightarrow> None
        | Some bytes \<Rightarrow> if asset_segments_loop bytes (length bytes) 1 1 then Some (View bytes) else None)"
      using assms Some False a by (auto simp: asset_normalize_path_def split: option.splits)
    have safe: "asset_segments_loop d (length d) 1 1 \<longleftrightarrow> path_safe d" if d: "asset_decode p = Some d" for d
    proof -
      obtain t where t: "d = CHR ''/'' # t" using decode_first d p by blast
      have "asset_segments_loop d (length d) 1 1 \<longleftrightarrow> (\<forall>s\<in>set (pieces_at (CHR ''/'') (drop 1 d)). segment_safe s)"
        by (rule segments_loop [of _ _ "[]"]) (simp_all add: t)
      then show ?thesis using decode_chars [OF d] by (auto simp: path_safe_def t)
    qed
    have "no_room m c (length p + 1) 0" if "x = None"
      unfolding no_room_def using a that Some by (auto simp: allocs_def intro!: exI [of _ "[]"] exI [of _ "Suc (length p)"])
    then show ?thesis using res safe by (auto split: option.splits if_splits)
  qed
qed

section \<open>What is opened, and what is answered\<close>

lemma within_root: "asset_path_within_root root path \<longleftrightarrow> path = root \<or> (\<exists>r. path = root @ CHR ''/'' # r)"
proof
  assume h: "asset_path_within_root root path"
  then have t: "path = root @ drop (length root) path" unfolding asset_path_within_root_def by (metis append_take_drop_id)
  show "path = root \<or> (\<exists>r. path = root @ CHR ''/'' # r)"
  proof (cases "drop (length root) path")
    case Nil
    then show ?thesis using t by simp
  next
    case (Cons x r)
    then have "length root < length path" "path ! length root = x" by (metis drop_eq_Nil list.distinct(1) not_less, metis Cons t nth_append_length)
    then show ?thesis using h t Cons unfolding asset_path_within_root_def by auto
  qed
qed (auto simp: asset_path_within_root_def)

text \<open>
  \<open>public_file F w p file\<close>: with the file system as it stands in \<open>w\<close>, the request path \<open>p\<close> decodes to a path that
  climbs nowhere, and the real name of the file it names under \<open>public\<close> is \<open>file\<close>, which lies under the real name of \<open>public\<close>.
\<close>

definition public_file :: "'w files \<Rightarrow> 'w \<Rightarrow> char list \<Rightarrow> char list \<Rightarrow> bool" where
  "public_file F w p file \<longleftrightarrow>
     (\<exists>d cwd root. asset_decode p = Some d \<and> path_safe d \<and> fs_getcwd F w = Some cwd \<and>
        fst (fs_realpath F w (cwd @ ''/public'')) = Some root \<and> fst (fs_realpath F w (root @ d)) = Some file \<and>
        (file = root \<or> (\<exists>r. file = root @ CHR ''/'' # r)))"

definition file_read :: "'w files \<Rightarrow> 'w \<Rightarrow> nat \<Rightarrow> StringView \<Rightarrow> bool" where
  "file_read F w input v \<longleftrightarrow>
     (\<exists>size. fst (fs_size F w input) = Some size \<and> 0 \<le> size \<and> size \<le> CEASY_MAX_ASSET_BYTES \<and> int (sv_length v) = size \<and>
        (size > 0 \<longrightarrow> (\<exists>w2. v = View (fst (fs_read F w2 input (nat size))))))"

lemma read_file_found:
  assumes "asset_read_file F m c w path input = (ASSET_LOAD_FOUND, a, c', w')"
  shows "asset_type a = asset_content_type path \<and> file_read F w input (asset_data a)"
proof -
  obtain sz w1 where s: "fs_size F w input = (sz, w1)" by fastforce
  obtain size where sz: "sz = Some size" "0 \<le> size" "size \<le> CEASY_MAX_ASSET_BYTES"
    using assms s by (cases sz) (auto simp: asset_read_file_def Let_def split: if_splits)
  obtain ok w2 where r: "fs_rewind F w1 input = (ok, w2)" by fastforce
  have ok: "ok" using assms s sz r by (cases ok) (auto simp: asset_read_file_def Let_def)
  show ?thesis
  proof (cases "size > 0")
    case False
    then have "asset_type a = asset_content_type path" "asset_data a = sv_zero" "size = 0"
      using assms s sz r ok by (auto simp: asset_read_file_def Let_def split: prod.splits if_splits)
    then show ?thesis using s sz by (auto simp: file_read_def sv_zero_def)
  next
    case True
    obtain A where A: "ctx_arena c = Some A"
      using assms s sz r ok True by (cases "ctx_arena c") (auto simp: asset_read_file_def Let_def)
    obtain x A1 where a: "arena_alloc m A (nat size) = (x, A1)" by fastforce
    have x: "x \<noteq> None" using assms s sz r ok True A a by (cases x) (auto simp: asset_read_file_def Let_def)
    obtain bytes w3 where b: "fs_read F w2 input (nat size) = (bytes, w3)" by fastforce
    have "asset_type a = asset_content_type path \<and> asset_data a = View bytes \<and> length bytes = nat size"
      using assms s sz r ok True A a x b
      by (auto simp: asset_read_file_def Let_def split: prod.splits if_splits)
    moreover have "View bytes = View (fst (fs_read F w2 input (nat size)))" using b by simp
    ultimately show ?thesis using s sz True unfolding file_read_def by (auto intro!: exI [of _ size])
  qed
qed

lemma load_normalized:
  assumes "asset_load_filesystem_normalized F m c w (View d) = (res, a, c', w')"
  shows "w' = w \<and> res \<noteq> ASSET_LOAD_FOUND \<or>
    (\<exists>cwd root file. fs_getcwd F w = Some cwd \<and> fst (fs_realpath F w (cwd @ ''/public'')) = Some root \<and>
       fst (fs_realpath F w (root @ d)) = Some file \<and> asset_path_within_root root file \<and>
       (case fs_open F w file of
          (None, _, w1) \<Rightarrow> res \<noteq> ASSET_LOAD_FOUND \<and> w' = w1
        | (Some input, _, w1) \<Rightarrow> asset_read_file F m c w1 (View d) input = (res, a, c', w')))"
proof (cases "ctx_arena c = None \<or> fs_getcwd F w = None \<or> length d < 2")
  case True
  then show ?thesis using assms
    by (auto simp: asset_load_filesystem_normalized_def Let_def split: option.splits if_splits prod.splits)
next
  case False
  then obtain A cwd where A: "ctx_arena c = Some A" and cwd: "fs_getcwd F w = Some cwd" and d: "\<not> length d < 2" by auto
  note load = assms [unfolded asset_load_filesystem_normalized_def A cwd Let_def option.case prod.case]
  show ?thesis
  proof (cases "length (cwd @ ''/public'') \<ge> PATH_MAX")
    case True
    then show ?thesis using load by auto
  next
    case short: False
    obtain r1 b1 where r1: "fs_realpath F w (cwd @ ''/public'') = (r1, b1)" by fastforce
    show ?thesis
    proof (cases r1)
      case None
      then show ?thesis using load d short r1 by (auto simp: not_found_def)
    next
      case root: (Some root)
      obtain r2 b2 where r2: "fs_realpath F w (root @ d) = (r2, b2)" by fastforce
      show ?thesis
      proof (cases "length (root @ d) \<ge> PATH_MAX \<or> r2 = None \<or> \<not> asset_path_within_root root (the r2)")
        case True
        then show ?thesis using load d short r1 root r2 by (cases r2) (auto simp: not_found_def split: if_splits)
      next
        case False
        then obtain target where target: "r2 = Some target" "asset_path_within_root root target" "\<not> length (root @ d) \<ge> PATH_MAX" by auto
        obtain o1 b3 w1 where op: "fs_open F w target = (o1, b3, w1)" by (metis prod_cases3)
        have "case fs_open F w target of (None, _, w1) \<Rightarrow> res \<noteq> ASSET_LOAD_FOUND \<and> w' = w1
            | (Some input, _, w1) \<Rightarrow> asset_read_file F m c w1 (View d) input = (res, a, c', w')"
          using load d short r1 root r2 target op by (cases o1) (auto simp: not_found_def split: if_splits)
        then show ?thesis using r1 root r2 target cwd by fastforce
      qed
    qed
  qed
qed

text \<open>C38: Static files. Whatever a loaded path is, the world outside is left alone unless the path decodes to
  one without empty, \<open>.\<close> or \<open>..\<close> segments, NUL, backslash or colon, and the file it names under \<open>public\<close> still lies
  there after links are resolved. A file that is found was opened under that real name; its size is at most
  32 MiB, exactly its bytes are served, with the content type of the decoded path.\<close>

theorem asset_load_filesystem_safe:
  assumes "asset_load_filesystem F m c w (View p) = (res, a, c', w')"
  shows "((\<nexists>file. public_file F w p file) \<longrightarrow> w' = w \<and> res \<noteq> ASSET_LOAD_FOUND) \<and>
    (res = ASSET_LOAD_FOUND \<longrightarrow>
      (\<exists>file input b w1 d. public_file F w p file \<and> fs_open F w file = (Some input, b, w1) \<and>
         asset_decode p = Some d \<and> asset_type a = asset_content_type (View d) \<and> file_read F w1 input (asset_data a)))"
proof -
  obtain r c1 where n: "asset_normalize_path m c (View p) = (r, c1)" by fastforce
  show ?thesis
  proof (cases r)
    case None
    then have "res = ASSET_LOAD_ERROR" "w' = w" using assms n by (auto simp: asset_load_filesystem_def)
    then show ?thesis by simp
  next
    case (Some v)
    then obtain d where d: "v = View d" "asset_decode p = Some d" "path_safe d"
      using normalize_spec [OF n] by blast
    have "asset_load_filesystem_normalized F m c1 w (View d) = (res, a, c', w')"
      using assms n Some d by (simp add: asset_load_filesystem_def)
    from load_normalized [OF this] show ?thesis
    proof (elim disjE exE conjE, goal_cases)
      case 1
      then show ?case by simp
    next
      case (2 cwd root target)
      have pub: "public_file F w p target" unfolding public_file_def within_root [symmetric]
        using d 2(1-4) by (intro exI [of _ d] exI [of _ cwd] exI [of _ root]) simp
      obtain o1 b w1 where op: "fs_open F w target = (o1, b, w1)" by (metis prod_cases3)
      have found: "\<exists>input. o1 = Some input \<and> asset_type a = asset_content_type (View d) \<and> file_read F w1 input (asset_data a)"
        if "res = ASSET_LOAD_FOUND"
        using 2(5) op that read_file_found [of F m c1 w1 "View d" _ a c' w'] by (cases o1) auto
      show ?case
      proof (intro conjI impI)
        assume "res = ASSET_LOAD_FOUND"
        then show "\<exists>file input b w1 d. public_file F w p file \<and> fs_open F w file = (Some input, b, w1) \<and>
            asset_decode p = Some d \<and> asset_type a = asset_content_type (View d) \<and> file_read F w1 input (asset_data a)"
          using found pub op d(2) by blast
      qed (use pub in blast)+
    qed
  qed
qed

definition demo_files :: "unit files" where
  "demo_files = \<lparr>fs_getcwd = (\<lambda>w. Some ''/a''), fs_realpath = (\<lambda>w p. (Some p, False)),
     fs_open = (\<lambda>w p. (Some 5, False, w)), fs_size = (\<lambda>w i. (Some 2, w)), fs_rewind = (\<lambda>w i. (True, w)),
     fs_read = (\<lambda>w i n. (''hi'', w)), fs_close = (\<lambda>w i. (True, w))\<rparr>"

theorem asset_load_filesystem_safe_witness:
  "\<exists>a c' file. asset_load_filesystem demo_files demo_malloc demo_context () (View ''/x%2ejs'') =
       (ASSET_LOAD_FOUND, a, c', ()) \<and> public_file demo_files () ''/x%2ejs'' file \<and>
     asset_type a = asset_content_type (View ''/x.js'')"
proof -
  have decode: "asset_decode ''/x%2ejs'' = Some ''/x.js''"
    by code_simp
  have loop: "asset_segments_loop ''/x.js'' (length ''/x.js'') 1 1"
    by (simp add: asset_segments_loop.simps)
  have arena: "ctx_arena demo_context = Some demo_arena" by (simp add: demo_context_def)
  have normalize: "asset_normalize_path demo_malloc demo_context (View ''/x%2ejs'') =
      (Some (View ''/x.js''), demo_context\<lparr>ctx_arena := Some (snd (arena_alloc demo_malloc demo_arena 8))\<rparr>)"
    using arena decode loop by (simp add: asset_normalize_path_def arena_eval demo_arena_def arena_init_def arena_zero_def demo_malloc_def)
  obtain A1 where A1: "arena_alloc demo_malloc (snd (arena_alloc demo_malloc demo_arena 8)) 2 = (Some (1, 16), A1)"
    by (simp add: arena_eval demo_arena_def arena_init_def arena_zero_def demo_malloc_def)
  have "\<exists>a c'. asset_load_filesystem demo_files demo_malloc demo_context () (View ''/x%2ejs'') = (ASSET_LOAD_FOUND, a, c', ())"
    using A1 by (simp add: asset_load_filesystem_def normalize asset_load_filesystem_normalized_def demo_files_def
        PATH_MAX_def asset_path_within_root_def asset_read_file_def CEASY_MAX_ASSET_BYTES_def Let_def)
  then obtain a c' where found: "asset_load_filesystem demo_files demo_malloc demo_context () (View ''/x%2ejs'') =
      (ASSET_LOAD_FOUND, a, c', ())" by blast
  from asset_load_filesystem_safe [OF this] found show ?thesis using decode by auto
qed

end
