(* ===== verification/Server.thy ===== *)
theory Server
  imports Asset Router
begin

text \<open>
  The handling of one client connection (\<open>ceasy_handle_client\<close> in \<open>src/src/ceasy.c\<close>) and the default
  route. The client's process serves one request and exits, so the function's context, arena and database are
  the whole state. The result is the context as it is left and the outside; both are there for the theorems,
  the code returns nothing. The line written to the log is left out. The arena given back at the end, like the
  context, is no part of the result.
\<close>

section \<open>Pieces of the handler\<close>

definition newline :: string where "newline = [CHR 0x0A]"

definition hex_byte :: "char \<Rightarrow> string" where
  "hex_byte c = map (\<lambda>d. ''0123456789abcdef'' ! d) [byte c div 16, byte c mod 16]"

text \<open>The identifier of the request, when the random source is ready.\<close>

definition ceasy_request_id :: "'w env \<Rightarrow> malloc_fn \<Rightarrow> Context \<Rightarrow> 'w \<Rightarrow> Context \<times> 'w" where
  "ceasy_request_id E m c w =
     (case (sodium_init E w, ctx_arena c) of
        ((True, w1), Some A) \<Rightarrow>
          (let (bytes, w2) = randombytes_buf E w1 8;
               (copy, A1) = string_from (arena_allocator m) A (View (concat (map hex_byte bytes)))
           in (c\<lparr>ctx_arena := Some A1, request_id := string_as_view copy\<rparr>, w2))
      | ((_, w1), _) \<Rightarrow> (c, w1))"

text \<open>\<open>database_close\<close>, when it was opened, and \<open>close\<close>.\<close>

definition ceasy_end_client :: "'w env \<Rightarrow> int \<Rightarrow> Context \<Rightarrow> 'w \<Rightarrow> Context \<times> 'w" where
  "ceasy_end_client E fd c w =
     (case ctx_database c of
        None \<Rightarrow> (c, sock_close E w fd)
      | Some db \<Rightarrow>
          (case database_close E w db of
             (_, db1, w1) \<Rightarrow> (c\<lparr>ctx_database := Some db1\<rparr>, sock_close E w1 fd)))"

definition ceasy_fail ::
    "'w env \<Rightarrow> malloc_fn \<Rightarrow> CeasyConfig \<Rightarrow> int \<Rightarrow> Context \<Rightarrow> 'w \<Rightarrow> string \<Rightarrow> string \<Rightarrow> (Context \<times> 'w) option" where
  "ceasy_fail E m cfg fd c w status message =
     map_option (\<lambda>(_, c1, w1). ceasy_end_client E fd c1 w1)
       (context_send_text E m cfg c w (sv status) (sv (message @ newline)))"

definition ceasy_unsafe_method :: "HttpMethod \<Rightarrow> bool" where
  "ceasy_unsafe_method meth \<longleftrightarrow>
     meth = HTTP_METHOD_POST \<or> meth = HTTP_METHOD_PATCH \<or> meth = HTTP_METHOD_PUT \<or> meth = HTTP_METHOD_DELETE"

definition ceasy_form_request :: "Request \<Rightarrow> bool" where
  "ceasy_form_request r \<longleftrightarrow>
     ceasy_unsafe_method (req_method r) \<and>
     sv_length (req_content_type r) \<ge> length form_content_type \<and>
     stringv_equal_ignore_case (stringv_slice (req_content_type r) 0 (length form_content_type)) (sv form_content_type)"

definition ceasy_override_method :: "StringView \<Rightarrow> Context \<Rightarrow> Context" where
  "ceasy_override_method override c =
     (if stringv_equal_ignore_case override (sv ''PATCH'')
      then c\<lparr>ctx_request := (ctx_request c)\<lparr>req_method := HTTP_METHOD_PATCH\<rparr>\<rparr>
      else if stringv_equal_ignore_case override (sv ''DELETE'')
      then c\<lparr>ctx_request := (ctx_request c)\<lparr>req_method := HTTP_METHOD_DELETE\<rparr>\<rparr>
      else c)"

section \<open>Dispatch\<close>

text \<open>From the copy of the path to the end: the route's handler, a static file, or the answers 404, 405 and 204.\<close>

definition ceasy_route ::
    "'w env \<Rightarrow> 'w files \<Rightarrow> AssetBundle \<Rightarrow> malloc_fn \<Rightarrow> CeasyConfig \<Rightarrow> 'w Router \<Rightarrow> int \<Rightarrow> Context \<Rightarrow> 'w \<Rightarrow>
     (Context \<times> 'w) option" where
  "ceasy_route E F bundle m cfg router fd c w =
     (case ctx_arena c of
        None \<Rightarrow> None
      | Some A \<Rightarrow>
          (let (path, A1) = string_from (arena_allocator m) A (req_path (ctx_request c)); c1 = c\<lparr>ctx_arena := Some A1\<rparr>
           in case string_data path of
                None \<Rightarrow> ceasy_fail E m cfg fd c1 w ''500 Internal Server Error'' ''could not prepare path''
              | Some buffer \<Rightarrow>
                  (case router_dispatch router (Some (ceasy_method_name (req_method (ctx_request c1))))
                          (Some (c_string buffer)) c1 w of
                     None \<Rightarrow> None
                   | Some (ROUTER_NOT_FOUND, c2, w2) \<Rightarrow>
                       if req_method (ctx_request c2) = HTTP_METHOD_GET then
                         (case asset_serve E F bundle m cfg c2 w2 (req_path (ctx_request c2)) of
                            None \<Rightarrow> None
                          | Some (True, c3, w3) \<Rightarrow> Some (ceasy_end_client E fd c3 w3)
                          | Some (False, c3, w3) \<Rightarrow> ceasy_fail E m cfg fd c3 w3 ''404 Not Found'' ''not found'')
                       else Some (ceasy_end_client E fd c2 w2)
                   | Some (ROUTER_METHOD_NOT_ALLOWED, c2, w2) \<Rightarrow>
                       ceasy_fail E m cfg fd c2 w2 ''405 Method Not Allowed'' ''method not allowed''
                   | Some (ROUTER_DISPATCHED, c2, w2) \<Rightarrow>
                       if \<not> response_sent c2 then
                         map_option (\<lambda>(_, c3, w3). ceasy_end_client E fd c3 w3)
                           (context_send_text E m cfg c2 w2 (sv ''204 No Content'') sv_zero)
                       else Some (ceasy_end_client E fd c2 w2))))"

section \<open>Forms\<close>

text \<open>The check of a form request: its parameters, the overridden method, the CSRF token.\<close>

definition ceasy_respond ::
    "'w env \<Rightarrow> 'w files \<Rightarrow> AssetBundle \<Rightarrow> malloc_fn \<Rightarrow> CeasyConfig \<Rightarrow> 'w Router \<Rightarrow> int \<Rightarrow> Context \<Rightarrow> 'w \<Rightarrow>
     (Context \<times> 'w) option" where
  "ceasy_respond E F bundle m cfg router fd c w =
     (if \<not> ceasy_form_request (ctx_request c) then ceasy_route E F bundle m cfg router fd c w
      else case context_parse_form m c of
        (False, c1) \<Rightarrow> ceasy_fail E m cfg fd c1 w ''400 Bad Request'' ''malformed form''
      | (True, c1) \<Rightarrow>
          (let (override, c2) = context_form m c1 (sv ''_method''); c3 = ceasy_override_method override c2
           in if \<not> ceasy_unsafe_method (req_method (ctx_request c3)) then ceasy_route E F bundle m cfg router fd c3 w
              else
                (let (token, c4) = context_form m c3 (sv ''_csrf'')
                 in case csrf_verify E m cfg c4 w token of
                      None \<Rightarrow> None
                    | Some (True, c5, w5) \<Rightarrow> ceasy_route E F bundle m cfg router fd c5 w5
                    | Some (False, c5, w5) \<Rightarrow> ceasy_fail E m cfg fd c5 w5 ''403 Forbidden'' ''forbidden'')))"

section \<open>A connection\<close>

text \<open>The copy of the database's path, the request's identifier, and the database, in this order.\<close>

definition ceasy_open_client ::
    "'w env \<Rightarrow> malloc_fn \<Rightarrow> CeasyConfig \<Rightarrow> Context \<Rightarrow> Arena \<Rightarrow> 'w \<Rightarrow> bool \<times> Context \<times> 'w" where
  "ceasy_open_client E m cfg c A w =
     (let (database_path, A1) = string_from (arena_allocator m) A (ceasy_database_path cfg);
          (c1, w1) = ceasy_request_id E m (c\<lparr>ctx_arena := Some A1\<rparr>) w
      in case string_data database_path of
           None \<Rightarrow> (False, c1, w1)
         | Some buffer \<Rightarrow>
             (case database_open E w1 (c_string buffer) of
                (False, _, w2) \<Rightarrow> (False, c1, w2)
              | (True, db, w2) \<Rightarrow> (True, c1\<lparr>ctx_database := Some db\<rparr>, w2)))"

definition ceasy_handle_client ::
    "'w env \<Rightarrow> 'w files \<Rightarrow> AssetBundle \<Rightarrow> malloc_fn \<Rightarrow> CeasyConfig \<Rightarrow> 'w Router \<Rightarrow> int \<Rightarrow> 'w \<Rightarrow> (Context \<times> 'w) option" where
  "ceasy_handle_client E F bundle m cfg router fd w =
     (let c0 = context_zero\<lparr>client_fd := fd\<rparr>
      in case arena_init arena_zero (64 * 1024) of
           (False, _) \<Rightarrow> Some (c0, sock_close E w fd)
         | (True, A) \<Rightarrow>
             (case ceasy_open_client E m cfg c0 A w of
                (False, c1, w1) \<Rightarrow> ceasy_fail E m cfg fd c1 w1 ''500 Internal Server Error'' ''database error''
              | (True, c1, w1) \<Rightarrow>
                  (let (parsed, c2, w2) = ceasy_read_request E m c1 w1
                   in if parsed \<noteq> REQUEST_PARSE_OK then
                        (if parsed = REQUEST_PARSE_PAYLOAD_TOO_LARGE
                         then ceasy_fail E m cfg fd c2 w2 ''413 Payload Too Large'' ''payload too large''
                         else ceasy_fail E m cfg fd c2 w2 ''400 Bad Request'' ''malformed request'')
                      else ceasy_respond E F bundle m cfg router fd c2 w2)))"

definition ceasy_home :: "'w env \<Rightarrow> malloc_fn \<Rightarrow> CeasyConfig \<Rightarrow> 'w RouteHandler" where
  "ceasy_home E m cfg c w =
     map_option (\<lambda>(_, c1, w1). (c1, w1)) (context_send_text E m cfg c w (sv ''200 OK'') (sv (''Ceasy'' @ newline)))"

text \<open>The weak default of \<open>routes\<close>, which an application replaces.\<close>

definition default_routes :: "'w env \<Rightarrow> malloc_fn \<Rightarrow> CeasyConfig \<Rightarrow> 'w Router \<Rightarrow> 'w Router" where
  "default_routes E m cfg router = snd (router_route_get router (Some ''/'') (Some (ceasy_home E m cfg)))"

end
