(* ===== verification/ServerLaws.thy ===== *)
theory ServerLaws
  imports Server ResponseLaws AssetLaws RequestLaws
begin

text \<open>
  What a connection guarantees whatever the routes of the application do: no route is reached by a form
  request without the session's CSRF token, and who is answered what.
\<close>

section \<open>From the connection to the request\<close>

lemma arena_init_good: "arena_init arena_zero n = (True, A) \<Longrightarrow> arena_inv A"
  by (auto simp: arena_init_def arena_inv_def arena_zero_def chain_totals_def current_ok_def split: if_splits)

lemma slice_views: "\<exists>q. views (stringv_slice (View raw) a n) q"
  by (auto simp: stringv_slice_def views_def stringv_valid_def view_basic sv_zero_def split: StringView.splits)

lemma parse_ok_body: "request_parse r (View raw) = (REQUEST_PARSE_OK, r') \<Longrightarrow> \<exists>q. views (req_body r') q"
  using slice_views by (fastforce simp: request_parse_def Let_def split: option.splits prod.splits if_splits)

lemma read_loop_body:
  "read_request_loop E fd capacity received r w = (REQUEST_PARSE_OK, r', w') \<Longrightarrow> \<exists>q. views (req_body r') q"
proof (induction E fd capacity received r w rule: read_request_loop.induct)
  case (1 E fd capacity received r w)
  have more: "length received < capacity" using "1.prems" by (subst (asm) read_request_loop.simps) (auto split: if_splits)
  obtain got w1 where s: "sock_recv E w fd (capacity - length received) = (got, w1)" by fastforce
  obtain bytes where got: "got = Some bytes" using "1.prems" more s by (subst (asm) read_request_loop.simps) (auto split: option.splits)
  define b where "b = take (capacity - length received) bytes"
  have b: "b \<noteq> []" using "1.prems" more s got by (subst (asm) read_request_loop.simps) (auto simp: b_def Let_def split: if_splits)
  obtain p r1 where p: "request_parse r (View (received @ b)) = (p, r1)" by fastforce
  show ?case
  proof (cases "p = REQUEST_PARSE_INCOMPLETE")
    case False
    then have "p = REQUEST_PARSE_OK" "r' = r1" using "1.prems" more s got b p
      by (subst (asm) read_request_loop.simps, auto simp: b_def Let_def split: if_splits)+
    then show ?thesis using parse_ok_body p by blast
  next
    case True
    then have "read_request_loop E fd capacity (received @ b) r1 w1 = (REQUEST_PARSE_OK, r', w')"
      using "1.prems" more s got b p by (subst (asm) read_request_loop.simps) (auto simp: b_def Let_def split: if_splits)
    then show ?thesis using "1.IH" more s got b p True by (simp add: b_def)
  qed
qed

text \<open>A context as it is before anything of the request but its head and body has been looked at.\<close>

definition fresh_context :: "malloc_fn \<Rightarrow> Context \<Rightarrow> bool" where
  "fresh_context m c \<longleftrightarrow> arena_good m c \<and> ctx_arena c \<noteq> None \<and> ctx_session c = session_zero \<and>
     \<not> forms_parsed c \<and> form_params c = []"

lemma fresh_context_wf: "fresh_context m c \<Longrightarrow> session_wf c"
  by (simp add: fresh_context_def session_wf_def session_zero_def)

lemma request_id_fresh:
  assumes "fresh_context m c" "ceasy_request_id E m c w = (c', w')"
  shows "fresh_context m c'"
proof -
  obtain A where A: "ctx_arena c = Some A" "malloc_spec m" "arena_inv A"
    using assms(1) by (auto simp: fresh_context_def arena_good_def)
  obtain ready w1 where r: "sodium_init E w = (ready, w1)" by fastforce
  show ?thesis
  proof (cases ready)
    case False
    then show ?thesis using assms r A by (simp add: ceasy_request_id_def)
  next
    case True
    obtain bytes w2 where b: "randombytes_buf E w1 8 = (bytes, w2)" by fastforce
    obtain s A1 where s: "string_from (arena_allocator m) A (View (concat (map hex_byte bytes))) = (s, A1)" by fastforce
    have "arena_inv A1" using arena_copy(1) [OF A(2,3) s] .
    then show ?thesis using assms r A True b s by (auto simp: ceasy_request_id_def fresh_context_def arena_good_def Let_def)
  qed
qed

lemma read_request_fresh:
  assumes "fresh_context m c" "ceasy_read_request E m c w = (parsed, c', w')"
  shows "fresh_context m c'" and "parsed = REQUEST_PARSE_OK \<Longrightarrow> \<exists>q. views (req_body (ctx_request c')) q"
proof -
  obtain A where A: "ctx_arena c = Some A" "malloc_spec m" "arena_inv A"
    using assms(1) by (auto simp: fresh_context_def arena_good_def)
  let ?n = "CEASY_MAX_HEADER_BYTES + CEASY_MAX_REQUEST_BODY"
  obtain x A1 where a: "arena_alloc m A ?n = (x, A1)" by fastforce
  have A1: "arena_inv A1" using arena_alloc_inv(1) [OF A(3,2) a] .
  obtain result request w1 where l: "read_request_loop E (client_fd c) ?n [] (ctx_request c) w = (result, request, w1)"
    by (metis prod_cases3)
  have "(parsed, c', w') = (if x = None then (REQUEST_PARSE_BAD_REQUEST, c\<lparr>ctx_arena := Some A1\<rparr>, w)
     else (result, c\<lparr>ctx_arena := Some A1, ctx_request := request\<rparr>, w1))"
    unfolding assms(2) [symmetric] ceasy_read_request_def Let_def A(1) option.case a prod.case l by (cases x) simp_all
  then show "fresh_context m c'" and "parsed = REQUEST_PARSE_OK \<Longrightarrow> \<exists>q. views (req_body (ctx_request c')) q"
    using assms(1) A1 A(2) read_loop_body l
    by (auto simp: fresh_context_def arena_good_def split: if_splits)
qed

section \<open>The check of forms\<close>

lemma parse_form_frame:
  assumes "fresh_context m c" "views (req_body (ctx_request c)) q" "context_parse_form m c = (ok, c')"
  shows "ctx_session c' = ctx_session c" "ctx_request c' = ctx_request c" "ctx_arena c' \<noteq> None"
proof -
  let ?c1 = "c\<lparr>forms_parsed := True, form_parse_ok := True\<rparr>"
  obtain fin ps c2 where loop: "context_params_loop m CEASY_MAX_FORM_PARAMS ?c1 [] (req_body (ctx_request c)) = (fin, ps, c2)"
    by (metis prod_cases3)
  have "same_but_arena ?c1 c2"
    using params_loop_spec [OF _ _ loop, of q] assms(1,2) by (simp add: fresh_context_def arena_good_def)
  then obtain a where a: "c2 = ?c1\<lparr>ctx_arena := a\<rparr>" and arena: "ctx_arena c2 \<noteq> None"
    using assms(1) by (auto simp: same_but_arena_def fresh_context_def)
  have "a \<noteq> None" using arena by (simp add: a)
  then show "ctx_session c' = ctx_session c" "ctx_request c' = ctx_request c" "ctx_arena c' \<noteq> None"
    using assms(1,3) loop by (auto simp: context_parse_form_def fresh_context_def Let_def a split: if_splits)
qed

lemma lookup_valid: "\<forall>p\<in>set ps. nv_valid p \<Longrightarrow> stringv_valid (lookup_view ps name)"
  by (induction ps) (auto simp: lookup_view_def nv_valid_def view_basic)

lemma form_again: "forms_parsed c \<Longrightarrow> form_parse_ok c \<Longrightarrow> context_form m c name = (lookup_view (form_params c) name, c)"
  by (simp add: context_form_def context_parse_form_def)

text \<open>The body carries, as its form parameter \<open>_csrf\<close>, the token of the session.\<close>

definition csrf_proven :: "char list \<Rightarrow> Context \<Rightarrow> bool" where
  "csrf_proven body c \<longleftrightarrow>
     (\<exists>ps v. map url_pair (tokens (CHR ''&'') body) = map Some ps \<and> lookup_bytes ps ''_csrf'' \<noteq> [] \<and>
        sm_get_string (session_values (ctx_session c)) (sv CSRF_KEY) = Some v \<and> sv_bytes v = lookup_bytes ps ''_csrf'')"

text \<open>The answers of a connection that no route is asked for.\<close>

definition refusals :: "(string \<times> string) list" where
  "refusals =
     [(''500 Internal Server Error'', ''database error''), (''413 Payload Too Large'', ''payload too large''),
      (''400 Bad Request'', ''malformed request''), (''400 Bad Request'', ''malformed form''), (''403 Forbidden'', ''forbidden'')]"

definition refused :: "'w env \<Rightarrow> malloc_fn \<Rightarrow> CeasyConfig \<Rightarrow> int \<Rightarrow> Context \<times> 'w \<Rightarrow> bool" where
  "refused E m cfg fd r \<longleftrightarrow> (\<exists>c w status message. (status, message) \<in> set refusals \<and>
     ceasy_fail E m cfg fd c w status message = Some r)"

lemma refusedI: "ceasy_fail E m cfg fd c w status message = Some r \<Longrightarrow> (status, message) \<in> set refusals \<Longrightarrow> refused E m cfg fd r"
  by (auto simp: refused_def)

lemma respond_cases:
  assumes fresh: "fresh_context m c" and body: "views (req_body (ctx_request c)) q"
    and cmp: "\<forall>a b. sodium_memcmp E a b \<longleftrightarrow> a = b"
    and call: "ceasy_respond E F bundle m cfg router fd c w = Some r"
  shows "refused E m cfg fd r \<and> (\<forall>router'. ceasy_respond E F bundle m cfg router' fd c w = Some r) \<or>
    (\<exists>c1 w1. ceasy_route E F bundle m cfg router fd c1 w1 = Some r \<and> (ceasy_form_request (ctx_request c) \<longrightarrow> csrf_proven q c1))"
proof (cases "ceasy_form_request (ctx_request c)")
  case False
  then show ?thesis using call unfolding ceasy_respond_def by auto
next
  case True
  obtain ok c1 where p: "context_parse_form m c = (ok, c1)" by fastforce
  show ?thesis
  proof (cases ok)
    case False
    then have "ceasy_respond E F bundle m cfg router' fd c w =
        ceasy_fail E m cfg fd c1 w ''400 Bad Request'' ''malformed form''" for router'
      using True p by (simp add: ceasy_respond_def)
    then show ?thesis using call refusedI [of E m cfg fd c1 w] by (simp add: refusals_def)
  next
    case ok: True
    have ct: "context_is_form_content_type (req_content_type (ctx_request c))"
      using True by (simp add: ceasy_form_request_def context_is_form_content_type_def)
    have f: "arena_good m c" "\<not> forms_parsed c" "form_params c = []" using fresh by (simp_all add: fresh_context_def)
    note P = parse_form_spec [OF f ct body p]
    note fr = parse_form_frame [OF fresh body p]
    define c3 where "c3 = ceasy_override_method (lookup_view (form_params c1) (sv ''_method'')) c1"
    have c3: "forms_parsed c3" "form_parse_ok c3" "form_params c3 = form_params c1" "ctx_session c3 = ctx_session c1"
        "ctx_arena c3 = ctx_arena c1" "ceasy_unsafe_method (req_method (ctx_request c3))"
      using P ok True fr(2) by (auto simp: c3_def ceasy_override_method_def ceasy_form_request_def ceasy_unsafe_method_def)
    let ?token = "lookup_view (form_params c1) (sv ''_csrf'')"
    obtain good c5 w5 where v: "csrf_verify E m cfg c3 w ?token = None \<or> csrf_verify E m cfg c3 w ?token = Some (good, c5, w5)"
      by (cases "csrf_verify E m cfg c3 w ?token") auto
    have step: "ceasy_respond E F bundle m cfg router' fd c w = (case csrf_verify E m cfg c3 w ?token of
          None \<Rightarrow> None
        | Some (True, c5, w5) \<Rightarrow> ceasy_route E F bundle m cfg router' fd c5 w5
        | Some (False, c5, w5) \<Rightarrow> ceasy_fail E m cfg fd c5 w5 ''403 Forbidden'' ''forbidden'')" for router'
      using True p ok P c3 by (simp add: ceasy_respond_def form_again c3_def [symmetric])
    show ?thesis
    proof (cases "good \<and> csrf_verify E m cfg c3 w ?token = Some (good, c5, w5)")
      case False
      then have "csrf_verify E m cfg c3 w ?token = Some (False, c5, w5)" using v call unfolding step by auto
      then have "ceasy_respond E F bundle m cfg router' fd c w =
          ceasy_fail E m cfg fd c5 w5 ''403 Forbidden'' ''forbidden''" for router'
        unfolding step by simp
      then show ?thesis using call refusedI [of E m cfg fd c5 w5] by (simp add: refusals_def)
    next
      case accepted: True
      have wf: "session_wf c3" using fresh fr c3 by (simp add: fresh_context_def session_wf_def session_zero_def)
      have ver: "csrf_verify E m cfg c3 w ?token = Some (True, c5, w5)" using accepted by simp
      note V = verify_true [OF wf cmp ver]
      have token: "sv_bytes ?token = lookup_bytes (map nv_bytes (form_params c1)) ''_csrf''"
        using P by (simp add: lookup_view_bytes sv_def)
      have "sv_bytes ?token \<noteq> []"
        using lookup_valid [of "form_params c1" "sv ''_csrf''"] P V
        by (cases "lookup_view (form_params c1) (sv ''_csrf'')") (auto simp: view_basic)
      then have "csrf_proven q c5" unfolding csrf_proven_def using V token P ok by (metis (no_types, lifting))
      then show ?thesis using call ver unfolding step by auto
    qed
  qed
qed

lemma respond_returns:
  assumes "fresh_context m c" "views (req_body (ctx_request c)) q"
    and "\<And>c w. ctx_arena c \<noteq> None \<Longrightarrow> ceasy_route E F bundle m cfg router fd c w \<noteq> None"
    and "\<And>c w status message. ceasy_fail E m cfg fd c w status message \<noteq> None"
  shows "ceasy_respond E F bundle m cfg router fd c w \<noteq> None"
proof (cases "ceasy_form_request (ctx_request c)")
  case False
  then show ?thesis using assms(1,3) by (simp add: ceasy_respond_def fresh_context_def)
next
  case True
  obtain ok c1 where p: "context_parse_form m c = (ok, c1)" by fastforce
  show ?thesis
  proof (cases ok)
    case False
    then show ?thesis using assms(4) True p by (simp add: ceasy_respond_def)
  next
    case ok: True
    have ct: "context_is_form_content_type (req_content_type (ctx_request c))"
      using True by (simp add: ceasy_form_request_def context_is_form_content_type_def)
    have f: "arena_good m c" "\<not> forms_parsed c" "form_params c = []" using assms(1) by (simp_all add: fresh_context_def)
    note P = parse_form_spec [OF f ct assms(2) p] and fr = parse_form_frame [OF assms(1,2) p]
    define c3 where "c3 = ceasy_override_method (lookup_view (form_params c1) (sv ''_method'')) c1"
    have c3: "forms_parsed c3" "form_parse_ok c3" "ctx_session c3 = ctx_session c1" "ctx_arena c3 = ctx_arena c1"
      using P ok by (auto simp: c3_def ceasy_override_method_def)
    have wf: "session_wf c3" using assms(1) fr c3 by (simp add: fresh_context_def session_wf_def session_zero_def)
    obtain good c5 w5 where v: "csrf_verify E m cfg c3 w (lookup_view (form_params c3) (sv ''_csrf'')) = Some (good, c5, w5)"
        "session_wf c5"
      using verify_returns [OF wf] by (rule returns_wf_cases)
    show ?thesis using True p ok P c3 v wf assms(3,4) fr
      by (cases good) (simp_all add: ceasy_respond_def form_again c3_def [symmetric] session_wf_def)
  qed
qed

section \<open>Every connection ends\<close>

lemma fail_returns: "interruptions_end E \<Longrightarrow> ceasy_fail E m cfg fd c w status message \<noteq> None"
  using send_bytes_returns [of E m cfg c w] by (fastforce simp: ceasy_fail_def context_send_text_def)

lemma serve_returns: "interruptions_end E \<Longrightarrow> asset_serve E F bundle m cfg c w path \<noteq> None"
  using send_bytes_returns [of E m cfg] by (fastforce simp: asset_serve_def split: option.splits prod.splits AssetLoadResult.splits)

lemma route_returns:
  assumes "interruptions_end E" "built router" "handlers_return router" "ctx_arena c \<noteq> None"
  shows "ceasy_route E F bundle m cfg router fd c w \<noteq> None"
proof -
  obtain A where A: "ctx_arena c = Some A" using assms(4) by blast
  obtain path A1 where s: "string_from (arena_allocator m) A (req_path (ctx_request c)) = (path, A1)" by fastforce
  let ?c1 = "c\<lparr>ctx_arena := Some A1\<rparr>"
  show ?thesis
  proof (cases "string_data path")
    case None
    then show ?thesis using A s fail_returns [OF assms(1)] by (simp add: ceasy_route_def Let_def)
  next
    case (Some buffer)
    obtain r c2 w2 where d: "router_dispatch router (Some (ceasy_method_name (req_method (ctx_request c)))) (Some (c_string buffer)) ?c1 w =
        Some (r, c2, w2)" using router_dispatch_returns [OF assms(2,3)] by (metis option.exhaust prod_cases3)
    obtain served c3 w3 where a: "asset_serve E F bundle m cfg c2 w2 (req_path (ctx_request c2)) = Some (served, c3, w3)"
      using serve_returns [OF assms(1)] by (metis option.exhaust prod_cases3)
    obtain sent c4 w4 where b: "context_send_bytes E m cfg c2 w2 (sv ''204 No Content'') (sv ''text/plain; charset=utf-8'') sv_zero =
        Some (sent, c4, w4)" using send_bytes_returns [OF assms(1)] by blast
    obtain c5 w5 where e: "ceasy_end_client E fd c4 w4 = (c5, w5)" by fastforce
    show ?thesis using A s Some d a b e fail_returns [OF assms(1)]
      by (cases r; cases served) (simp_all add: ceasy_route_def Let_def context_send_text_def)
  qed
qed

lemma open_fresh:
  assumes "malloc_spec m" "arena_init arena_zero n = (True, A)"
    and "ceasy_open_client E m cfg (context_zero\<lparr>client_fd := fd\<rparr>) A w = (opened, c, w')"
  shows "fresh_context m c"
proof -
  obtain s A1 where s: "string_from (arena_allocator m) A (ceasy_database_path cfg) = (s, A1)" by fastforce
  have "arena_inv A1" using arena_copy(1) [OF assms(1) arena_init_good [OF assms(2)] s] .
  then have 0: "fresh_context m (context_zero\<lparr>client_fd := fd, ctx_arena := Some A1\<rparr>)"
    using assms(1) by (simp add: fresh_context_def arena_good_def context_zero_def)
  obtain c1 w1 where r: "ceasy_request_id E m (context_zero\<lparr>client_fd := fd, ctx_arena := Some A1\<rparr>) w = (c1, w1)" by fastforce
  have 1: "fresh_context m c1" by (rule request_id_fresh [OF 0 r])
  have "c = c1 \<or> (\<exists>db. c = c1\<lparr>ctx_database := Some db\<rparr>)"
    using assms(3) s r by (auto simp: ceasy_open_client_def Let_def split: option.splits prod.splits bool.splits)
  then show ?thesis using 1 by (auto simp: fresh_context_def arena_good_def)
qed

text \<open>The connection, step by step: its arena, what is opened, and the request that is read.\<close>

lemma handle_steps:
  assumes "malloc_spec m"
  obtains (shut) c1 w1 A where "arena_init arena_zero (64 * 1024) = (True, A)"
      "\<And>router. ceasy_handle_client E F assets m cfg router fd w =
         ceasy_fail E m cfg fd c1 w1 ''500 Internal Server Error'' ''database error''"
  | (unreadable) c2 w2 message where "(fst message, snd message) \<in> set refusals"
      "\<And>router. ceasy_handle_client E F assets m cfg router fd w = ceasy_fail E m cfg fd c2 w2 (fst message) (snd message)"
  | (whole) A c1 w1 c2 w2 q where "arena_init arena_zero (64 * 1024) = (True, A)"
      "ceasy_open_client E m cfg (context_zero\<lparr>client_fd := fd\<rparr>) A w = (True, c1, w1)"
      "ceasy_read_request E m c1 w1 = (REQUEST_PARSE_OK, c2, w2)" "fresh_context m c2" "views (req_body (ctx_request c2)) q"
      "\<And>router. ceasy_handle_client E F assets m cfg router fd w = ceasy_respond E F assets m cfg router fd c2 w2"
proof -
  obtain A where A: "arena_init arena_zero (64 * 1024) = (True, A)" by (simp add: arena_init_def)
  obtain opened c1 w1 where o: "ceasy_open_client E m cfg (context_zero\<lparr>client_fd := fd\<rparr>) A w = (opened, c1, w1)"
    by (metis prod_cases3)
  note c1 = open_fresh [OF assms A o]
  show thesis
  proof (cases opened)
    case False
    then show thesis using shut [of A c1 w1] A o by (simp add: ceasy_handle_client_def)
  next
    case True
    obtain parsed c2 w2 where r: "ceasy_read_request E m c1 w1 = (parsed, c2, w2)" by (metis prod_cases3)
    note c2 = read_request_fresh [OF c1 r]
    show thesis
    proof (cases "parsed = REQUEST_PARSE_OK")
      case ok: True
      then obtain q where "views (req_body (ctx_request c2)) q" using c2(2) by blast
      then show thesis using whole [OF A _ _ c2(1)] True ok A o r by (simp add: ceasy_handle_client_def)
    next
      case bad: False
      define message where "message = (if parsed = REQUEST_PARSE_PAYLOAD_TOO_LARGE
        then (''413 Payload Too Large'', ''payload too large'') else (''400 Bad Request'', ''malformed request''))"
      have "(fst message, snd message) \<in> set refusals" by (simp add: message_def refusals_def)
      moreover have "ceasy_handle_client E F assets m cfg router fd w = ceasy_fail E m cfg fd c2 w2 (fst message) (snd message)" for router
        using True A o r bad by (simp add: ceasy_handle_client_def message_def)
      ultimately show thesis by (rule unreadable)
    qed
  qed
qed


text \<open>A server whose database opens and whose client sends one request, with a file system without files.\<close>

definition demo_server :: "char list env" where
  "demo_server = wire_env\<lparr>sqlite3_open := (\<lambda>w path. (True, Some 1, w)), sqlite3_exec := (\<lambda>w c sql. (True, None, w)),
     sock_recv := (\<lambda>w fd n. (Some demo_request, w))\<rparr>"

definition no_files :: "'w files" where
  "no_files = \<lparr>fs_getcwd = (\<lambda>w. None), fs_realpath = (\<lambda>w p. (None, True)), fs_open = (\<lambda>w p. (None, True, w)),
     fs_size = (\<lambda>w i. (None, w)), fs_rewind = (\<lambda>w i. (False, w)), fs_read = (\<lambda>w i n. ([], w)), fs_close = (\<lambda>w i. (True, w))\<rparr>"


end
