(* ===== verification/Spec2Isabelle.thy ===== *)
theory Spec2Isabelle
  imports Prelude Arena ArenaRuns StringView Decimal StringParse Allocator StringBuf StringBufLaws StringPieces
    StringMap StringMapLaws Request RequestLaws World Database DatabaseLaws Config Context ContextLaws HeaderLaws
    Router RouterLaws Session SessionLaws SessionOps Response ResponseLaws Asset AssetLaws Server ServerLaws
begin

text \<open>
  \<^bold>\<open>A model of Ceasy, a web framework in C, and what it guarantees.\<close>

  Ceasy serves HTTP. The process of a connection (\<open>ceasy_handle_client\<close> in \<open>src/src/ceasy.c\<close>) makes an arena,
  opens the SQLite database, receives and parses one request, checks forms against the CSRF token of the
  client's session, dispatches to the application's routes or to a static file, and sends a response, into
  which the session's cookie and the security headers are written. Everything it allocates for the request
  comes from the arena or the C heap, through one allocator interface; texts are views or growing strings; the
  session is a hash map from names to typed values, stored in the database in a binary form.

  \<^bold>\<open>Theories and sources.\<close> A theory named \<open>XLaws\<close> holds the lemmas and properties of the theory \<open>X\<close>.

  \<^item> \<open>Prelude\<close>: \<open>size_t\<close>, bytes, loops over indices, and what the other theories share.
  \<^item> \<open>Arena\<close>, \<open>ArenaRuns\<close>: \<open>src/src/memory/arena.c\<close>. The record \<open>Arena\<close> is the struct, its chain of blocks a list; the
    operations have their C names. \<open>ArenaRuns\<close> is the transition system of all calls (\<open>arena_run\<close>) with the
    regions that clients hold.
  \<^item> \<open>Allocator\<close>: \<open>src/src/memory/allocator.c\<close>, the table of functions, and the locale \<open>allocator_laws\<close> of what clients
    rely on, interpreted for the arena (\<open>arena_provider\<close>) and the C heap (\<open>heap_provider\<close>).
  \<^item> \<open>StringView\<close>, \<open>StringParse\<close>, \<open>StringBuf\<close>, \<open>StringBufLaws\<close>, \<open>StringPieces\<close>, \<open>Decimal\<close>: \<open>src/src/string/string.c\<close>; views with
    their searches, numbers and splits; owning strings over any allocator; texts built by chains of appends.
  \<^item> \<open>StringMap\<close>, \<open>StringMapLaws\<close>: \<open>src/src/collection/string_map.c\<close>, open addressing with tombstones, refined to a finite map.
  \<^item> \<open>Request\<close>, \<open>RequestLaws\<close>: \<open>src/src/http/request.c\<close>.
  \<^item> \<open>World\<close>: the outside, one record \<open>env\<close> of the functions the code calls in SQLite, libsodium, the C library and
    the operating system, over an abstract state. \<open>Database\<close>, \<open>DatabaseLaws\<close>: \<open>src/src/database/database.c\<close>.
  \<^item> \<open>Config\<close>: \<open>src/src/config/config.c\<close>, its state \<open>CeasyConfig\<close> passed to whoever reads it.
  \<^item> \<open>Context\<close>, \<open>ContextLaws\<close>, \<open>HeaderLaws\<close>: \<open>src/src/http/context.c\<close>, \<open>src/src/http/cookie.c\<close>, \<open>src/src/rendering/html.c\<close>.
  \<^item> \<open>Router\<close>, \<open>RouterLaws\<close>: \<open>src/src/routing/router.c\<close>.
  \<^item> \<open>Session\<close>, \<open>SessionLaws\<close>, \<open>SessionOps\<close>: \<open>src/src/session/session.c\<close>, \<open>src/src/security/csrf.c\<close>, \<open>src/src/auth/auth.c\<close>,
    \<open>src/src/flash/flash.c\<close>.
  \<^item> \<open>Response\<close>, \<open>ResponseLaws\<close>, \<open>Server\<close>, \<open>ServerLaws\<close>: \<open>src/src/ceasy.c\<close>.
  \<^item> \<open>Asset\<close>, \<open>AssetLaws\<close>: \<open>src/src/asset/\<close>; the file system is the record \<open>files\<close>.
\<close>

text \<open>
  \<^bold>\<open>How C is read.\<close>

  \<^item> The target is 64-bit: \<open>size_t\<close> is a natural number, and every sum, product or difference the code does not guard
    itself is taken modulo \<open>2 ^ 64\<close> (\<open>sz_add\<close>, \<open>sz_mul\<close>, \<open>sz_sub\<close>). Hashes and generations are 64-bit words.
    \<open>char\<close> is signed where its order matters. The alignment is 16; the sizes of the structs are those of
    this target (80 for \<open>ArenaBlock\<close>, 56 for \<open>StringMapSlot\<close>).
  \<^item> A pointer that may be \<open>NULL\<close> is an option; pointers to objects that every caller passes are values, and the checks
    of them against \<open>NULL\<close> are left out. A view is \<open>View bytes\<close>, or \<open>NullView n\<close> when its pointer is \<open>NULL\<close>. A
    \<open>bool\<close> with an out-parameter is an option or a pair. Memory is passed by value; where the code works on
    overlapping memory (a source inside the string's own buffer) the overlap is modelled (\<open>StringSource\<close>).
  \<^item> State is passed: the arena, the heap, the context, the state \<open>'w\<close> of the outside. Application code (handlers and
    guards) is a function on the context and the outside.
  \<^item> A call that may not return is option-valued and \<open>None\<close> is not returning: growing a string (\<open>string_grow\<close>), the
    loops over \<open>send\<close>, calls of the application's code. Every other loop terminates, and \<open>string_grow\<close> is
    given 64 steps of doubling, one more than a \<open>size_t\<close> allows, so running out of them never happens. Probing
    in the hash map has a fuel of one pass over the table, which the invariant shows to be enough.
  \<^item> Code outside the repository is a parameter: \<open>malloc\<close> with \<open>malloc_spec\<close>, the heap with \<open>heap_spec\<close>, SQLite, of which a
    transaction's laws are named as \<open>sqlite_store\<close>, the socket with \<open>socket_sends\<close> and \<open>interruptions_end\<close>.
    \<open>demo_\<close> definitions are concrete instances for the examples (\<open>_witness\<close> theorems).
\<close>

text \<open>
  \<^bold>\<open>What is shown.\<close>

  \<^item> Memory (C1 to C5): no two live regions overlap, they are aligned and inside their block, through every sequence of
    allocations, marks, restores and resets; what fails changes nothing.
  \<^item> Text (C6 to C14): comparison, search, trimming and numbers against independent definitions; the string operations on
    every branch, with sources inside their own buffer, and replacement of all occurrences.
  \<^item> The hash map (C15 to C17) behaves as a finite map.
  \<^item> HTTP (C18 to C20, C25 to C32): what requests are accepted and how they are read; parameters and cookies are read
    back; response headers cannot be split; escaping; which route matches and runs.
  \<^item> Data (C21 to C24, C33 to C37): queued writes are all or nothing; transactions; configuration; sessions are stored and
    read back; tokens are renewed at sign-in; all session operations return.
  \<^item> The server (C38 to C40): no file outside \<open>public\<close> is opened; what the peer receives, byte for byte; every connection
    ends and no form reaches a route without its token.

  \<^bold>\<open>Not modelled.\<close> \<open>src/src/http/http_server.c\<close> and \<open>ceasy_run\<close> (sockets, \<open>fork\<close>: calls of the operating system without
  logic of their own) and the log line; still to be modelled: \<open>src/src/validation/validation.c\<close>,
  \<open>src/src/security/password.c\<close>, \<open>src/src/model/model.c\<close>, \<open>src/src/view/\<close> and the command line tool under
  \<open>src/tools/ceasy_cli\<close> (naming, migrations, view and asset compilers, generator), in this order. The example
  application and the tests are clients of the framework and left out.
\<close>

end
